(* ===== verification/Prelude.thy ===== *)
theory Prelude
  imports Main "HOL-Library.Word" "HOL-Library.AList"
begin

text \<open>
  The shared vocabulary of the development: the types every component uses, the sequencing of
  fallible and stateful steps, and the generic lemmas on lists and association lists that the
  component proofs rest on.

  A Go function that returns \<open>(T, error)\<close> is a function into \<open>'e + 'a\<close>: \<open>Inl\<close> is a non-nil
  error, \<open>Inr\<close> the value returned with a nil error. \<open>and_then\<close> is the code's
  \<^verbatim>\<open>if err != nil { return ..., err }\<close>. \<open>db_bind\<close>-style sequencing of stateful steps is in the
  theories that need it.
\<close>

type_synonym byte = "8 word"
type_synonym bytes = "byte list"

text \<open>Points in time and durations, in nanoseconds (Go's \<open>time.Time\<close> and \<open>time.Duration\<close>).\<close>

type_synonym time = int
type_synonym duration = int

definition second :: duration where
  "second = 1000000000"

definition minute :: duration where
  "minute = 60 * second"

named_theorems invar_intros \<open>operations preserve the invariant of their component\<close>
named_theorems frame_simps \<open>what an operation leaves unchanged\<close>

section \<open>Fallible steps\<close>

definition and_then :: "'e + 'a \<Rightarrow> ('a \<Rightarrow> 'e + 'b) \<Rightarrow> 'e + 'b" where
  "and_then r k = (case r of Inl e \<Rightarrow> Inl e | Inr x \<Rightarrow> k x)"

lemma and_then_simps [simp]:
  "and_then (Inl e) k = Inl e"
  "and_then (Inr x) k = k x"
  by (simp_all add: and_then_def)

lemma and_then_Inr_iff: "and_then r k = Inr y \<longleftrightarrow> (\<exists>x. r = Inr x \<and> k x = Inr y)"
  by (cases r) auto

lemma and_then_Inl_iff:
  "and_then r k = Inl e \<longleftrightarrow> r = Inl e \<or> (\<exists>x. r = Inr x \<and> k x = Inl e)"
  by (cases r) auto

lemma and_then_cong [fundef_cong]:
  "r = r' \<Longrightarrow> (\<And>x. r' = Inr x \<Longrightarrow> k x = k' x) \<Longrightarrow> and_then r k = and_then r' k'"
  by (cases r') auto

definition is_ok :: "'e + 'a \<Rightarrow> bool" where
  "is_ok r = (case r of Inl _ \<Rightarrow> False | Inr _ \<Rightarrow> True)"

lemma is_ok_simps [simp]: "\<not> is_ok (Inl e)" "is_ok (Inr x)"
  by (simp_all add: is_ok_def)

section \<open>Lists\<close>

lemma list_eq_appendI: "xs = ys \<Longrightarrow> us = vs \<Longrightarrow> xs @ us = ys @ vs"
  by simp

lemma length_dropWhile_le': "length (dropWhile P xs) \<le> length xs"
  by (rule length_dropWhile_le)

lemma filter_eq_self_iff: "filter P xs = xs \<longleftrightarrow> (\<forall>x\<in>set xs. P x)"
  by (simp add: filter_id_conv)

lemma distinct_map_filterI [intro]: "distinct (map f xs) \<Longrightarrow> distinct (map f (filter P xs))"
  by (induction xs) auto

section \<open>Association lists\<close>

text \<open>A Go map is an association list with distinct keys; its order stands for one of the
  orders in which \<open>range\<close> may visit the map.\<close>

definition adelete :: "'k \<Rightarrow> ('k \<times> 'v) list \<Rightarrow> ('k \<times> 'v) list" where
  "adelete k m = filter (\<lambda>(k', _). k' \<noteq> k) m"

lemma distinct_keys_filter [simp, intro]:
  "distinct (map fst m) \<Longrightarrow> distinct (map fst (filter P m))"
  by (induction m) auto

lemma map_of_filter_distinct:
  "distinct (map fst m) \<Longrightarrow>
     map_of (filter P m) k = (case map_of m k of Some v \<Rightarrow> if P (k, v) then Some v else None | None \<Rightarrow> None)"
proof (induction m)
  case (Cons kv m)
  obtain k' v where kv: "kv = (k', v)" by (cases kv)
  have "map_of m k' = None"
    using Cons.prems kv by (simp add: map_of_eq_None_iff)
  then have "map_of (filter P m) k' = None"
    by (auto simp: map_of_eq_None_iff image_iff)
  then show ?case using Cons kv by (auto split: option.splits)
qed simp

lemma map_of_adelete: "map_of (adelete k m) k' = (if k' = k then None else map_of m k')"
  unfolding adelete_def by (induction m) auto

lemma distinct_adelete [simp, intro]: "distinct (map fst m) \<Longrightarrow> distinct (map fst (adelete k m))"
  unfolding adelete_def by (rule distinct_keys_filter)

lemma length_adelete_le: "length (adelete k m) \<le> length m"
  unfolding adelete_def by (rule length_filter_le)

lemma length_update_le:
  "length (AList.update k v m) \<le> Suc (length m)"
  by (induction m) auto

lemma length_update_present:
  "k \<in> fst ` set m \<Longrightarrow> length (AList.update k v m) = length m"
  by (induction m) auto

lemma length_update_absent:
  "k \<notin> fst ` set m \<Longrightarrow> length (AList.update k v m) = Suc (length m)"
  by (induction m) auto

section \<open>Machines\<close>

text \<open>A component with state is driven by a sequence of operations. Two contracts recur: an
  invariant that every operation keeps, and an abstract machine that gives the same answers.\<close>

fun outputs :: "('s \<Rightarrow> 'e \<Rightarrow> 'o \<times> 's) \<Rightarrow> 's \<Rightarrow> 'e list \<Rightarrow> 'o list" where
  "outputs step s [] = []"
| "outputs step s (e # es) = (case step s e of (out, s') \<Rightarrow> out # outputs step s' es)"

fun final_state :: "('s \<Rightarrow> 'e \<Rightarrow> 'o \<times> 's) \<Rightarrow> 's \<Rightarrow> 'e list \<Rightarrow> 's" where
  "final_state step s [] = s"
| "final_state step s (e # es) = final_state step (snd (step s e)) es"

lemma outputs_Cons: "outputs step s (e # es) = fst (step s e) # outputs step (snd (step s e)) es"
  by (simp add: case_prod_beta)

lemma length_outputs [simp]: "length (outputs step s es) = length es"
  by (induction es arbitrary: s) (simp_all add: outputs_Cons del: outputs.simps(2))

lemma final_state_append: "final_state step s (es @ fs) = final_state step (final_state step s es) fs"
  by (induction es arbitrary: s) simp_all

lemma outputs_append:
  "outputs step s (es @ fs) = outputs step s es @ outputs step (final_state step s es) fs"
  by (induction es arbitrary: s) (simp_all add: outputs_Cons del: outputs.simps(2))

locale invariant_machine =
  fixes step :: "'s \<Rightarrow> 'e \<Rightarrow> 'o \<times> 's"
    and inv :: "'s \<Rightarrow> bool"
  assumes step_inv: "inv s \<Longrightarrow> inv (snd (step s e))"
begin

lemma run_inv: "inv s \<Longrightarrow> inv (final_state step s es)"
  by (induction es arbitrary: s) (simp_all add: step_inv)

lemma run_prefix_inv: "inv s \<Longrightarrow> inv (final_state step s (take n es))"
  by (rule run_inv)

end

locale simulation =
  fixes cstep :: "'c \<Rightarrow> 'e \<Rightarrow> 'o \<times> 'c"
    and astep :: "'a \<Rightarrow> 'e \<Rightarrow> 'o \<times> 'a"
    and rel :: "'c \<Rightarrow> 'a \<Rightarrow> bool"
    and ok :: "'a \<Rightarrow> 'e \<Rightarrow> bool"
  assumes sim_output: "rel c a \<Longrightarrow> ok a e \<Longrightarrow> fst (cstep c e) = fst (astep a e)"
    and sim_rel: "rel c a \<Longrightarrow> ok a e \<Longrightarrow> rel (snd (cstep c e)) (snd (astep a e))"
begin

primrec admissible :: "'a \<Rightarrow> 'e list \<Rightarrow> bool" where
  "admissible a [] = True"
| "admissible a (e # es) = (ok a e \<and> admissible (snd (astep a e)) es)"

lemma runs_agree: "rel c a \<Longrightarrow> admissible a es \<Longrightarrow> outputs cstep c es = outputs astep a es"
proof (induction es arbitrary: c a)
  case (Cons e es)
  then show ?case
    using sim_output [of c a e] sim_rel [of c a e]
    by (simp add: outputs_Cons del: outputs.simps(2))
qed simp

lemma runs_related:
  "rel c a \<Longrightarrow> admissible a es \<Longrightarrow> rel (final_state cstep c es) (final_state astep a es)"
  by (induction es arbitrary: c a) (simp_all add: sim_rel)

end

end
