(* ===== verification/Unicode_Tables.thy ===== *)
theory Unicode_Tables
  imports Prelude
begin

text \<open>
  The parts of Go's package \<open>unicode\<close> that the program reaches through \<open>strings.ToLower\<close>,
  \<open>strings.EqualFold\<close> and \<open>strings.TrimSpace\<close>: simple lower-case mapping, simple case folding and
  the White_Space property, with the data of the Unicode character database (version 15, the one
  Go ships; the case mappings did not change between versions 14 and 15). A row
  \<open>(lo, hi, step, to)\<close> maps \<open>lo, lo + step, \<dots>, hi\<close> to \<open>to, to + step, \<dots>\<close>.

  What the program relies on is proved from the data: lower-casing is idempotent, keeps white
  space white space, and produces the separators of DN syntax from nothing but themselves.
\<close>

type_synonym rune = int
type_synonym case_range = "int \<times> int \<times> int \<times> int"

definition lower_ranges :: "case_range list" where
  "lower_ranges = [
    (192, 214, 1, 224), (216, 222, 1, 248), (256, 302, 2, 257), (304, 304, 1, 105),
    (306, 310, 2, 307), (313, 327, 2, 314), (330, 374, 2, 331), (376, 376, 1, 255),
    (377, 381, 2, 378), (385, 385, 1, 595), (386, 388, 2, 387), (390, 390, 1, 596),
    (391, 391, 1, 392), (393, 394, 1, 598), (395, 395, 1, 396), (398, 398, 1, 477),
    (399, 399, 1, 601), (400, 400, 1, 603), (401, 401, 1, 402), (403, 403, 1, 608),
    (404, 404, 1, 611), (406, 406, 1, 617), (407, 407, 1, 616), (408, 408, 1, 409),
    (412, 412, 1, 623), (413, 413, 1, 626), (415, 415, 1, 629), (416, 420, 2, 417),
    (422, 422, 1, 640), (423, 423, 1, 424), (425, 425, 1, 643), (428, 428, 1, 429),
    (430, 430, 1, 648), (431, 431, 1, 432), (433, 434, 1, 650), (435, 437, 2, 436),
    (439, 439, 1, 658), (440, 440, 1, 441), (444, 444, 1, 445), (452, 452, 1, 454),
    (453, 453, 1, 454), (455, 455, 1, 457), (456, 456, 1, 457), (458, 458, 1, 460),
    (459, 475, 2, 460), (478, 494, 2, 479), (497, 497, 1, 499), (498, 500, 2, 499),
    (502, 502, 1, 405), (503, 503, 1, 447), (504, 542, 2, 505), (544, 544, 1, 414),
    (546, 562, 2, 547), (570, 570, 1, 11365), (571, 571, 1, 572), (573, 573, 1, 410),
    (574, 574, 1, 11366), (577, 577, 1, 578), (579, 579, 1, 384), (580, 580, 1, 649),
    (581, 581, 1, 652), (582, 590, 2, 583), (880, 882, 2, 881), (886, 886, 1, 887),
    (895, 895, 1, 1011), (902, 902, 1, 940), (904, 906, 1, 941), (908, 908, 1, 972),
    (910, 911, 1, 973), (913, 929, 1, 945), (931, 939, 1, 963), (975, 975, 1, 983),
    (984, 1006, 2, 985), (1012, 1012, 1, 952), (1015, 1015, 1, 1016), (1017, 1017, 1, 1010),
    (1018, 1018, 1, 1019), (1021, 1023, 1, 891), (1024, 1039, 1, 1104), (1040, 1071, 1, 1072),
    (1120, 1152, 2, 1121), (1162, 1214, 2, 1163), (1216, 1216, 1, 1231), (1217, 1229, 2, 1218),
    (1232, 1326, 2, 1233), (1329, 1366, 1, 1377), (4256, 4293, 1, 11520),
    (4295, 4295, 1, 11559), (4301, 4301, 1, 11565), (5024, 5103, 1, 43888),
    (5104, 5109, 1, 5112), (7312, 7354, 1, 4304), (7357, 7359, 1, 4349), (7680, 7828, 2, 7681),
    (7838, 7838, 1, 223), (7840, 7934, 2, 7841), (7944, 7951, 1, 7936), (7960, 7965, 1, 7952),
    (7976, 7983, 1, 7968), (7992, 7999, 1, 7984), (8008, 8013, 1, 8000), (8025, 8031, 2, 8017),
    (8040, 8047, 1, 8032), (8072, 8079, 1, 8064), (8088, 8095, 1, 8080), (8104, 8111, 1, 8096),
    (8120, 8121, 1, 8112), (8122, 8123, 1, 8048), (8124, 8124, 1, 8115), (8136, 8139, 1, 8050),
    (8140, 8140, 1, 8131), (8152, 8153, 1, 8144), (8154, 8155, 1, 8054), (8168, 8169, 1, 8160),
    (8170, 8171, 1, 8058), (8172, 8172, 1, 8165), (8184, 8185, 1, 8056), (8186, 8187, 1, 8060),
    (8188, 8188, 1, 8179), (8486, 8486, 1, 969), (8490, 8490, 1, 107), (8491, 8491, 1, 229),
    (8498, 8498, 1, 8526), (8544, 8559, 1, 8560), (8579, 8579, 1, 8580), (9398, 9423, 1, 9424),
    (11264, 11311, 1, 11312), (11360, 11360, 1, 11361), (11362, 11362, 1, 619),
    (11363, 11363, 1, 7549), (11364, 11364, 1, 637), (11367, 11371, 2, 11368),
    (11373, 11373, 1, 593), (11374, 11374, 1, 625), (11375, 11375, 1, 592),
    (11376, 11376, 1, 594), (11378, 11378, 1, 11379), (11381, 11381, 1, 11382),
    (11390, 11391, 1, 575), (11392, 11490, 2, 11393), (11499, 11501, 2, 11500),
    (11506, 11506, 1, 11507), (42560, 42604, 2, 42561), (42624, 42650, 2, 42625),
    (42786, 42798, 2, 42787), (42802, 42862, 2, 42803), (42873, 42875, 2, 42874),
    (42877, 42877, 1, 7545), (42878, 42886, 2, 42879), (42891, 42891, 1, 42892),
    (42893, 42893, 1, 613), (42896, 42898, 2, 42897), (42902, 42920, 2, 42903),
    (42922, 42922, 1, 614), (42923, 42923, 1, 604), (42924, 42924, 1, 609),
    (42925, 42925, 1, 620), (42926, 42926, 1, 618), (42928, 42928, 1, 670),
    (42929, 42929, 1, 647), (42930, 42930, 1, 669), (42931, 42931, 1, 43859),
    (42932, 42946, 2, 42933), (42948, 42948, 1, 42900), (42949, 42949, 1, 642),
    (42950, 42950, 1, 7566), (42951, 42953, 2, 42952), (42960, 42960, 1, 42961),
    (42966, 42968, 2, 42967), (42997, 42997, 1, 42998), (65313, 65338, 1, 65345),
    (66560, 66599, 1, 66600), (66736, 66771, 1, 66776), (66928, 66938, 1, 66967),
    (66940, 66954, 1, 66979), (66956, 66962, 1, 66995), (66964, 66965, 1, 67003),
    (68736, 68786, 1, 68800), (71840, 71871, 1, 71872), (93760, 93791, 1, 93792),
    (125184, 125217, 1, 125218)]"

text \<open>Where simple case folding (the orbits of \<open>unicode.SimpleFold\<close>) differs from lower-casing.\<close>

definition fold_extra_ranges :: "case_range list" where
  "fold_extra_ranges = [
    (304, 304, 1, 304), (5024, 5103, 1, 5024), (5104, 5109, 1, 5104), (181, 181, 1, 956),
    (383, 383, 1, 115), (837, 837, 1, 953), (962, 962, 1, 963), (976, 976, 1, 946),
    (977, 977, 1, 952), (981, 981, 1, 966), (982, 982, 1, 960), (1008, 1008, 1, 954),
    (1009, 1009, 1, 961), (1013, 1013, 1, 949), (5112, 5117, 1, 5104), (7296, 7296, 1, 1074),
    (7297, 7297, 1, 1076), (7298, 7298, 1, 1086), (7299, 7300, 1, 1089), (7301, 7301, 1, 1090),
    (7302, 7302, 1, 1098), (7303, 7303, 1, 1123), (7304, 7304, 1, 42571), (7835, 7835, 1, 7777),
    (8126, 8126, 1, 953), (43888, 43967, 1, 5024)]"

definition white_space_runes :: "rune list" where
  "white_space_runes = [9, 10, 11, 12, 13, 32, 133, 160, 5760, 8192, 8193, 8194, 8195, 8196, 8197,
     8198, 8199, 8200, 8201, 8202, 8232, 8233, 8239, 8287, 12288]"

fun in_range :: "rune \<Rightarrow> case_range \<Rightarrow> bool" where
  "in_range r (lo, hi, st, to) \<longleftrightarrow> lo \<le> r \<and> r \<le> hi \<and> (r - lo) mod st = 0"

fun range_image :: "rune \<Rightarrow> case_range \<Rightarrow> rune" where
  "range_image r (lo, hi, st, to) = to + (r - lo)"

definition lookup_ranges :: "case_range list \<Rightarrow> rune \<Rightarrow> rune option" where
  "lookup_ranges rs r = map_option (range_image r) (find (in_range r) rs)"

definition ascii_lower_rune :: "rune \<Rightarrow> rune" where
  "ascii_lower_rune r = (if 65 \<le> r \<and> r \<le> 90 then r + 32 else r)"

text \<open>\<open>unicode.ToLower\<close>: the ASCII branch first, then the table.\<close>

definition unicode_to_lower :: "rune \<Rightarrow> rune" where
  "unicode_to_lower r =
     (if r < 128 then ascii_lower_rune r
      else case lookup_ranges lower_ranges r of None \<Rightarrow> r | Some y \<Rightarrow> y)"

text \<open>The representative of the \<open>unicode.SimpleFold\<close> orbit of a rune: two runes are equal under
  simple folding iff they have the same representative.\<close>

definition unicode_fold :: "rune \<Rightarrow> rune" where
  "unicode_fold r =
     (if r < 128 then ascii_lower_rune r
      else case lookup_ranges (fold_extra_ranges @ lower_ranges) r of None \<Rightarrow> r | Some y \<Rightarrow> y)"

definition unicode_is_space :: "rune \<Rightarrow> bool" where
  "unicode_is_space r = (r \<in> set white_space_runes)"

section \<open>What the tables guarantee\<close>

fun misses :: "case_range \<Rightarrow> case_range \<Rightarrow> bool" where
  "misses (lo, hi, st, to) (lo', hi', st', to') \<longleftrightarrow>
     hi' < to \<or> to + (hi - lo) < lo' \<or> st' = 2 \<and> (to - lo') mod 2 = 1 \<and> (st = 2 \<or> hi = lo)"

definition well_formed_range :: "case_range \<Rightarrow> bool" where
  "well_formed_range = (\<lambda>(lo, hi, st, to).
     128 \<le> lo \<and> lo \<le> hi \<and> (st = 1 \<or> st = 2) \<and> (122 < to \<or> hi = lo \<and> 97 \<le> to) \<and>
     (55296 > hi \<or> 57343 < lo) \<and> hi \<le> 1114111 \<and>
     (to + (hi - lo) < 55296 \<or> 57343 < to) \<and> to + (hi - lo) \<le> 1114111 \<and>
     list_all (\<lambda>w. (hi < w \<or> w < lo) \<and> (to + (hi - lo) < w \<or> w < to)) white_space_runes)"

lemma lower_ranges_well_formed: "list_all well_formed_range lower_ranges"
  by code_simp

text \<open>
  Idempotence needs that no image of a row lies in the domain of a row. A row that alternates
  (upper, lower, upper, lower, \<dots>) maps into its own block; the blocks are disjoint. The images
  of the other rows, sorted, are disjoint from all blocks, which one linear pass over the two
  sorted lists shows; two single points that fall into the gaps of a block are looked at apart.
\<close>

fun alternating :: "case_range \<Rightarrow> bool" where
  "alternating (lo, hi, st, to) \<longleftrightarrow> st = 2 \<and> to = lo + 1"

fun block :: "case_range \<Rightarrow> int \<times> int" where
  "block (lo, hi, st, to) = (lo, if st = 2 \<and> to = lo + 1 then hi + 1 else hi)"

fun span :: "case_range \<Rightarrow> int \<times> int" where
  "span (lo, hi, st, to) = (to, to + (hi - lo))"

definition image_spans :: "(int \<times> int) list" where
  "image_spans = [
    (105, 105), (107, 107), (223, 223), (224, 246), (229, 229), (248, 254), (255, 255),
    (384, 384), (392, 392), (396, 396), (402, 402), (405, 405), (409, 409), (410, 410),
    (414, 414), (424, 424), (429, 429), (432, 432), (441, 441), (445, 445), (447, 447),
    (454, 454), (457, 457), (477, 477), (572, 572), (575, 576), (578, 578), (592, 592),
    (593, 593), (594, 594), (595, 595), (596, 596), (598, 599), (601, 601), (603, 603),
    (604, 604), (608, 608), (609, 609), (611, 611), (613, 613), (614, 614), (616, 616),
    (617, 617), (618, 618), (619, 619), (620, 620), (623, 623), (625, 625), (626, 626),
    (629, 629), (637, 637), (640, 640), (642, 642), (643, 643), (647, 647), (648, 648),
    (649, 649), (650, 651), (652, 652), (658, 658), (669, 669), (670, 670), (887, 887),
    (891, 893), (940, 940), (941, 943), (945, 961), (952, 952), (963, 971), (969, 969),
    (972, 972), (973, 974), (983, 983), (1010, 1010), (1011, 1011), (1016, 1016), (1019, 1019),
    (1072, 1103), (1104, 1119), (1231, 1231), (1377, 1414), (4304, 4346), (4349, 4351),
    (5112, 5117), (7545, 7545), (7549, 7549), (7566, 7566), (7936, 7943), (7952, 7957),
    (7968, 7975), (7984, 7991), (8000, 8005), (8017, 8023), (8032, 8039), (8048, 8049),
    (8050, 8053), (8054, 8055), (8056, 8057), (8058, 8059), (8060, 8061), (8064, 8071),
    (8080, 8087), (8096, 8103), (8112, 8113), (8115, 8115), (8131, 8131), (8144, 8145),
    (8160, 8161), (8165, 8165), (8179, 8179), (8526, 8526), (8560, 8575), (8580, 8580),
    (9424, 9449), (11312, 11359), (11361, 11361), (11365, 11365), (11366, 11366),
    (11379, 11379), (11382, 11382), (11507, 11507), (11520, 11557), (11559, 11559),
    (11565, 11565), (42892, 42892), (42900, 42900), (42961, 42961), (42998, 42998),
    (43859, 43859), (43888, 43967), (65345, 65370), (66600, 66639), (66776, 66811),
    (66967, 66977), (66979, 66993), (66995, 67001), (67003, 67004), (68800, 68850),
    (71872, 71903), (93792, 93823), (125218, 125251)]"

fun ascending :: "(int \<times> int) list \<Rightarrow> bool" where
  "ascending ((a, b) # (c, d) # xs) \<longleftrightarrow> a \<le> b \<and> b < c \<and> ascending ((c, d) # xs)"
| "ascending [(a, b)] \<longleftrightarrow> a \<le> b"
| "ascending [] \<longleftrightarrow> True"

fun sorted_fst :: "(int \<times> int) list \<Rightarrow> bool" where
  "sorted_fst ((a, b) # (c, d) # xs) \<longleftrightarrow> a \<le> c \<and> sorted_fst ((c, d) # xs)"
| "sorted_fst _ \<longleftrightarrow> True"

fun separate :: "(int \<times> int) list \<Rightarrow> (int \<times> int) list \<Rightarrow> bool" where
  "separate ((a, b) # is) ((c, d) # bs) =
     (if d < a then separate ((a, b) # is) bs else b < c \<and> separate is ((c, d) # bs))"
| "separate _ _ = True"

lemma ascending_tl: "ascending (x # xs) \<Longrightarrow> ascending xs"
  by (cases x; cases xs) auto

lemma ascending_above:
  "ascending ((a, b) # xs) \<Longrightarrow> (c, d) \<in> set xs \<Longrightarrow> a \<le> b \<and> b < c \<and> c \<le> d"
proof (induction xs arbitrary: a b)
  case (Cons x xs)
  obtain c' d' where x: "x = (c', d')" by (cases x)
  show ?case
  proof (cases "(c, d) = x")
    case True
    then show ?thesis using Cons.prems x by (cases xs) auto
  next
    case False
    then have "c' \<le> d' \<and> d' < c \<and> c \<le> d"
      using Cons.IH [of c' d'] Cons.prems x by auto
    then show ?thesis using Cons.prems x by auto
  qed
qed simp

lemma sorted_fst_above: "sorted_fst ((a, b) # xs) \<Longrightarrow> (c, d) \<in> set xs \<Longrightarrow> a \<le> c"
proof (induction xs arbitrary: a b)
  case (Cons x xs)
  then show ?case by (cases x) fastforce
qed simp

lemma sorted_fst_tl: "sorted_fst (x # xs) \<Longrightarrow> sorted_fst xs"
  by (cases x; cases xs) auto

lemma separate_disjoint:
  "separate is bs \<Longrightarrow> sorted_fst is \<Longrightarrow> ascending bs \<Longrightarrow>
   (a, b) \<in> set is \<Longrightarrow> (c, d) \<in> set bs \<Longrightarrow> d < a \<or> b < c"
proof (induction "is" bs rule: separate.induct)
  case (1 a' b' "is" c' d' bs)
  show ?case
  proof (cases "d' < a'")
    case True
    have "a' \<le> a" using "1.prems" sorted_fst_above [of a' b' "is" a b] by auto
    then show ?thesis using True "1.IH"(1) "1.prems" ascending_tl by auto
  next
    case False
    have "c' \<le> c" using "1.prems" ascending_above [of c' d' bs c d] by fastforce
    then show ?thesis using False "1.IH"(2) "1.prems" sorted_fst_tl by auto
  qed
qed auto

lemma blocks_ascending: "ascending (map block lower_ranges)"
  by code_simp

lemma spans_sorted: "sorted_fst image_spans"
  by code_simp

lemma spans_separate: "separate image_spans (map block lower_ranges)"
  by code_simp

lemma spans_cover:
  "list_all (\<lambda>e. alternating e \<or> e = (458, 458, 1, 460) \<or> e = (497, 497, 1, 499) \<or>
     list_ex (\<lambda>s. s = span e) image_spans) lower_ranges"
  by code_simp

lemma misses_exceptions:
  "list_all (misses (458, 458, 1, 460)) lower_ranges"
  "list_all (misses (497, 497, 1, 499)) lower_ranges"
  by code_simp+

lemma misses_imp:
  assumes "misses e e'" and "well_formed_range e" and "in_range r e"
  shows "\<not> in_range (range_image r e) e'"
proof -
  obtain lo hi st to where e: "e = (lo, hi, st, to)" by (cases e)
  obtain lo' hi' st' to' where e': "e' = (lo', hi', st', to')" by (cases e')
  have r: "lo \<le> r" "r \<le> hi" "(r - lo) mod st = 0"
    using assms(3) e by auto
  from assms(1) consider "hi' < to" | "to + (hi - lo) < lo'"
    | "st' = 2" "(to - lo') mod 2 = 1" "st = 2 \<or> hi = lo"
    using e e' by auto
  then show ?thesis
  proof cases
    case 3
    then have "(to + (r - lo) - lo') mod 2 = 1"
      using r by (elim disjE) (simp_all, presburger)
    then show ?thesis using 3 e e' by simp
  qed (use r e e' in auto)
qed

lemma in_block: "in_range r e \<Longrightarrow> fst (block e) \<le> r \<and> r \<le> snd (block e)"
  by (cases e) auto

lemma same_block:
  assumes "e \<in> set lower_ranges" "e' \<in> set lower_ranges"
    and "fst (block e) \<le> y" "y \<le> snd (block e)" "fst (block e') \<le> y" "y \<le> snd (block e')"
  shows "e = e'"
proof -
  have gen: "ascending (map block es) \<Longrightarrow> e \<in> set es \<Longrightarrow> e' \<in> set es \<Longrightarrow> e = e'" for es
  proof (induction es)
    case (Cons x es)
    have tl: "ascending (map block es)" using Cons.prems(1) ascending_tl by simp
    have above: "snd (block x) < fst (block z)" if "z \<in> set es" for z
      using ascending_above [of "fst (block x)" "snd (block x)" "map block es"
          "fst (block z)" "snd (block z)"] Cons.prems(1) that by auto
    show ?case
    proof (cases "e = x \<or> e' = x")
      case True
      then show ?thesis using above [of e] above [of e'] assms(3-6) Cons.prems by auto
    next
      case False
      then show ?thesis using Cons tl by auto
    qed
  qed simp
  show ?thesis using gen [OF blocks_ascending assms(1,2)] .
qed

lemma image_not_in_domain:
  assumes e: "e \<in> set lower_ranges" and e': "e' \<in> set lower_ranges" and r: "in_range r e"
  shows "\<not> in_range (range_image r e) e'"
proof -
  have wf: "well_formed_range e"
    using lower_ranges_well_formed e by (simp add: list_all_iff)
  obtain lo hi st to where es: "e = (lo, hi, st, to)" by (cases e)
  have "alternating e \<or> e = (458, 458, 1, 460) \<or> e = (497, 497, 1, 499) \<or> span e \<in> set image_spans"
    using spans_cover e by (auto simp: list_all_iff list_ex_iff)
  then consider "alternating e" | "misses e e'" | "span e \<in> set image_spans"
    using misses_exceptions e' by (auto simp: list_all_iff)
  then show ?thesis
  proof cases
    case 1
    show ?thesis
    proof
      assume y: "in_range (range_image r e) e'"
      have "fst (block e) \<le> range_image r e \<and> range_image r e \<le> snd (block e)"
        using 1 r es by auto
      then have "e = e'"
        using same_block [OF e e'] in_block [OF y] by blast
      then have "(r - lo) mod 2 = 0" "(r + 1 - lo) mod 2 = 0"
        using 1 r y es by (auto simp: algebra_simps)
      then show False by presburger
    qed
  next
    case 2
    then show ?thesis using misses_imp wf r by blast
  next
    case 3
    have "snd (block e') < to \<or> to + (hi - lo) < fst (block e')"
      using separate_disjoint [OF spans_separate spans_sorted blocks_ascending, of to "to + (hi - lo)"
          "fst (block e')" "snd (block e')"] 3 e' es by force
    then show ?thesis
      using in_block [of "range_image r e" e'] r es by auto
  qed
qed

section \<open>Laws of lower-casing\<close>

definition valid_rune :: "rune \<Rightarrow> bool" where
  "valid_rune r \<longleftrightarrow> 0 \<le> r \<and> r \<le> 1114111 \<and> \<not> (55296 \<le> r \<and> r \<le> 57343)"

text \<open>A lower-cased rune is the rune itself, an ASCII letter moved by 32, or the image of a row.\<close>

lemma unicode_to_lower_cases:
  obtains (same) "unicode_to_lower r = r" "r < 128 \<Longrightarrow> \<not> (65 \<le> r \<and> r \<le> 90)"
      "128 \<le> r \<Longrightarrow> \<forall>e\<in>set lower_ranges. \<not> in_range r e"
    | (ascii) "65 \<le> r" "r \<le> 90" "unicode_to_lower r = r + 32"
    | (row) e where "128 \<le> r" "e \<in> set lower_ranges" "in_range r e"
        "unicode_to_lower r = range_image r e"
proof (cases "r < 128")
  case True
  then show ?thesis
    using same ascii by (cases "65 \<le> r \<and> r \<le> 90") (auto simp: unicode_to_lower_def ascii_lower_rune_def)
next
  case False
  show ?thesis
  proof (cases "find (in_range r) lower_ranges")
    case None
    then have "\<forall>e\<in>set lower_ranges. \<not> in_range r e"
      by (simp only: find_None_iff) blast
    then show ?thesis
      using same False None by (simp add: unicode_to_lower_def lookup_ranges_def)
  next
    case (Some e)
    then have "e \<in> set lower_ranges" "in_range r e"
      by (auto simp: find_Some_iff)
    then show ?thesis
      using row [of e] False Some by (simp add: unicode_to_lower_def lookup_ranges_def)
  qed
qed

lemma row_facts:
  assumes "e \<in> set lower_ranges" "in_range r e"
  shows "97 \<le> range_image r e" "valid_rune (range_image r e)" "valid_rune r" "\<not> unicode_is_space r"
    "\<not> unicode_is_space (range_image r e)"
proof -
  obtain lo hi st to where e: "e = (lo, hi, st, to)" by (cases e)
  have wf: "well_formed_range (lo, hi, st, to)"
    using lower_ranges_well_formed assms(1) e by (simp add: list_all_iff)
  show "97 \<le> range_image r e" "valid_rune (range_image r e)" "valid_rune r"
    using wf assms(2) e by (auto simp: well_formed_range_def valid_rune_def)
  show "\<not> unicode_is_space r" "\<not> unicode_is_space (range_image r e)"
    using wf assms(2) e unfolding well_formed_range_def unicode_is_space_def list_all_iff
    by fastforce+
qed

lemma unicode_to_lower_idem [simp]:
  "unicode_to_lower (unicode_to_lower r) = unicode_to_lower r"
proof (cases r rule: unicode_to_lower_cases)
  case (row e)
  let ?y = "range_image r e"
  have "97 \<le> ?y" and miss: "\<forall>e'\<in>set lower_ranges. \<not> in_range ?y e'"
    using row_facts [OF row(2,3)] image_not_in_domain [OF row(2) _ row(3)] by auto
  then have "unicode_to_lower ?y = ?y"
    by (cases ?y rule: unicode_to_lower_cases) auto
  then show ?thesis using row by simp
qed (simp_all add: unicode_to_lower_def ascii_lower_rune_def)

lemma valid_rune_to_lower: "valid_rune r \<Longrightarrow> valid_rune (unicode_to_lower r)"
  by (cases r rule: unicode_to_lower_cases) (simp, simp add: valid_rune_def, simp add: row_facts)

lemma unicode_is_space_to_lower [simp]: "unicode_is_space (unicode_to_lower r) = unicode_is_space r"
proof (cases r rule: unicode_to_lower_cases)
  case ascii
  then have "\<not> unicode_is_space r" "\<not> unicode_is_space (r + 32)"
    by (simp_all add: unicode_is_space_def white_space_runes_def)
  then show ?thesis using ascii by simp
next
  case (row e)
  then show ?thesis using row_facts [OF row(2,3)] by simp
qed simp

lemma unicode_to_lower_small: "unicode_to_lower r < 97 \<Longrightarrow> unicode_to_lower r = r"
  by (cases r rule: unicode_to_lower_cases) (auto dest: row_facts)

lemma unicode_to_lower_not_upper: "\<not> (65 \<le> unicode_to_lower r \<and> unicode_to_lower r \<le> 90)"
  by (cases r rule: unicode_to_lower_cases) (auto dest: row_facts)

lemma unicode_to_lower_ascii: "r < 128 \<Longrightarrow> unicode_to_lower r = ascii_lower_rune r"
  by (simp add: unicode_to_lower_def)

lemma unicode_fold_ascii: "r < 128 \<Longrightarrow> unicode_fold r = ascii_lower_rune r"
  by (simp add: unicode_fold_def)

end
