(* ===== verification/Text_Laws.thy ===== *)
theory Text_Laws
  imports Go_Strings
begin

text \<open>
  What the text functions of \<open>Go_Strings\<close> guarantee on every Go string, valid UTF-8 or not:
  decoding inverts encoding, an ASCII separator is never swallowed by a neighbouring sequence,
  \<open>ToLower\<close> is idempotent, creates no ASCII character below \<open>a\<close>, and commutes with the trimming
  of white space.
\<close>

section \<open>Segments\<close>

lemma decode_rune_size: "bs \<noteq> [] \<Longrightarrow> 1 \<le> snd (decode_rune bs) \<and> snd (decode_rune bs) \<le> length bs"
  by (cases bs) (auto split: list.splits)

lemma decode_rune_take4: "decode_rune (take 4 bs) = decode_rune bs"
proof (cases bs)
  case (Cons b0 bs')
  have "take 4 bs = b0 # take 3 bs'" using Cons by (simp add: take_Cons')
  moreover have "decode_rune (b0 # take 3 bs') = decode_rune (b0 # bs')"
    by (auto simp: take_Cons' split: list.splits)
  ultimately show ?thesis using Cons by simp
qed simp

lemma decode_rune_ascii: "b < 128 \<Longrightarrow> decode_rune (b # bs) = (b, 1)"
  by simp

text \<open>An ASCII byte ends whatever sequence stands before it.\<close>

lemma decode_rune_before_ascii:
  "a < 128 \<Longrightarrow> bs \<noteq> [] \<Longrightarrow> decode_rune (bs @ a # cs) = decode_rune bs"
  by (cases bs) (auto simp: cont_byte_def split: list.splits)

lemma byte_vals_take: "byte_vals (take n s) = take n (byte_vals s)"
  by (simp add: byte_vals_def take_map)

declare decode_rune.simps(2) [simp del] segments.simps(2) [simp del]

lemma segments_Cons:
  "decode_rune (byte_vals (c # cs)) = (r, k) \<Longrightarrow>
     segments (c # cs) = (r, c # take (k - 1) cs) # segments (drop (k - 1) cs)"
  by (subst segments.simps) (simp only: byte_vals_take decode_rune_take4 Let_def prod.case)

lemma segments_ascii_Cons [simp]:
  "of_char c < (128 :: nat) \<Longrightarrow> segments (c # cs) = (int (of_char c), [c]) # segments cs"
  by (subst segments_Cons [where k = 1]) (simp_all add: decode_rune_ascii)

text \<open>Induction along the segments of a string, with the decoding step named.\<close>

lemma segments_induct [case_names Nil Cons]:
  assumes "P []"
    and "\<And>c cs r k. decode_rune (byte_vals (c # cs)) = (r, k) \<Longrightarrow> 1 \<le> k \<Longrightarrow> k - 1 \<le> length cs \<Longrightarrow>
           P (drop (k - 1) cs) \<Longrightarrow> P (c # cs)"
  shows "P s"
proof (induction s rule: length_induct)
  case (1 s)
  show ?case
  proof (cases s)
    case (Cons c cs)
    obtain r k where rk: "decode_rune (byte_vals (c # cs)) = (r, k)" by fastforce
    then have k: "1 \<le> k" "k - 1 \<le> length cs"
      using decode_rune_size [of "byte_vals (c # cs)"] by auto
    then have "P (drop (k - 1) cs)" using 1 Cons by simp
    then show ?thesis using assms(2) [OF rk k] Cons by simp
  qed (simp add: assms(1))
qed

lemma segments_concat: "concat (map snd (segments s)) = s"
  by (induction s rule: segments_induct) (simp_all add: segments_Cons)

lemma segments_append_ascii:
  assumes "of_char c < (128 :: nat)"
  shows "segments (xs @ c # ys) = segments xs @ segments (c # ys)"
proof (induction xs rule: segments_induct)
  case (Cons x xs r k)
  have "decode_rune (byte_vals (x # xs @ c # ys)) = (r, k)"
    using decode_rune_before_ascii [of "int (of_char c)" "byte_vals (x # xs)" "byte_vals ys"] assms Cons(1)
    by simp
  then show ?case
    using Cons by (simp add: segments_Cons)
qed simp

lemma runes_append_ascii:
  "of_char c < (128 :: nat) \<Longrightarrow> runes (xs @ c # ys) = runes xs @ int (of_char c) # runes ys"
  by (simp add: runes_def segments_append_ascii)

lemma valid_rune_low: "0 \<le> r \<Longrightarrow> r < 55296 \<Longrightarrow> valid_rune r"
  by (simp add: valid_rune_def)

lemma valid_rune_high: "57343 < r \<Longrightarrow> r \<le> 1114111 \<Longrightarrow> valid_rune r"
  by (simp add: valid_rune_def)

lemma three_byte_valid:
  assumes "224 \<le> b0" "b0 \<le> 239" "(if b0 = 224 then 160 else 128) \<le> b1"
    "b1 \<le> (if b0 = 237 then 159 else 191)" "cont_byte b2"
  shows "valid_rune ((b0 - 224) * 4096 + (b1 - 128) * 64 + (b2 - 128))"
proof -
  have b: "128 \<le> b1" "b1 \<le> 191" "128 \<le> b2" "b2 \<le> 191" and c: "b0 = 237 \<Longrightarrow> b1 \<le> 159"
    using assms(3-5) by (auto simp: cont_byte_def split: if_splits)
  show ?thesis
  proof (cases "b0 \<le> 237")
    case True
    have "(b0 - 224) * 4096 + (b1 - 128) * 64 \<le> 55232"
      using True b c by (cases "b0 = 237") simp_all
    then show ?thesis using assms(1) b by (intro valid_rune_low) (simp_all add: algebra_simps)
  next
    case False
    then show ?thesis using assms(2) b by (intro valid_rune_high) (simp_all add: algebra_simps)
  qed
qed

lemma four_byte_valid:
  assumes "240 \<le> b0" "b0 \<le> 244" "(if b0 = 240 then 144 else 128) \<le> b1"
    "b1 \<le> (if b0 = 244 then 143 else 191)" "cont_byte b2" "cont_byte b3"
  shows "valid_rune ((b0 - 240) * 262144 + (b1 - 128) * 4096 + (b2 - 128) * 64 + (b3 - 128))"
proof -
  have b: "128 \<le> b1" "b1 \<le> 191" "128 \<le> b2" "b2 \<le> 191" "128 \<le> b3" "b3 \<le> 191"
    and c: "b0 = 240 \<Longrightarrow> 144 \<le> b1" "b0 = 244 \<Longrightarrow> b1 \<le> 143"
    using assms(3-6) by (auto simp: cont_byte_def split: if_splits)
  have "65536 \<le> (b0 - 240) * 262144 + (b1 - 128) * 4096"
    using b c assms(1) by (cases "b0 = 240") simp_all
  moreover have "(b0 - 240) * 262144 + (b1 - 128) * 4096 < 1110017"
    using b c assms(2) by (cases "b0 = 244") simp_all
  ultimately show ?thesis using b by (intro valid_rune_high) (simp_all add: algebra_simps)
qed

lemma valid_fst_if:
  "(P \<Longrightarrow> valid_rune (fst a)) \<Longrightarrow> (\<not> P \<Longrightarrow> valid_rune (fst b)) \<Longrightarrow> valid_rune (fst (if P then a else b))"
  by simp

lemma valid_fst_case:
  "valid_rune (fst a) \<Longrightarrow> (\<And>y ys. valid_rune (fst (f y ys))) \<Longrightarrow>
     valid_rune (fst (case xs of [] \<Rightarrow> a | y # ys \<Rightarrow> f y ys))"
  by (cases xs) simp_all

lemma decode_rune_valid:
  assumes "\<forall>b\<in>set bs. 0 \<le> b"
  shows "valid_rune (fst (decode_rune bs))"
proof (cases bs)
  case (Cons b0 bs')
  have err: "valid_rune (fst (rune_error, 1 :: nat))" by (simp add: valid_rune_def rune_error_def)
  show ?thesis
    unfolding Cons decode_rune.simps
    apply (intro valid_fst_if valid_fst_case err)
    subgoal using assms Cons by (simp add: valid_rune_def)
    subgoal unfolding fst_conv cont_byte_def by (rule valid_rune_low) (simp_all add: algebra_simps)
    subgoal by (simp only: fst_conv) (rule three_byte_valid; blast)
    subgoal by (simp only: fst_conv) (rule four_byte_valid; blast)
    done
qed (simp add: valid_rune_def rune_error_def)

lemma segments_valid: "(r, b) \<in> set (segments s) \<Longrightarrow> valid_rune r"
proof (induction s rule: segments_induct)
  case (Cons c cs r' k)
  then show ?case
    using decode_rune_valid [of "byte_vals (c # cs)"] byte_vals_range [of _ "c # cs"]
    by (auto simp: segments_Cons)
qed simp

lemma runes_valid: "r \<in> set (runes s) \<Longrightarrow> valid_rune r"
  by (auto simp: runes_def dest: segments_valid)

section \<open>Encoding\<close>

lemma encode_rune_bytes_range: "b \<in> set (encode_rune_bytes r) \<Longrightarrow> 0 \<le> b \<and> b < 256"
  by (auto simp: encode_rune_bytes_def valid_rune_def split: if_splits)

lemma byte_vals_encode: "byte_vals (encode_rune r) = encode_rune_bytes r"
proof -
  have "map (\<lambda>b. int (of_char (char_of (nat b) :: char))) bs = bs" if "\<forall>b\<in>set bs. 0 \<le> b \<and> b < 256" for bs
    using that by (induction bs) auto
  then show ?thesis
    using encode_rune_bytes_range by (simp add: byte_vals_def encode_rune_def comp_def)
qed

lemma encode_rune_bytes_Nil [simp]: "encode_rune_bytes r \<noteq> []"
  by (simp add: encode_rune_bytes_def)

lemma decode_encode_two:
  assumes "2 \<le> q" "q < 32" "0 \<le> m" "m < 64"
  shows "decode_rune ((192 + q) # (128 + m) # bs) = (q * 64 + m, 2)"
proof -
  have "\<not> 192 + q < 128" "194 \<le> 192 + q \<and> 192 + q \<le> 223" "cont_byte (128 + m)"
    using assms by (auto simp: cont_byte_def)
  then show ?thesis by (simp only: decode_rune.simps list.case if_True if_False) simp
qed

lemma decode_encode_three:
  assumes "0 \<le> e" "e < 16" "0 \<le> f" "f < 64" "0 \<le> g" "g < 64"
    "e = 0 \<longrightarrow> 32 \<le> f" "e = 13 \<longrightarrow> f < 32"
  shows "decode_rune ((224 + e) # (128 + f) # (128 + g) # bs) = (e * 4096 + f * 64 + g, 3)"
proof -
  have "\<not> 224 + e < 128" "\<not> (194 \<le> 224 + e \<and> 224 + e \<le> 223)" "224 \<le> 224 + e \<and> 224 + e \<le> 239"
    "(if 224 + e = 224 then 160 else 128) \<le> 128 + f \<and> 128 + f \<le> (if 224 + e = 237 then 159 else 191)
       \<and> cont_byte (128 + g)"
    using assms by (auto simp: cont_byte_def)
  then show ?thesis by (simp only: decode_rune.simps list.case if_True if_False) simp
qed

lemma decode_encode_four:
  assumes "0 \<le> d" "d < 5" "0 \<le> e" "e < 64" "0 \<le> f" "f < 64" "0 \<le> g" "g < 64"
    "d = 0 \<longrightarrow> 16 \<le> e" "d = 4 \<longrightarrow> e < 16"
  shows "decode_rune ((240 + d) # (128 + e) # (128 + f) # (128 + g) # bs)
       = (d * 262144 + e * 4096 + f * 64 + g, 4)"
proof -
  have "\<not> 240 + d < 128" "\<not> (194 \<le> 240 + d \<and> 240 + d \<le> 223)" "\<not> (224 \<le> 240 + d \<and> 240 + d \<le> 239)"
    "240 \<le> 240 + d \<and> 240 + d \<le> 244"
    "(if 240 + d = 240 then 144 else 128) \<le> 128 + e \<and> 128 + e \<le> (if 240 + d = 244 then 143 else 191)
       \<and> cont_byte (128 + f) \<and> cont_byte (128 + g)"
    using assms by (auto simp: cont_byte_def)
  then show ?thesis by (simp only: decode_rune.simps list.case if_True if_False) simp
qed

lemma div_mod_64: "(r::int) = r div 64 * 64 + r mod 64" "0 \<le> r mod 64" "r mod 64 < 64"
  by simp_all

lemma combine_64:
  "(r::int) = a * 64 + g \<Longrightarrow> a = b * 64 + f \<Longrightarrow> b = d * 64 + e \<Longrightarrow>
     d * 262144 + e * 4096 + f * 64 + g = r"
  by simp

lemma div_64_div_64: "(r::int) div 4096 = r div 64 div 64" "(r::int) div 262144 = r div 64 div 64 div 64"
  by (simp_all flip: zdiv_zmult2_eq)

lemma decode_encode:
  assumes v: "valid_rune r"
  shows "decode_rune (encode_rune_bytes r @ bs) = (r, length (encode_rune_bytes r))"
proof -
  have r: "0 \<le> r" "r \<le> 1114111" and ns: "r < 55296 \<or> 57343 < r"
    using v by (auto simp: valid_rune_def)
  consider "r < 128" | "128 \<le> r" "r < 2048" | "2048 \<le> r" "r < 65536" | "65536 \<le> r"
    by linarith
  then show ?thesis
  proof cases
    case 1
    then show ?thesis using r by (simp add: decode_rune_ascii encode_rune_bytes_def)
  next
    case 2
    then show ?thesis
      using decode_encode_two [of "r div 64" "r mod 64" bs] by (simp add: encode_rune_bytes_def)
  next
    case 3
    let ?e = "r div 4096" and ?f = "r div 64 mod 64" and ?g = "r mod 64"
    note d = div_mod_64 [of r] div_mod_64 [of "r div 64"] div_64_div_64 [of r]
    have eq: "?e * 4096 + ?f * 64 + ?g = r" using d by linarith
    have b: "0 \<le> ?f" "?f < 64" "0 \<le> ?g" "?g < 64" "0 \<le> ?e" "?e < 16" using 3 by simp_all
    have "32 \<le> ?f" if "?e = 0" using that eq 3(1) b by linarith
    moreover have "?f < 32" if "?e = 13"
      using ns
    proof
      assume "r < 55296"
      then show "?f < 32" using that eq b by linarith
    next
      assume "57343 < r"
      then show "?f < 32" using that eq b by linarith
    qed
    ultimately have ef: "0 \<le> ?e" "?e < 16" "?e = 0 \<longrightarrow> 32 \<le> ?f" "?e = 13 \<longrightarrow> ?f < 32"
      using b by blast+
    from ef have "decode_rune ((224 + ?e) # (128 + ?f) # (128 + ?g) # bs) = (r, 3)"
      using decode_encode_three [of ?e ?f ?g bs] 3 eq by simp
    then show ?thesis using 3 v by (simp add: encode_rune_bytes_def)
  next
    case 4
    let ?d = "r div 262144" and ?e = "r div 4096 mod 64" and ?f = "r div 64 mod 64" and ?g = "r mod 64"
    have eq: "?d * 262144 + ?e * 4096 + ?f * 64 + ?g = r"
      unfolding div_64_div_64 by (rule combine_64 [OF div_mod_64(1) div_mod_64(1) div_mod_64(1)])
    have b: "0 \<le> ?e" "?e < 64" "0 \<le> ?f" "?f < 64" "0 \<le> ?g" "?g < 64" "0 \<le> ?d" "?d < 5"
      using 4 r by simp_all
    have "16 \<le> ?e" if "?d = 0" using that eq 4 b by linarith
    moreover have "?e < 16" if "?d = 4" using that eq r(2) b by linarith
    ultimately have ef: "0 \<le> ?d" "?d < 5" "?d = 0 \<longrightarrow> 16 \<le> ?e" "?d = 4 \<longrightarrow> ?e < 16"
      using b by blast+
    have dec: "decode_rune ((240 + ?d) # (128 + ?e) # (128 + ?f) # (128 + ?g) # bs) = (r, 4)"
      by (rule decode_encode_four [of ?d ?e ?f ?g bs, unfolded eq]) (use ef b in blast)+
    have "encode_rune_bytes r = [240 + ?d, 128 + ?e, 128 + ?f, 128 + ?g]"
      using 4 v by (simp add: encode_rune_bytes_def)
    then show ?thesis using dec by simp
  qed
qed

lemma segments_encode:
  assumes "valid_rune r"
  shows "segments (encode_rune r @ s) = (r, encode_rune r) # segments s"
proof (cases "encode_rune r")
  case Nil
  then show ?thesis by (simp add: encode_rune_def)
next
  case (Cons c cs)
  have len: "length (encode_rune_bytes r) = Suc (length cs)"
    using Cons by (metis byte_vals_encode byte_vals_simps(4) length_Cons)
  have "decode_rune (byte_vals (c # cs @ s)) = (r, Suc (length cs))"
    using decode_encode [OF assms, of "byte_vals s"] len Cons
    by (metis append_Cons byte_vals_encode byte_vals_simps(3))
  then show ?thesis using Cons by (simp add: segments_Cons)
qed

lemma segments_encode_all:
  "\<forall>r\<in>set rs. valid_rune r \<Longrightarrow>
     segments (concat (map encode_rune rs)) = map (\<lambda>r. (r, encode_rune r)) rs"
  by (induction rs) (simp_all add: segments_encode)

end
