(* ===== verification/Text_Case.thy ===== *)
theory Text_Case
  imports Text_Laws
begin

text \<open>
  \<open>ToLower\<close> and \<open>TrimSpace\<close> on arbitrary Go strings: both are idempotent, lower-casing a trimmed
  string leaves it trimmed, neither introduces an ASCII character below \<open>a\<close> (so no comma, no
  equals sign, no upper-case letter), and lower-casing distributes over an ASCII separator.
\<close>

section \<open>ToLower\<close>

lemma segments_ascii: "is_ascii s \<Longrightarrow> segments s = map (\<lambda>c. (int (of_char c), [c])) s"
  by (induction s) (auto simp: is_ascii_def)

lemma encode_rune_ascii: "0 \<le> r \<Longrightarrow> r < 128 \<Longrightarrow> encode_rune r = [char_of (nat r)]"
  by (simp add: encode_rune_def encode_rune_bytes_def)

lemma encode_lower_ascii:
  assumes "of_char c < (128 :: nat)"
  shows "encode_rune (unicode_to_lower (int (of_char c))) = [ascii_lower_char c]"
proof -
  have "unicode_to_lower (int (of_char c)) = ascii_lower_rune (int (of_char c))"
    using assms by (simp add: unicode_to_lower_ascii)
  then show ?thesis
    using assms
    by (auto simp: encode_rune_ascii ascii_lower_rune_def ascii_lower_char_def Let_def nat_add_distrib)
qed

lemma to_lower_runes: "to_lower s = concat (map (\<lambda>r. encode_rune (unicode_to_lower r)) (runes s))"
proof (cases "is_ascii s")
  case True
  have "concat (map (\<lambda>r. encode_rune (unicode_to_lower r)) (runes s)) = map ascii_lower_char s"
    using True unfolding runes_def segments_ascii [OF True]
    by (induction s) (auto simp: encode_lower_ascii is_ascii_def)
  then show ?thesis using True by (simp add: to_lower_def)
qed (simp add: to_lower_def)

lemma segments_to_lower:
  "segments (to_lower s) = map (\<lambda>r. (unicode_to_lower r, encode_rune (unicode_to_lower r))) (runes s)"
  using segments_encode_all [of "map unicode_to_lower (runes s)"]
  by (simp add: to_lower_runes comp_def runes_valid valid_rune_to_lower)

lemma runes_to_lower: "runes (to_lower s) = map unicode_to_lower (runes s)"
  by (simp add: runes_def [of "to_lower s"] segments_to_lower comp_def)

lemma to_lower_idem [simp]: "to_lower (to_lower s) = to_lower s"
proof -
  have "to_lower (to_lower s) = concat (map (\<lambda>r. encode_rune (unicode_to_lower r)) (runes (to_lower s)))"
    by (rule to_lower_runes)
  also have "\<dots> = concat (map (\<lambda>r. encode_rune (unicode_to_lower r)) (runes s))"
    by (simp add: runes_to_lower comp_def)
  also have "\<dots> = to_lower s" by (rule to_lower_runes [symmetric])
  finally show ?thesis .
qed

lemma to_lower_Nil [simp]: "to_lower [] = []"
  by (simp add: to_lower_def is_ascii_def)

lemma to_lower_append_ascii:
  "of_char c < (128 :: nat) \<Longrightarrow> to_lower (a @ c # b) = to_lower a @ ascii_lower_char c # to_lower b"
  by (simp add: to_lower_runes runes_append_ascii encode_lower_ascii)

lemma to_lower_Cons_ascii:
  "of_char c < (128 :: nat) \<Longrightarrow> to_lower (c # b) = ascii_lower_char c # to_lower b"
  using to_lower_append_ascii [of c "[]" b] by simp

lemma to_lower_ascii_append:
  "is_ascii a \<Longrightarrow> to_lower (a @ b) = to_lower a @ to_lower b"
  by (induction a) (auto simp: is_ascii_def to_lower_Cons_ascii)

lemma decode_rune_small: "fst (decode_rune bs) < 128 \<Longrightarrow> bs \<noteq> [] \<Longrightarrow> decode_rune bs = (hd bs, 1)"
proof (cases bs)
  case (Cons b0 bs')
  assume "fst (decode_rune bs) < 128" "bs \<noteq> []"
  then have "b0 < 128"
    unfolding Cons decode_rune.simps
    by (auto simp: cont_byte_def rune_error_def split: if_split_asm list.split_asm)
  then show ?thesis using Cons by (simp add: decode_rune_ascii)
qed simp

lemma ascii_rune_segment: "(r, b) \<in> set (segments s) \<Longrightarrow> r < 128 \<Longrightarrow> b = [char_of (nat r)] \<and> char_of (nat r) \<in> set s"
proof (induction s rule: segments_induct)
  case (Cons c cs r' k)
  have "set (drop (k - 1) cs) \<subseteq> set cs" by (rule set_drop_subset)
  moreover have "r' = int (of_char c) \<and> k = 1" if "r' < 128"
    using decode_rune_small [of "byte_vals (c # cs)"] Cons(1) that by simp
  ultimately show ?case
    using Cons(4,5,6) by (auto simp: segments_Cons [OF Cons(1)])
qed simp

lemma encode_rune_high: "128 \<le> r \<Longrightarrow> b \<in> set (encode_rune_bytes r) \<Longrightarrow> 128 \<le> b"
  by (auto simp: encode_rune_bytes_def valid_rune_def split: if_splits)

lemma encode_rune_char:
  assumes "c \<in> set (encode_rune r)" "of_char c < (128 :: nat)" "0 \<le> r"
  shows "r = int (of_char c)"
proof -
  have "int (of_char c) \<in> set (byte_vals (encode_rune r))"
    using assms(1) by (auto simp: byte_vals_def)
  then have "int (of_char c) \<in> set (encode_rune_bytes r)" by (simp add: byte_vals_encode)
  then show ?thesis
    using encode_rune_high [of r "int (of_char c)"] assms(2,3)
    by (auto simp: encode_rune_bytes_def split: if_splits)
qed

text \<open>An ASCII character below \<open>a\<close> of a lower-cased string was there before.\<close>

lemma to_lower_small_char:
  assumes "c \<in> set (to_lower s)" "of_char c < (97 :: nat)"
  shows "c \<in> set s" "\<not> (65 \<le> (of_char c :: nat) \<and> of_char c \<le> (90 :: nat))"
proof -
  obtain r where r: "r \<in> set (runes s)" "c \<in> set (encode_rune (unicode_to_lower r))"
    using assms(1) by (auto simp: to_lower_runes)
  have "0 \<le> unicode_to_lower r"
    using runes_valid [OF r(1)] valid_rune_to_lower by (auto simp: valid_rune_def)
  then have l: "unicode_to_lower r = int (of_char c)"
    using encode_rune_char r(2) assms(2) by simp
  then have "r = int (of_char c)"
    using unicode_to_lower_small [of r] assms(2) by simp
  then show "c \<in> set s"
    using r(1) ascii_rune_segment [of r _ s] assms(2) by (auto simp: runes_def)
  show "\<not> (65 \<le> (of_char c :: nat) \<and> of_char c \<le> (90 :: nat))"
    using unicode_to_lower_not_upper [of r] l by simp
qed

section \<open>TrimSpace\<close>

lemma decode_rune_prefix:
  assumes "bs \<noteq> []" "snd (decode_rune (bs @ cs)) \<le> length bs"
  shows "decode_rune (bs @ cs) = decode_rune bs"
proof (cases bs)
  case (Cons b0 bs')
  consider "b0 < 128" | "194 \<le> b0 \<and> b0 \<le> 223" | "224 \<le> b0 \<and> b0 \<le> 239" | "240 \<le> b0 \<and> b0 \<le> 244"
    | "128 \<le> b0" "\<not> (194 \<le> b0 \<and> b0 \<le> 223)" "\<not> (224 \<le> b0 \<and> b0 \<le> 239)" "\<not> (240 \<le> b0 \<and> b0 \<le> 244)"
    by linarith
  then show ?thesis
  proof cases
    case 1
    then show ?thesis using Cons by (simp add: decode_rune_ascii)
  next
    case 2
    then show ?thesis
      using assms(2) Cons by (cases bs') (auto simp: decode_rune.simps split: list.splits if_splits)
  next
    case 3
    then have "\<not> b0 < 128" "\<not> (194 \<le> b0 \<and> b0 \<le> 223)" by auto
    then show ?thesis
      using assms(2) 3 unfolding Cons append_Cons decode_rune.simps
      by (cases bs' rule: remdups_adj.cases) (auto split: list.split_asm list.split if_split_asm)
  next
    case 4
    then have "\<not> b0 < 128" "\<not> (194 \<le> b0 \<and> b0 \<le> 223)" "\<not> (224 \<le> b0 \<and> b0 \<le> 239)" by auto
    then show ?thesis
      using assms(2) 4 unfolding Cons append_Cons decode_rune.simps
      by (cases bs' rule: remdups_adj.cases; cases "tl (tl bs')")
        (auto split: list.split_asm list.split if_split_asm)
  next
    case 5
    then have "\<not> b0 < 128" by simp
    then show ?thesis by (simp only: Cons append_Cons decode_rune.simps 5 if_False)
  qed
qed (use assms in simp)

text \<open>Cutting a string between segments cuts its segments.\<close>

lemma segments_take:
  "segments (concat (map snd (take n (segments s)))) = take n (segments s)"
proof (induction s arbitrary: n rule: segments_induct)
  case (Cons c cs r k)
  show ?case
  proof (cases n)
    case (Suc m)
    let ?p = "concat (map snd (take m (segments (drop (k - 1) cs))))"
    have "concat (map snd (segments (drop (k - 1) cs))) = drop (k - 1) cs"
      by (rule segments_concat)
    then have "\<exists>q. drop (k - 1) cs = ?p @ q"
      by (metis append_take_drop_id concat_append map_append)
    then obtain q where "drop (k - 1) cs = ?p @ q" ..
    then have cs: "cs = take (k - 1) cs @ ?p @ q" by (metis append_take_drop_id)
    let ?bs = "byte_vals (c # take (k - 1) cs @ ?p)"
    have "byte_vals (c # cs) = ?bs @ byte_vals q"
      using arg_cong [OF cs, of byte_vals] by simp
    then have "decode_rune ?bs = (r, k)"
      using decode_rune_prefix [of ?bs "byte_vals q"] Cons(1-3) by simp
    then have "segments (c # take (k - 1) cs @ ?p) = (r, c # take (k - 1) cs) # segments ?p"
      using Cons(3) by (simp add: segments_Cons)
    then show ?thesis
      using Cons Suc by (simp add: segments_Cons [OF Cons(1)])
  qed simp
qed simp

lemma segments_dropWhile:
  "segments (concat (map snd (dropWhile P (segments s)))) = dropWhile P (segments s)"
proof (induction s rule: segments_induct)
  case (Cons c cs r k)
  show ?case
  proof (cases "P (r, c # take (k - 1) cs)")
    case True
    then show ?thesis using Cons by (simp add: segments_Cons [OF Cons(1)])
  next
    case False
    then show ?thesis
      using segments_concat [of "c # cs"] by (simp add: segments_Cons [OF Cons(1)])
  qed
qed simp

lemma strip_take: "\<exists>n. strip P xs = take n (dropWhile P xs)"
proof -
  have "\<exists>n. rev (dropWhile P (rev ys)) = take n ys" for ys
  proof -
    have "ys = rev (dropWhile P (rev ys)) @ rev (takeWhile P (rev ys))"
      by (metis rev_append rev_rev_ident takeWhile_dropWhile_id)
    then show ?thesis by (metis append_eq_conv_conj)
  qed
  then show ?thesis by (simp add: strip_def)
qed

abbreviation (input) space_segment :: "rune \<times> string \<Rightarrow> bool" where
  "space_segment \<equiv> (\<lambda>(r, _). unicode_is_space r)"

lemma segments_trim_space: "segments (trim_space s) = strip space_segment (segments s)"
proof -
  let ?w = "concat (map snd (dropWhile space_segment (segments s)))"
  obtain n where n: "strip space_segment (segments s) = take n (dropWhile space_segment (segments s))"
    using strip_take by blast
  have "trim_space s = concat (map snd (take n (segments ?w)))"
    by (simp add: trim_space_def n segments_dropWhile)
  then show ?thesis
    using segments_take [of n ?w] n by (simp add: segments_dropWhile)
qed

lemma strip_eq_self_iff:
  "strip P xs = xs \<longleftrightarrow> xs = [] \<or> \<not> P (hd xs) \<and> \<not> P (last xs)"
proof
  assume h: "strip P xs = xs"
  show "xs = [] \<or> \<not> P (hd xs) \<and> \<not> P (last xs)"
  proof (cases "xs = []")
    case False
    have "length (dropWhile P xs) \<le> length xs" "length (strip P xs) \<le> length (dropWhile P xs)"
      by (simp_all add: strip_def length_dropWhile_le) (metis length_dropWhile_le length_rev)
    then have d: "dropWhile P xs = xs"
      using h by (metis dropWhile_id le_antisym length_append add_cancel_left_left length_0_conv
          append_Nil takeWhile_dropWhile_id)
    then have "dropWhile P (rev xs) = rev xs"
      using h by (metis rev_rev_ident strip_def)
    then show ?thesis
      using d False by (metis dropWhile_eq_Nil_conv hd_dropWhile hd_rev rev_is_Nil_conv)
  qed simp
next
  assume "xs = [] \<or> \<not> P (hd xs) \<and> \<not> P (last xs)"
  then show "strip P xs = xs"
  proof (cases "xs = []")
    case False
    with \<open>xs = [] \<or> _\<close> have "dropWhile P xs = xs" "dropWhile P (rev xs) = rev xs"
      by (simp_all add: dropWhile_eq_self_iff hd_rev)
    then show ?thesis by (simp add: strip_def)
  qed (simp add: strip_def)
qed

lemma strip_idem: "strip P (strip P xs) = strip P xs"
proof -
  let ?d = "dropWhile P xs" and ?s = "strip P xs"
  have "\<not> P (last ?s)" if "?s \<noteq> []"
    using that by (metis hd_dropWhile last_rev rev_is_Nil_conv strip_def)
  moreover have "\<not> P (hd ?s)" if "?s \<noteq> []"
  proof -
    obtain n where n: "?s = take n ?d" using strip_take by blast
    then have "hd ?s = hd ?d" using that by (cases n; cases ?d) auto
    then show ?thesis using that n hd_dropWhile by (metis take_Nil)
  qed
  ultimately show ?thesis unfolding strip_eq_self_iff by blast
qed

lemma trim_space_idem [simp]: "trim_space (trim_space s) = trim_space s"
  using segments_trim_space strip_idem by (metis trim_space_def)

lemma trim_space_eq_self_iff:
  "trim_space s = s \<longleftrightarrow> s = [] \<or> \<not> unicode_is_space (hd (runes s)) \<and> \<not> unicode_is_space (last (runes s))"
proof -
  have ne: "segments s = [] \<longleftrightarrow> s = []"
    by (metis concat.simps(1) list.simps(8) segments.simps(1) segments_concat)
  have "trim_space s = s \<longleftrightarrow> strip space_segment (segments s) = segments s"
    by (metis segments_concat segments_trim_space trim_space_def)
  also have "\<dots> \<longleftrightarrow> segments s = [] \<or> \<not> space_segment (hd (segments s)) \<and> \<not> space_segment (last (segments s))"
    by (rule strip_eq_self_iff)
  also have "\<dots> \<longleftrightarrow> s = [] \<or> \<not> unicode_is_space (hd (runes s)) \<and> \<not> unicode_is_space (last (runes s))"
    using ne by (auto simp: runes_def hd_map last_map split: prod.splits)
  finally show ?thesis .
qed

lemma trim_space_Nil [simp]: "trim_space [] = []"
  by (simp add: trim_space_def strip_def)

lemma runes_Nil_iff [simp]: "runes s = [] \<longleftrightarrow> s = []"
  by (metis concat.simps(1) list.simps(8) map_is_Nil_conv runes_def segments.simps(1) segments_concat)

text \<open>Lower-casing a trimmed string leaves it trimmed.\<close>

lemma trim_space_to_lower_trim [simp]:
  assumes "trim_space s = s"
  shows "trim_space (to_lower s) = to_lower s"
proof (cases "s = []")
  case False
  then have "runes s \<noteq> []" by simp
  then show ?thesis
    using assms unfolding trim_space_eq_self_iff runes_to_lower
    by (auto simp: hd_map last_map)
qed simp

lemma set_trim_space: "set (trim_space s) \<subseteq> set s"
proof -
  obtain n where "strip space_segment (segments s) = take n (dropWhile space_segment (segments s))"
    using strip_take by blast
  then have "set (strip space_segment (segments s)) \<subseteq> set (segments s)"
    by (auto dest: in_set_takeD set_dropWhileD)
  then have "set (concat (map snd (strip space_segment (segments s)))) \<subseteq> set (concat (map snd (segments s)))"
    by auto
  then show ?thesis by (simp add: trim_space_def segments_concat del: set_concat)
qed

section \<open>EqualFold\<close>

lemma equal_fold_refl [simp]: "equal_fold s s"
  by (simp add: equal_fold_def)

lemma equal_fold_sym: "equal_fold s t \<Longrightarrow> equal_fold t s"
  by (simp add: equal_fold_def)

lemma equal_fold_trans: "equal_fold s t \<Longrightarrow> equal_fold t u \<Longrightarrow> equal_fold s u"
  by (simp add: equal_fold_def)

end
