(* ===== verification/Password.thy ===== *)
theory Password
  imports Go_Strings
begin

text \<open>
  Password hashes (\<open>internal/auth/password.go\<close>) and the functions of \<open>strconv\<close>, \<open>encoding/base64\<close> and
  \<open>crypto/subtle\<close> they use. \<open>argon2.IDKey\<close> is not part of the repository: it is the argument \<open>idkey\<close>
  (password, salt, time, memory, threads, key length), \<open>None\<close> standing for its panic. The outcome of
  \<open>rand.Read\<close> is an argument, \<open>None\<close> for an error.
\<close>

datatype auth_error =
    RandError | InvalidPHC | UnsupportedVersion | InvalidParameter | NumberSyntax
  | UnknownParameter | Base64Error | Argon2Panic

type_synonym idkey = "bytes \<Rightarrow> bytes \<Rightarrow> 32 word \<Rightarrow> 32 word \<Rightarrow> 8 word \<Rightarrow> 32 word \<Rightarrow> bytes option"

section \<open>Decimal numbers\<close>

definition digit_char :: "nat \<Rightarrow> char" where
  "digit_char n = char_of (48 + n)"

text \<open>The verb \<open>%d\<close> on a number that is not negative.\<close>

fun decimal :: "nat \<Rightarrow> string" where
  "decimal n = (if n < 10 then [digit_char n] else decimal (n div 10) @ [digit_char (n mod 10)])"

declare decimal.simps [simp del]

definition is_digit :: "char \<Rightarrow> bool" where
  "is_digit c \<longleftrightarrow> 48 \<le> (of_char c :: nat) \<and> of_char c \<le> (57 :: nat)"

definition digits_value :: "string \<Rightarrow> int" where
  "digits_value s = foldl (\<lambda>v c. v * 10 + int (of_char c - 48)) 0 s"

text \<open>\<open>strconv.Atoi\<close>: an optional sign, at least one digit, within 64 bits.\<close>

definition atoi :: "string \<Rightarrow> int option" where
  "atoi s =
     (let (neg, ds) = (case s of
            c # cs \<Rightarrow> if c = CHR ''-'' then (True, cs) else if c = CHR ''+'' then (False, cs) else (False, s)
          | [] \<Rightarrow> (False, []));
          v = (if neg then - digits_value ds else digits_value ds)
      in if ds = [] \<or> \<not> list_all is_digit ds then None
         else if v < - (2 ^ 63) \<or> v \<ge> 2 ^ 63 then None
         else Some v)"

section \<open>Base 64 without padding\<close>

definition b64_alphabet :: string where
  "b64_alphabet = ''ABCDEFGHIJKLMNOPQRSTUVWXYZabcdefghijklmnopqrstuvwxyz0123456789+/''"

definition b64_char :: "nat \<Rightarrow> char" where
  "b64_char n = b64_alphabet ! n"

definition b64_value :: "char \<Rightarrow> nat option" where
  "b64_value c = map_of (zip b64_alphabet [0..<64]) c"

text \<open>\<open>base64.RawStdEncoding.EncodeToString\<close>.\<close>

fun b64_groups :: "nat list \<Rightarrow> nat list" where
  "b64_groups [] = []"
| "b64_groups [a] = [a div 4, a mod 4 * 16]"
| "b64_groups [a, b] = [a div 4, a mod 4 * 16 + b div 16, b mod 16 * 4]"
| "b64_groups (a # b # c # bs) =
     a div 4 # (a mod 4 * 16 + b div 16) # (b mod 16 * 4 + c div 64) # c mod 64 # b64_groups bs"

definition b64_encode :: "bytes \<Rightarrow> string" where
  "b64_encode bs = map b64_char (b64_groups (map unat bs))"

text \<open>\<open>base64.RawStdEncoding.DecodeString\<close>: line breaks are skipped, the bits left over in the last
  group are not checked, a single character cannot be the last group.\<close>

fun b64_ungroup :: "nat list \<Rightarrow> auth_error + nat list" where
  "b64_ungroup [] = Inr []"
| "b64_ungroup [p] = Inl Base64Error"
| "b64_ungroup [p, q] = Inr [p * 4 + q div 16]"
| "b64_ungroup [p, q, r] = Inr [p * 4 + q div 16, q mod 16 * 16 + r div 4]"
| "b64_ungroup (p # q # r # s # vs) =
     and_then (b64_ungroup vs) (\<lambda>bs.
       Inr ((p * 4 + q div 16) # (q mod 16 * 16 + r div 4) # (r mod 4 * 64 + s) # bs))"

definition b64_decode :: "string \<Rightarrow> auth_error + bytes" where
  "b64_decode s =
     (let vs = map b64_value (filter (\<lambda>c. c \<noteq> CHR 0x0A \<and> c \<noteq> CHR 0x0D) s)
      in if None \<in> set vs then Inl Base64Error
         else and_then (b64_ungroup (map the vs)) (\<lambda>bs. Inr (map word_of_nat bs)))"

section \<open>Hashing and verifying\<close>

definition argonVariant :: string where "argonVariant = ''argon2id''"
definition argonVersion :: nat where "argonVersion = 19"
definition argonMemory :: nat where "argonMemory = 64 * 1024"
definition argonTime :: nat where "argonTime = 1"
definition argonThreads :: nat where "argonThreads = 4"
definition argonKeyLen :: nat where "argonKeyLen = 32"
definition argonSaltLen :: nat where "argonSaltLen = 16"

text \<open>The text of a hash.\<close>

definition format_phc :: "bytes \<Rightarrow> bytes \<Rightarrow> string" where
  "format_phc salt hash =
     ''$'' @ argonVariant @ ''$v='' @ decimal argonVersion @ ''$m='' @ decimal argonMemory @ '',t='' @
     decimal argonTime @ '',p='' @ decimal argonThreads @ ''$'' @ b64_encode salt @ ''$'' @ b64_encode hash"

definition HashPassword :: "idkey \<Rightarrow> bytes option \<Rightarrow> string \<Rightarrow> auth_error + string" where
  "HashPassword idkey rnd password =
     (case rnd of
        None \<Rightarrow> Inl RandError
      | Some salt \<Rightarrow>
          (case idkey (bytes_of_string password) salt (of_nat argonTime) (of_nat argonMemory)
                  (of_nat argonThreads) (of_nat argonKeyLen) of
             None \<Rightarrow> Inl Argon2Panic
           | Some hash \<Rightarrow> Inr (format_phc salt hash)))"

record phcParams =
  memory :: "32 word"
  phc_time :: "32 word"
  threads :: "8 word"

text \<open>The loop over the parameters, in the order of the text; a repeated parameter overwrites.\<close>

fun parse_params :: "phcParams \<Rightarrow> string list \<Rightarrow> auth_error + phcParams" where
  "parse_params params [] = Inr params"
| "parse_params params (piece # pieces) =
     (let kv = split_n2 CHR ''='' piece
      in if length kv \<noteq> 2 then Inl InvalidParameter
         else case atoi (kv ! 1) of
           None \<Rightarrow> Inl NumberSyntax
         | Some val \<Rightarrow>
             if kv ! 0 = ''m'' then parse_params (params\<lparr>memory := word_of_int val\<rparr>) pieces
             else if kv ! 0 = ''t'' then parse_params (params\<lparr>phc_time := word_of_int val\<rparr>) pieces
             else if kv ! 0 = ''p'' then parse_params (params\<lparr>threads := word_of_int val\<rparr>) pieces
             else Inl UnknownParameter)"

definition parsePHC :: "string \<Rightarrow> auth_error + (phcParams \<times> bytes \<times> bytes)" where
  "parsePHC phc =
     (let parts = split_on CHR ''$'' phc
      in if length parts \<noteq> 6 \<or> parts ! 1 \<noteq> argonVariant then Inl InvalidPHC
         else case atoi (trim_prefix (parts ! 2) ''v='') of
           None \<Rightarrow> Inl UnsupportedVersion
         | Some version \<Rightarrow>
             if version \<noteq> int argonVersion then Inl UnsupportedVersion
             else and_then (parse_params \<lparr>memory = 0, phc_time = 0, threads = 0\<rparr> (split_on CHR '','' (parts ! 3)))
                    (\<lambda>params. and_then (b64_decode (parts ! 4)) (\<lambda>salt.
                       and_then (b64_decode (parts ! 5)) (\<lambda>hash. Inr (params, salt, hash)))))"

text \<open>\<open>subtle.ConstantTimeCompare(a, b) == 1\<close> is equality.\<close>

definition VerifyPassword :: "idkey \<Rightarrow> string \<Rightarrow> string \<Rightarrow> auth_error + bool" where
  "VerifyPassword idkey phc password =
     and_then (parsePHC phc) (\<lambda>(params, salt, expected).
       case idkey (bytes_of_string password) salt (phc_time params) (memory params) (threads params)
              (of_nat (length expected)) of
         None \<Rightarrow> Inl Argon2Panic
       | Some actual \<Rightarrow> Inr (actual = expected))"

section \<open>Base 64 round trip\<close>

lemma b64_value_char: "n < 64 \<Longrightarrow> b64_value (b64_char n) = Some n"
proof -
  have "list_all (\<lambda>n. b64_value (b64_char n) = Some n) [0..<64]" by code_simp
  then show "n < 64 \<Longrightarrow> b64_value (b64_char n) = Some n" by (simp add: list_all_iff)
qed

lemma b64_char_ok:
  "n < 64 \<Longrightarrow> b64_char n \<notin> {CHR 0x0A, CHR 0x0D, CHR ''$'', CHR '','', CHR ''=''}"
proof -
  have "list_all (\<lambda>n. b64_char n \<notin> {CHR 0x0A, CHR 0x0D, CHR ''$'', CHR '','', CHR ''=''}) [0..<64]" by code_simp
  then show "n < 64 \<Longrightarrow> ?thesis" by (simp add: list_all_iff)
qed

lemma b64_groups_bound: "\<forall>b\<in>set bs. b < 256 \<Longrightarrow> \<forall>v\<in>set (b64_groups bs). v < 64"
  by (induction bs rule: b64_groups.induct) auto

lemma b64_ungroup_groups: "\<forall>b\<in>set bs. b < 256 \<Longrightarrow> b64_ungroup (b64_groups bs) = Inr bs"
  by (induction bs rule: b64_groups.induct) auto

lemma unat_bytes_bound: "\<forall>b\<in>set (map unat (bs :: bytes)). b < 256"
proof -
  have "unat (b :: byte) < 256" for b
  proof -
    have "unat b < 2 ^ LENGTH(8)" by (rule unsigned_less)
    then show ?thesis by simp
  qed
  then show ?thesis by simp
qed

lemma b64_decode_encode: "b64_decode (b64_encode bs) = Inr bs"
proof -
  let ?g = "b64_groups (map unat bs)"
  have bound: "\<forall>v\<in>set ?g. v < 64" by (rule b64_groups_bound [OF unat_bytes_bound])
  have "filter (\<lambda>c. c \<noteq> CHR 0x0A \<and> c \<noteq> CHR 0x0D) (map b64_char ?g) = map b64_char ?g"
    using bound b64_char_ok by (auto simp: filter_id_conv)
  moreover have "map b64_value (map b64_char ?g) = map Some ?g"
    using bound b64_value_char by simp
  moreover have "map word_of_nat (map unat bs) = bs" by (simp add: comp_def)
  moreover have "map the (map Some ?g) = ?g" "None \<notin> set (map Some ?g)" by (auto simp: comp_def)
  ultimately show ?thesis
    using b64_ungroup_groups [OF unat_bytes_bound, of bs]
    by (simp add: b64_decode_def b64_encode_def Let_def del: map_map)
qed

lemma b64_encode_no_dollar: "CHR ''$'' \<notin> set (b64_encode bs)"
proof -
  have "\<forall>v\<in>set (b64_groups (map unat bs)). b64_char v \<noteq> CHR ''$''"
    using b64_groups_bound [OF unat_bytes_bound, of bs] b64_char_ok by simp
  then show ?thesis by (fastforce simp: b64_encode_def)
qed

lemma digit_chars:
  "char_of (49 :: nat) = CHR ''1''" "char_of (51 :: nat) = CHR ''3''" "char_of (52 :: nat) = CHR ''4''"
  "char_of (53 :: nat) = CHR ''5''" "char_of (54 :: nat) = CHR ''6''" "char_of (57 :: nat) = CHR ''9''"
  by code_simp+

lemma format_phc_eq:
  "format_phc salt hash = ''$argon2id$v=19$m=65536,t=1,p=4$'' @ b64_encode salt @ ''$'' @ b64_encode hash"
proof -
  have "decimal argonVersion = ''19''" "decimal argonMemory = ''65536''" "decimal argonTime = ''1''"
    "decimal argonThreads = ''4''"
    by (simp_all add: decimal.simps digit_char_def digit_chars argonVersion_def argonMemory_def argonTime_def
        argonThreads_def)
  then show ?thesis by (simp add: format_phc_def argonVariant_def)
qed

lemma split_format_phc:
  "split_on CHR ''$'' (format_phc salt hash) =
     [[], ''argon2id'', ''v=19'', ''m=65536,t=1,p=4'', b64_encode salt, b64_encode hash]"
proof -
  let ?tail = "b64_encode salt @ CHR ''$'' # b64_encode hash"
  have tail: "split_on CHR ''$'' ?tail = [b64_encode salt, b64_encode hash]"
    using split_on_append [OF b64_encode_no_dollar, of salt "b64_encode hash"]
      split_on_absent [OF b64_encode_no_dollar, of hash] by simp
  have head: "split_on CHR ''$'' ''$argon2id$v=19$m=65536,t=1,p=4'' = [[], ''argon2id'', ''v=19'', ''m=65536,t=1,p=4'']"
    by code_simp
  have "format_phc salt hash = ''$argon2id$v=19$m=65536,t=1,p=4'' @ CHR ''$'' # ?tail"
    by (simp add: format_phc_eq)
  then have "split_on CHR ''$'' (format_phc salt hash)
      = [[], ''argon2id'', ''v=19'', ''m=65536,t=1,p=4''] @ [b64_encode salt, b64_encode hash]"
    using split_on_general_append [of "CHR ''$''" "''$argon2id$v=19$m=65536,t=1,p=4''" ?tail] head tail
    by (simp only:)
  then show ?thesis by (simp only: append.simps)
qed

lemma parse_params_default:
  "parse_params \<lparr>memory = 0, phc_time = 0, threads = 0\<rparr> (split_on CHR '','' ''m=65536,t=1,p=4'')
     = Inr \<lparr>memory = 65536, phc_time = 1, threads = 4\<rparr>"
proof -
  have sp: "split_on CHR '','' ''m=65536,t=1,p=4'' = [''m=65536'', ''t=1'', ''p=4'']"
    "split_n2 CHR ''='' ''m=65536'' = [''m'', ''65536'']" "split_n2 CHR ''='' ''t=1'' = [''t'', ''1'']"
    "split_n2 CHR ''='' ''p=4'' = [''p'', ''4'']" by code_simp+
  have "atoi ''65536'' = Some 65536" "atoi ''1'' = Some 1" "atoi ''4'' = Some 4"
    by (simp_all add: atoi_def is_digit_def digits_value_def)
  then show ?thesis by (simp add: sp del: split_on.simps)
qed

lemma parsePHC_format:
  "parsePHC (format_phc salt hash) = Inr (\<lparr>memory = 65536, phc_time = 1, threads = 4\<rparr>, salt, hash)"
proof -
  have "atoi (trim_prefix ''v=19'' ''v='') = Some 19"
    by (simp add: trim_prefix_def has_prefix_def atoi_def is_digit_def digits_value_def)
  then show ?thesis
    by (simp only: parsePHC_def split_format_phc Let_def)
      (simp add: argonVariant_def argonVersion_def parse_params_default b64_decode_encode del: split_on.simps)
qed

lemma VerifyPassword_format:
  assumes "length hash = 32"
  shows "VerifyPassword idkey (format_phc salt hash) password =
     (case idkey (bytes_of_string password) salt 1 65536 4 32 of
        None \<Rightarrow> Inl Argon2Panic | Some actual \<Rightarrow> Inr (actual = hash))"
  by (simp add: VerifyPassword_def parsePHC_format assms)

section \<open>Properties\<close>

text \<open>C30: a hash can be verified: for any \<open>IDKey\<close> that gives a 32-byte key for the program's fixed
  parameters, \<open>VerifyPassword\<close> on the text made by \<open>HashPassword\<close> accepts the password it was made from
  and any other password exactly when \<open>IDKey\<close> maps both to the same key under the stored salt.\<close>

theorem VerifyPassword_HashPassword:
  assumes "HashPassword idkey (Some salt) password = Inr phc"
    and "\<And>p s. \<exists>h. idkey p s 1 65536 4 32 = Some h \<and> length h = 32"
  shows "VerifyPassword idkey phc password = Inr True \<and>
    VerifyPassword idkey phc other =
      Inr (idkey (bytes_of_string other) salt 1 65536 4 32 = idkey (bytes_of_string password) salt 1 65536 4 32)"
proof -
  obtain h where h: "idkey (bytes_of_string password) salt 1 65536 4 32 = Some h" "length h = 32"
    using assms(2) by blast
  obtain h' where h': "idkey (bytes_of_string other) salt 1 65536 4 32 = Some h'"
    using assms(2) by blast
  have "phc = format_phc salt h"
    using assms(1) h by (simp add: HashPassword_def argonTime_def argonMemory_def argonThreads_def argonKeyLen_def)
  then show ?thesis using VerifyPassword_format [OF h(2)] h h' by simp
qed

theorem VerifyPassword_HashPassword_witness:
  "VerifyPassword (\<lambda>p s _ _ _ k. Some (take (unat k) (p @ s @ replicate 32 0)))
     (format_phc [1, 2] (bytes_of_string ''pw'' @ [1, 2] @ replicate 28 0)) ''pw'' = Inr True \<and>
   VerifyPassword (\<lambda>p s _ _ _ k. Some (take (unat k) (p @ s @ replicate 32 0)))
     (format_phc [1, 2] (bytes_of_string ''pw'' @ [1, 2] @ replicate 28 0)) ''px'' =
     Inr ((\<lambda>p s _ _ _ k. Some (take (unat k) (p @ s @ replicate 32 0)))
            (bytes_of_string ''px'') [1, 2] (1 :: 32 word) (65536 :: 32 word) (4 :: 8 word) (32 :: 32 word)
          = (\<lambda>p s _ _ _ k. Some (take (unat k) (p @ s @ replicate 32 0)))
            (bytes_of_string ''pw'') [1, 2] (1 :: 32 word) (65536 :: 32 word) (4 :: 8 word) (32 :: 32 word))"
proof (rule VerifyPassword_HashPassword)
  show "HashPassword (\<lambda>p s _ _ _ k. Some (take (unat k) (p @ s @ replicate 32 0))) (Some [1, 2]) ''pw''
      = Inr (format_phc [1, 2] (bytes_of_string ''pw'' @ [1, 2] @ replicate 28 0))"
    by (simp add: HashPassword_def argonKeyLen_def bytes_of_string_def)
qed simp

text \<open>the parser of hashes reads back exactly the parameters, salt and key that were written.\<close>

theorem parsePHC_format_phc:
  "parsePHC (format_phc salt hash) =
     Inr (\<lparr>memory = of_nat argonMemory, phc_time = of_nat argonTime, threads = of_nat argonThreads\<rparr>, salt, hash)"
  by (simp add: parsePHC_format argonMemory_def argonTime_def argonThreads_def)

text \<open>the parser does not ask for the cost parameters to be present: a hash without \<open>t\<close> is accepted
  and \<open>IDKey\<close> is called with time 0, on which that function is documented to panic.\<close>

theorem VerifyPassword_without_time:
  assumes "\<And>p s m t k. idkey p s 0 m t k = None"
  shows "VerifyPassword idkey ''$argon2id$v=19$m=65536,p=4$c2FsdA$aGFzaA'' password = Inl Argon2Panic"
proof -
  let ?phc = "''$argon2id$v=19$m=65536,p=4$c2FsdA$aGFzaA''"
  have sp: "split_on CHR ''$'' ?phc = [[], ''argon2id'', ''v=19'', ''m=65536,p=4'', ''c2FsdA'', ''aGFzaA'']"
    "split_on CHR '','' ''m=65536,p=4'' = [''m=65536'', ''p=4'']"
    "split_n2 CHR ''='' ''m=65536'' = [''m'', ''65536'']" "split_n2 CHR ''='' ''p=4'' = [''p'', ''4'']"
    "trim_prefix ''v=19'' ''v='' = ''19''" by code_simp+
  have at: "atoi ''65536'' = Some 65536" "atoi ''4'' = Some 4" "atoi ''19'' = Some 19"
    by (simp_all add: atoi_def is_digit_def digits_value_def)
  have b64: "b64_decode ''c2FsdA'' = Inr (bytes_of_string ''salt'')" "b64_decode ''aGFzaA'' = Inr (bytes_of_string ''hash'')"
    by code_simp+
  have "parsePHC ?phc = Inr (\<lparr>memory = 65536, phc_time = 0, threads = 4\<rparr>, bytes_of_string ''salt'', bytes_of_string ''hash'')"
    by (simp only: parsePHC_def sp Let_def) (simp add: sp at b64 argonVariant_def argonVersion_def del: split_on.simps)
  then show ?thesis by (simp add: VerifyPassword_def assms)
qed

theorem VerifyPassword_without_time_witness:
  "VerifyPassword (\<lambda>p s time m t k. if time = 0 then None else Some []) ''$argon2id$v=19$m=65536,p=4$c2FsdA$aGFzaA'' ''x''
     = Inl Argon2Panic"
  by (rule VerifyPassword_without_time) simp

end
