(* ===== verification/Directory.thy ===== *)
theory Directory
  imports Text_Case
begin

text \<open>
  Package \<open>directory\<close> (\<open>internal/directory/settings.go\<close>): the effective base DN and its
  validation. The mutex of \<open>Settings\<close> makes every operation atomic, so an operation is one
  function on the record.
\<close>

datatype dn_error = BaseDNRequired | UseDomainComponents | EmptyDomainComponent

record dir_settings =
  base_dn :: string

text \<open>The body of the loop of \<open>NormalizeBaseDN\<close> for one comma-separated part.\<close>

definition normalize_component :: "string \<Rightarrow> dn_error + string" where
  "normalize_component part =
     (case cut_at CHR ''='' (trim_space part) of (attr, val, ok) \<Rightarrow>
        if \<not> ok then Inl UseDomainComponents
        else if \<not> equal_fold (trim_space attr) ''dc'' then Inl UseDomainComponents
        else if trim_space val = [] then Inl EmptyDomainComponent
        else Inr (''dc='' @ trim_space val))"

fun normalize_components :: "string list \<Rightarrow> dn_error + string list" where
  "normalize_components [] = Inr []"
| "normalize_components (p # ps) =
     and_then (normalize_component p) (\<lambda>c.
     and_then (normalize_components ps) (\<lambda>cs. Inr (c # cs)))"

definition NormalizeBaseDN :: "string \<Rightarrow> dn_error + string" where
  "NormalizeBaseDN input =
     (let parts = split_on CHR '','' input
      in if length parts = 0 then Inl BaseDNRequired
         else and_then (normalize_components parts) (\<lambda>normalized. Inr (join_with '','' normalized)))"

definition NewSettings :: "string \<Rightarrow> dn_error + dir_settings" where
  "NewSettings dn = and_then (NormalizeBaseDN dn) (\<lambda>normalized. Inr \<lparr>base_dn = normalized\<rparr>)"

definition BaseDN :: "dir_settings \<Rightarrow> string" where
  "BaseDN s = base_dn s"

definition SetBaseDN :: "dir_settings \<Rightarrow> string \<Rightarrow> (dn_error + unit) \<times> dir_settings" where
  "SetBaseDN s dn =
     (case NormalizeBaseDN dn of
        Inl e \<Rightarrow> (Inl e, s)
      | Inr normalized \<Rightarrow> (Inr (), s\<lparr>base_dn := normalized\<rparr>))"

section \<open>What a normalised base DN looks like\<close>

text \<open>The value of a domain component: not empty, without comma, and trimmed.\<close>

definition dc_value :: "string \<Rightarrow> bool" where
  "dc_value v \<longleftrightarrow> v \<noteq> [] \<and> CHR '','' \<notin> set v \<and> trim_space v = v"

definition normalized_base_dn :: "string \<Rightarrow> bool" where
  "normalized_base_dn dn \<longleftrightarrow>
     (\<exists>vs. vs \<noteq> [] \<and> list_all dc_value vs \<and> dn = join_with '','' (map ((@) ''dc='') vs))"

lemma normalize_component_Inr:
  assumes "normalize_component p = Inr c" "CHR '','' \<notin> set p"
  shows "\<exists>v. c = ''dc='' @ v \<and> dc_value v"
proof -
  obtain attr val ok where cut: "cut_at CHR ''='' (trim_space p) = (attr, val, ok)"
    by (metis prod_cases3)
  with assms(1) have ok: "ok" "c = ''dc='' @ trim_space val" "trim_space val \<noteq> []"
    by (auto simp: normalize_component_def split: if_splits)
  then have "set val \<subseteq> set (trim_space p)"
    using cut cut_at_found [of "CHR ''=''" "trim_space p" attr val] by auto
  then have "CHR '','' \<notin> set val" using assms(2) set_trim_space [of p] by blast
  then have "CHR '','' \<notin> set (trim_space val)" using set_trim_space [of val] by blast
  then show ?thesis using ok by (auto simp: dc_value_def)
qed

lemma normalize_components_Inr:
  "normalize_components ps = Inr cs \<Longrightarrow> \<forall>p\<in>set ps. CHR '','' \<notin> set p \<Longrightarrow>
     \<exists>vs. length vs = length ps \<and> list_all dc_value vs \<and> cs = map ((@) ''dc='') vs"
proof (induction ps arbitrary: cs)
  case (Cons p ps)
  then obtain c cs' where c: "normalize_component p = Inr c" "normalize_components ps = Inr cs'"
    and cs: "cs = c # cs'" by (auto simp: and_then_Inr_iff)
  obtain v where v: "c = ''dc='' @ v" "dc_value v"
    using normalize_component_Inr [OF c(1)] Cons.prems by auto
  obtain vs where vs: "length vs = length ps" "list_all dc_value vs" "cs' = map ((@) ''dc='') vs"
    using Cons c by auto
  have "length (v # vs) = length (p # ps) \<and> list_all dc_value (v # vs) \<and> cs = map ((@) ''dc='') (v # vs)"
    using v vs cs by simp
  then show ?case by blast
qed simp

lemma trim_space_dc:
  assumes "dc_value v"
  shows "trim_space (''dc='' @ v) = ''dc='' @ v"
proof -
  have r: "runes (''dc='' @ v) = 100 # 99 # 61 # runes v" by (simp add: runes_def)
  have "\<not> unicode_is_space (last (runes v))"
    using assms trim_space_eq_self_iff [of v] by (auto simp: dc_value_def)
  moreover have "runes v \<noteq> []" using assms by (simp add: dc_value_def)
  ultimately show ?thesis
    unfolding trim_space_eq_self_iff r by (simp add: unicode_is_space_def white_space_runes_def)
qed

lemma trim_space_dc_attr: "trim_space ''dc'' = ''dc''"
  by (simp add: trim_space_eq_self_iff runes_def unicode_is_space_def white_space_runes_def)

lemma normalize_component_canonical:
  assumes "dc_value v"
  shows "normalize_component (''dc='' @ v) = Inr (''dc='' @ v)"
proof -
  have "cut_at CHR ''='' (''dc'' @ CHR ''='' # v) = (''dc'', v, True)"
    by (rule cut_at_append) simp
  then have "cut_at CHR ''='' (''dc='' @ v) = (''dc'', v, True)" by simp
  then show ?thesis
    using assms unfolding normalize_component_def trim_space_dc [OF assms]
    by (simp add: trim_space_dc_attr dc_value_def)
qed

lemma normalize_components_canonical:
  "list_all dc_value vs \<Longrightarrow>
     normalize_components (map ((@) ''dc='') vs) = Inr (map ((@) ''dc='') vs)"
proof (induction vs)
  case (Cons v vs)
  then have v: "dc_value v" and vs: "list_all dc_value vs" by simp_all
  note IH = Cons.IH [OF vs]
  show ?case
    by (simp only: list.map normalize_components.simps normalize_component_canonical [OF v] IH
        and_then_simps)
qed simp

lemma split_canonical:
  assumes "vs \<noteq> []" "list_all dc_value vs"
  shows "split_on CHR '','' (join_with '','' (map ((@) ''dc='') vs)) = map ((@) ''dc='') vs"
  by (rule split_join) (use assms in \<open>auto simp: dc_value_def list_all_iff\<close>)

lemma NormalizeBaseDN_canonical: "normalized_base_dn dn \<Longrightarrow> NormalizeBaseDN dn = Inr dn"
  by (auto simp: normalized_base_dn_def NormalizeBaseDN_def split_canonical
      normalize_components_canonical)

lemma NormalizeBaseDN_normalized:
  assumes "NormalizeBaseDN s = Inr t"
  shows "normalized_base_dn t"
proof -
  obtain cs where cs: "normalize_components (split_on CHR '','' s) = Inr cs" "t = join_with '','' cs"
    using assms by (auto simp: NormalizeBaseDN_def and_then_Inr_iff Let_def)
  obtain vs where vs: "length vs = length (split_on CHR '','' s)" "list_all dc_value vs"
    "cs = map ((@) ''dc='') vs"
    using normalize_components_Inr [OF cs(1)] split_on_parts by blast
  moreover have "vs \<noteq> []" using vs(1) by (metis length_0_conv split_on_not_Nil)
  ultimately show ?thesis using cs(2) by (auto simp: normalized_base_dn_def)
qed

lemma normalized_base_dn_not_Nil: "normalized_base_dn dn \<Longrightarrow> dn \<noteq> []"
  by (auto simp: normalized_base_dn_def neq_Nil_conv join_with_Cons)

section \<open>The setting stays normalised\<close>

definition settings_inv :: "dir_settings \<Rightarrow> bool" where
  "settings_inv s \<longleftrightarrow> normalized_base_dn (BaseDN s)"

lemma NewSettings_inv: "NewSettings dn = Inr s \<Longrightarrow> settings_inv s"
  using NormalizeBaseDN_normalized
  by (auto simp: NewSettings_def and_then_Inr_iff settings_inv_def BaseDN_def)

interpretation settings: invariant_machine SetBaseDN settings_inv
proof unfold_locales
  show "settings_inv (snd (SetBaseDN s dn))" if "settings_inv s" for s dn
    using that NormalizeBaseDN_normalized [of dn]
    by (auto simp: SetBaseDN_def settings_inv_def BaseDN_def split: sum.splits)
qed

section \<open>Properties\<close>

text \<open>what \<open>NormalizeBaseDN\<close> accepts it turns into a canonical form, \<open>dc=v\<close> components with
  non-empty, trimmed values joined by commas, and normalising that again changes nothing.\<close>

theorem NormalizeBaseDN_canonicalises:
  assumes "NormalizeBaseDN s = Inr t"
  shows "normalized_base_dn t \<and> NormalizeBaseDN t = Inr t"
  using NormalizeBaseDN_normalized [OF assms] NormalizeBaseDN_canonical by simp

theorem NormalizeBaseDN_canonicalises_witness:
  "normalized_base_dn ''dc=Example,dc=com'' \<and> NormalizeBaseDN ''dc=Example,dc=com'' = Inr ''dc=Example,dc=com''"
proof (rule NormalizeBaseDN_canonicalises)
  have "dc_value ''Example''" "dc_value ''com''" by code_simp+
  then have "normalized_base_dn ''dc=Example,dc=com''"
    by (auto simp: normalized_base_dn_def intro!: exI [of _ "[''Example'', ''com'']"])
  then show "NormalizeBaseDN ''dc=Example,dc=com'' = Inr ''dc=Example,dc=com''"
    by (rule NormalizeBaseDN_canonical)
qed

fun last_accepted :: "string \<Rightarrow> string list \<Rightarrow> string" where
  "last_accepted current [] = current"
| "last_accepted current (dn # dns) =
     last_accepted (case NormalizeBaseDN dn of Inl _ \<Rightarrow> current | Inr n \<Rightarrow> n) dns"

lemma settings_last_accepted: "BaseDN (final_state SetBaseDN s dns) = last_accepted (BaseDN s) dns"
  by (induction dns arbitrary: s) (auto simp: SetBaseDN_def BaseDN_def split: sum.splits)

text \<open>once created, the settings hold a normalised base DN after any sequence of changes, and the base
  DN after it is the one set by the last change that was accepted.\<close>

theorem settings_stay_normalised:
  assumes "NewSettings dn = Inr s"
  shows "normalized_base_dn (BaseDN (final_state SetBaseDN s dns)) \<and>
    BaseDN (final_state SetBaseDN s dns) = last_accepted (BaseDN s) dns"
  using settings.run_inv [OF NewSettings_inv [OF assms]] settings_last_accepted
  by (simp add: settings_inv_def)

theorem settings_stay_normalised_witness:
  "normalized_base_dn (BaseDN (final_state SetBaseDN \<lparr>base_dn = ''dc=a''\<rparr> [''ou=x'', ''dc=b''])) \<and>
    BaseDN (final_state SetBaseDN \<lparr>base_dn = ''dc=a''\<rparr> [''ou=x'', ''dc=b''])
      = last_accepted (BaseDN \<lparr>base_dn = ''dc=a''\<rparr>) [''ou=x'', ''dc=b'']"
proof (rule settings_stay_normalised)
  have "dc_value ''a''" by code_simp
  then have "normalized_base_dn ''dc=a''"
    by (auto simp: normalized_base_dn_def intro!: exI [of _ "[''a'']"])
  then show "NewSettings ''dc=a'' = Inr \<lparr>base_dn = ''dc=a''\<rparr>"
    by (simp add: NewSettings_def NormalizeBaseDN_canonical)
qed

end
