(* ===== verification/Db.thy ===== *)
theory Db
  imports Password Directory "HOL-Library.Char_ord" "HOL-Library.List_Lexorder"
begin

text \<open>
  The database under \<open>internal/store/store.go\<close>: the four tables of \<open>Migrate\<close>, the SQL statements the
  program issues, and the way a statement can fail. A statement is one step on the tables; an error
  leaves them as they were. Which statements fail for reasons outside the program (I/O, cancelled
  context) is the list \<open>faults\<close> of the world: its head decides the next statement, and an empty list
  means no more faults. Text columns that hold RFC 3339 time stamps hold the instant they denote.
  \<open>ORDER BY\<close> on text is the order of the bytes.
\<close>

datatype store_error =
    NoRows | DriverFault | UniqueViolation | ForeignKeyViolation | DatabaseFull
  | CredentialsRequired | GroupNameRequired
  | GroupLookup string store_error
  | AuthFailure auth_error
  | BadBaseDN dn_error

record user_row =
  ur_id :: int
  ur_username :: string
  ur_password_hash :: string
  ur_display_name :: string
  ur_disabled :: int
  ur_created_at :: time
  ur_updated_at :: time

record group_row =
  gr_id :: int
  gr_name :: string
  gr_description :: string

record db =
  t_users :: "user_row list"
  t_groups :: "group_row list"
  t_user_groups :: "(int \<times> int) list"
  t_settings :: "(string \<times> string) list"
  users_seq :: int
  groups_seq :: int
  schema :: "string list"
  foreign_keys :: bool

definition empty_db :: db where
  "empty_db = \<lparr>t_users = [], t_groups = [], t_user_groups = [], t_settings = [], users_seq = 0, groups_seq = 0,
     schema = [], foreign_keys = False\<rparr>"

record world =
  w_db :: db
  faults :: "bool list"
  entropy :: "bytes option list"
  w_now :: time

type_synonym 'a io = "world \<Rightarrow> (store_error + 'a) \<times> world"

section \<open>Sequencing\<close>

definition io_return :: "'a \<Rightarrow> 'a io" where
  "io_return x w = (Inr x, w)"

definition io_fail :: "store_error \<Rightarrow> 'a io" where
  "io_fail e w = (Inl e, w)"

definition io_bind :: "'a io \<Rightarrow> ('a \<Rightarrow> 'b io) \<Rightarrow> 'b io" where
  "io_bind m k w = (case m w of (Inl e, w') \<Rightarrow> (Inl e, w') | (Inr x, w') \<Rightarrow> k x w')"

text \<open>A Go function called on the way that has no effect: its error is returned.\<close>

definition io_lift :: "store_error + 'a \<Rightarrow> 'a io" where
  "io_lift r w = (r, w)"

definition fault :: "world \<Rightarrow> bool \<times> world" where
  "fault w = (case faults w of [] \<Rightarrow> (False, w) | b # bs \<Rightarrow> (b, w\<lparr>faults := bs\<rparr>))"

text \<open>A statement that changes tables, and a query.\<close>

definition exec :: "(db \<Rightarrow> store_error + ('a \<times> db)) \<Rightarrow> 'a io" where
  "exec f w =
     (let (failed, w) = fault w
      in if failed then (Inl DriverFault, w)
         else case f (w_db w) of Inl e \<Rightarrow> (Inl e, w) | Inr (x, d) \<Rightarrow> (Inr x, w\<lparr>w_db := d\<rparr>))"

definition query :: "(db \<Rightarrow> store_error + 'a) \<Rightarrow> 'a io" where
  "query f w =
     (let (failed, w) = fault w
      in if failed then (Inl DriverFault, w) else (f (w_db w), w))"

text \<open>A point where the driver may report an error without any effect.\<close>

definition driver_point :: "unit io" where
  "driver_point = query (\<lambda>_. Inr ())"

text \<open>\<open>BeginTx\<close>, the body, \<open>Commit\<close>, with the deferred \<open>Rollback\<close>: an error of the body or of the
  commit leaves the tables as they were at the beginning.\<close>

definition transaction :: "'a io \<Rightarrow> 'a io" where
  "transaction body w =
     (case driver_point w of
        (Inl e, w) \<Rightarrow> (Inl e, w)
      | (Inr _, w0) \<Rightarrow>
          (case io_bind body (\<lambda>x. io_bind driver_point (\<lambda>_. io_return x)) w0 of
             (Inl e, w') \<Rightarrow> (Inl e, w'\<lparr>w_db := w_db w0\<rparr>)
           | (Inr x, w') \<Rightarrow> (Inr x, w')))"

text \<open>\<open>rand.Read\<close>: the next outcome of the source of randomness.\<close>

definition take_random :: "world \<Rightarrow> bytes option \<times> world" where
  "take_random w = (case entropy w of [] \<Rightarrow> (None, w) | b # bs \<Rightarrow> (b, w\<lparr>entropy := bs\<rparr>))"

section \<open>Statements\<close>

definition max_rowid :: int where
  "max_rowid = 2 ^ 63 - 1"

text \<open>\<open>CREATE ... IF NOT EXISTS\<close>.\<close>

definition sql_create :: "string \<Rightarrow> unit io" where
  "sql_create name = exec (\<lambda>d. Inr ((), if name \<in> set (schema d) then d else d\<lparr>schema := schema d @ [name]\<rparr>))"

definition sql_pragma_foreign_keys :: "unit io" where
  "sql_pragma_foreign_keys = exec (\<lambda>d. Inr ((), d\<lparr>foreign_keys := True\<rparr>))"

definition sql_count_users :: "int io" where
  "sql_count_users = query (\<lambda>d. Inr (int (length (t_users d))))"

text \<open>\<open>INSERT INTO users\<close>; the id is one more than the largest ever used (\<open>AUTOINCREMENT\<close>).\<close>

definition sql_insert_user :: "string \<Rightarrow> string \<Rightarrow> string \<Rightarrow> int \<Rightarrow> time \<Rightarrow> time \<Rightarrow> int io" where
  "sql_insert_user username password_hash display_name disabled created_at updated_at =
     exec (\<lambda>d.
       if username \<in> ur_username ` set (t_users d) then Inl UniqueViolation
       else if users_seq d \<ge> max_rowid then Inl DatabaseFull
       else Inr (users_seq d + 1,
         d\<lparr>t_users := t_users d @ [\<lparr>ur_id = users_seq d + 1, ur_username = username,
             ur_password_hash = password_hash, ur_display_name = display_name, ur_disabled = disabled,
             ur_created_at = created_at, ur_updated_at = updated_at\<rparr>],
           users_seq := users_seq d + 1\<rparr>))"

definition sql_insert_group :: "string \<Rightarrow> string \<Rightarrow> int io" where
  "sql_insert_group name description =
     exec (\<lambda>d.
       if name \<in> gr_name ` set (t_groups d) then Inl UniqueViolation
       else if groups_seq d \<ge> max_rowid then Inl DatabaseFull
       else Inr (groups_seq d + 1,
         d\<lparr>t_groups := t_groups d @ [\<lparr>gr_id = groups_seq d + 1, gr_name = name, gr_description = description\<rparr>],
           groups_seq := groups_seq d + 1\<rparr>))"

definition sql_insert_user_group :: "int \<Rightarrow> int \<Rightarrow> unit io" where
  "sql_insert_user_group user_id group_id =
     exec (\<lambda>d.
       if (user_id, group_id) \<in> set (t_user_groups d) then Inl UniqueViolation
       else if foreign_keys d \<and> (user_id \<notin> ur_id ` set (t_users d) \<or> group_id \<notin> gr_id ` set (t_groups d))
       then Inl ForeignKeyViolation
       else Inr ((), d\<lparr>t_user_groups := t_user_groups d @ [(user_id, group_id)]\<rparr>))"

definition sql_update_user :: "int \<Rightarrow> string \<Rightarrow> string \<Rightarrow> int \<Rightarrow> time \<Rightarrow> unit io" where
  "sql_update_user user_id display_name password_hash disabled updated_at =
     exec (\<lambda>d. Inr ((), d\<lparr>t_users := map (\<lambda>r. if ur_id r = user_id
         then r\<lparr>ur_display_name := display_name, ur_password_hash := password_hash,
                ur_disabled := disabled, ur_updated_at := updated_at\<rparr>
         else r) (t_users d)\<rparr>))"

text \<open>\<open>UPDATE groups\<close> can run into the unique names.\<close>

definition sql_update_group :: "int \<Rightarrow> string \<Rightarrow> string \<Rightarrow> unit io" where
  "sql_update_group group_id name description =
     exec (\<lambda>d.
       if group_id \<in> gr_id ` set (t_groups d) \<and> (\<exists>r\<in>set (t_groups d). gr_id r \<noteq> group_id \<and> gr_name r = name)
       then Inl UniqueViolation
       else Inr ((), d\<lparr>t_groups := map (\<lambda>r. if gr_id r = group_id
           then r\<lparr>gr_name := name, gr_description := description\<rparr> else r) (t_groups d)\<rparr>))"

text \<open>The deletes with \<open>ON DELETE CASCADE\<close>.\<close>

definition sql_delete_user :: "int \<Rightarrow> unit io" where
  "sql_delete_user user_id =
     exec (\<lambda>d. Inr ((), d\<lparr>t_users := filter (\<lambda>r. ur_id r \<noteq> user_id) (t_users d),
       t_user_groups := (if foreign_keys d then filter (\<lambda>(u, g). u \<noteq> user_id) (t_user_groups d) else t_user_groups d)\<rparr>))"

definition sql_delete_group :: "int \<Rightarrow> unit io" where
  "sql_delete_group group_id =
     exec (\<lambda>d. Inr ((), d\<lparr>t_groups := filter (\<lambda>r. gr_id r \<noteq> group_id) (t_groups d),
       t_user_groups := (if foreign_keys d then filter (\<lambda>(u, g). g \<noteq> group_id) (t_user_groups d) else t_user_groups d)\<rparr>))"

definition sql_delete_user_groups :: "int \<Rightarrow> unit io" where
  "sql_delete_user_groups user_id =
     exec (\<lambda>d. Inr ((), d\<lparr>t_user_groups := filter (\<lambda>(u, g). u \<noteq> user_id) (t_user_groups d)\<rparr>))"

text \<open>Queries for one row report \<open>sql.ErrNoRows\<close> when there is none.\<close>

definition first_row :: "('a \<Rightarrow> bool) \<Rightarrow> 'a list \<Rightarrow> store_error + 'a" where
  "first_row P rows = (case find P rows of None \<Rightarrow> Inl NoRows | Some r \<Rightarrow> Inr r)"

definition sql_user_by_name :: "string \<Rightarrow> user_row io" where
  "sql_user_by_name username = query (\<lambda>d. first_row (\<lambda>r. ur_username r = username) (t_users d))"

definition sql_user_by_id :: "int \<Rightarrow> user_row io" where
  "sql_user_by_id user_id = query (\<lambda>d. first_row (\<lambda>r. ur_id r = user_id) (t_users d))"

definition sql_group_by_name :: "string \<Rightarrow> group_row io" where
  "sql_group_by_name name = query (\<lambda>d. first_row (\<lambda>r. gr_name r = name) (t_groups d))"

definition sql_group_by_id :: "int \<Rightarrow> group_row io" where
  "sql_group_by_id group_id = query (\<lambda>d. first_row (\<lambda>r. gr_id r = group_id) (t_groups d))"

definition sql_users :: "user_row list io" where
  "sql_users = query (\<lambda>d. Inr (sort_key ur_username (t_users d)))"

definition sql_groups :: "group_row list io" where
  "sql_groups = query (\<lambda>d. Inr (sort_key gr_name (t_groups d)))"

definition groups_of :: "db \<Rightarrow> int \<Rightarrow> group_row list" where
  "groups_of d user_id = sort_key gr_name (filter (\<lambda>g. (user_id, gr_id g) \<in> set (t_user_groups d)) (t_groups d))"

definition members_of :: "db \<Rightarrow> int \<Rightarrow> string list" where
  "members_of d group_id =
     map ur_username (sort_key ur_username (filter (\<lambda>u. (ur_id u, group_id) \<in> set (t_user_groups d)) (t_users d)))"

definition sql_user_groups :: "int \<Rightarrow> group_row list io" where
  "sql_user_groups user_id = query (\<lambda>d. Inr (groups_of d user_id))"

definition sql_group_members :: "int \<Rightarrow> string list io" where
  "sql_group_members group_id = query (\<lambda>d. Inr (members_of d group_id))"

definition sql_get_base_dn :: "string io" where
  "sql_get_base_dn = query (\<lambda>d. case map_of (t_settings d) ''base_dn'' of None \<Rightarrow> Inl NoRows | Some v \<Rightarrow> Inr v)"

definition sql_insert_base_dn :: "string \<Rightarrow> unit io" where
  "sql_insert_base_dn v =
     exec (\<lambda>d. Inr ((), case map_of (t_settings d) ''base_dn'' of
         None \<Rightarrow> d\<lparr>t_settings := AList.update ''base_dn'' v (t_settings d)\<rparr> | Some _ \<Rightarrow> d))"

definition sql_upsert_base_dn :: "string \<Rightarrow> unit io" where
  "sql_upsert_base_dn v = exec (\<lambda>d. Inr ((), d\<lparr>t_settings := AList.update ''base_dn'' v (t_settings d)\<rparr>))"

section \<open>Laws of sequencing\<close>

named_theorems io_simps \<open>how the steps run\<close>

lemma io_return_run [io_simps]: "io_return x w = (Inr x, w)"
  by (simp add: io_return_def)

lemma io_fail_run [io_simps]: "io_fail e w = (Inl e, w)"
  by (simp add: io_fail_def)

lemma io_lift_run [io_simps]: "io_lift r w = (r, w)"
  by (simp add: io_lift_def)

lemma fault_db [io_simps]: "w_db (snd (fault w)) = w_db w" "entropy (snd (fault w)) = entropy w"
  "w_now (snd (fault w)) = w_now w"
  by (auto simp: fault_def split: list.splits)

lemma query_db: "w_db (snd (query f w)) = w_db w"
  using fault_db [of w] by (auto simp: query_def Let_def split: prod.splits)

lemma query_result: "fst (query f w) = Inr x \<Longrightarrow> f (w_db w) = Inr x"
  using fault_db [of w] by (auto simp: query_def Let_def split: prod.splits if_splits)

lemma exec_cases:
  obtains (fail) e where "fst (exec f w) = Inl e" "w_db (snd (exec f w)) = w_db w"
  | (ok) x d where "fst (exec f w) = Inr x" "f (w_db w) = Inr (x, d)" "w_db (snd (exec f w)) = d"
proof -
  obtain failed w' where f: "fault w = (failed, w')" by (cases "fault w")
  then have d: "w_db w' = w_db w" using fault_db [of w] by simp
  show ?thesis
  proof (cases failed)
    case True
    then show ?thesis using f d by (intro fail) (simp_all add: exec_def)
  next
    case False
    then show ?thesis
      using f d by (cases "f (w_db w)") (auto simp: exec_def intro: fail ok)
  qed
qed

text \<open>\<open>keeps P m Q\<close>: the program keeps the invariant \<open>P\<close> of the tables whatever happens, and a
  result it returns satisfies \<open>Q\<close>.\<close>

definition keeps :: "(db \<Rightarrow> bool) \<Rightarrow> 'a io \<Rightarrow> ('a \<Rightarrow> bool) \<Rightarrow> bool" where
  "keeps P m Q \<longleftrightarrow> (\<forall>w. P (w_db w) \<longrightarrow>
     P (w_db (snd (m w))) \<and> (\<forall>x. fst (m w) = Inr x \<longrightarrow> Q x))"

named_theorems keeps_intros \<open>programs that keep an invariant of the tables\<close>

lemma keepsD: "keeps P m Q \<Longrightarrow> P (w_db w) \<Longrightarrow> P (w_db (snd (m w)))"
  by (simp add: keeps_def)

lemma keeps_weaken: "keeps P m Q \<Longrightarrow> (\<And>x. Q x \<Longrightarrow> Q' x) \<Longrightarrow> keeps P m Q'"
  by (auto simp: keeps_def)

lemma keeps_any: "keeps P m Q \<Longrightarrow> keeps P m (\<lambda>_. True)"
  by (simp add: keeps_def)

lemma keeps_return [keeps_intros]: "Q x \<Longrightarrow> keeps P (io_return x) Q"
  by (simp add: keeps_def io_simps)

lemma keeps_fail [keeps_intros]: "keeps P (io_fail e) Q"
  by (simp add: keeps_def io_simps)

lemma keeps_lift [keeps_intros]: "(\<And>x. r = Inr x \<Longrightarrow> Q x) \<Longrightarrow> keeps P (io_lift r) Q"
  by (auto simp: keeps_def io_simps)

lemma keeps_query: "(\<And>d x. P d \<Longrightarrow> f d = Inr x \<Longrightarrow> Q x) \<Longrightarrow> keeps P (query f) Q"
  using query_result [of f] by (auto simp: keeps_def query_db)

lemma keeps_driver_point [keeps_intros]: "keeps P driver_point (\<lambda>_. True)"
  unfolding driver_point_def by (rule keeps_query) simp

lemma keeps_bind:
  assumes "keeps P m Q" "\<And>x. Q x \<Longrightarrow> keeps P (k x) R"
  shows "keeps P (io_bind m k) R"
  unfolding keeps_def
proof (intro allI impI)
  fix w :: world assume w: "P (w_db w)"
  obtain r w' where m: "m w = (r, w')" by (cases "m w")
  have "P (w_db w')" "\<And>x. r = Inr x \<Longrightarrow> Q x" using assms(1) w m by (auto simp: keeps_def)
  then show "P (w_db (snd (io_bind m k w))) \<and> (\<forall>x. fst (io_bind m k w) = Inr x \<longrightarrow> R x)"
    using assms(2) m by (cases r) (auto simp: io_bind_def keeps_def)
qed

lemma keeps_exec:
  assumes "\<And>d x d'. P d \<Longrightarrow> f d = Inr (x, d') \<Longrightarrow> P d' \<and> Q x"
  shows "keeps P (exec f) Q"
  unfolding keeps_def
proof (intro allI impI)
  fix w :: world assume "P (w_db w)"
  then show "P (w_db (snd (exec f w))) \<and> (\<forall>x. fst (exec f w) = Inr x \<longrightarrow> Q x)"
    by (cases rule: exec_cases [of f w]) (use assms in auto)
qed

lemma keeps_transaction [keeps_intros]:
  assumes "keeps P body Q"
  shows "keeps P (transaction body) Q"
  unfolding keeps_def
proof (intro allI impI)
  fix w :: world assume w: "P (w_db w)"
  let ?b = "io_bind body (\<lambda>x. io_bind driver_point (\<lambda>_. io_return x))"
  obtain r w0 where w0: "driver_point w = (r, w0)" by (cases "driver_point w")
  have p: "P (w_db w0)" using keepsD [OF keeps_driver_point, of P w] w w0 by simp
  have "keeps P ?b Q"
    by (rule keeps_bind [OF assms], rule keeps_bind [OF keeps_driver_point], rule keeps_return)
  then have "P (w_db (snd (?b w0)))" "\<And>x. fst (?b w0) = Inr x \<Longrightarrow> Q x" using p by (simp_all add: keeps_def)
  then show "P (w_db (snd (transaction body w))) \<and> (\<forall>x. fst (transaction body w) = Inr x \<longrightarrow> Q x)"
    using p w0 by (cases r) (auto simp: transaction_def split: prod.splits sum.splits)
qed

text \<open>A transaction that fails changes nothing.\<close>

lemma transaction_atomic: "fst (transaction body w) = Inl e \<Longrightarrow> w_db (snd (transaction body w)) = w_db w"
  using query_db [of "\<lambda>_. Inr ()" w]
  by (auto simp: transaction_def driver_point_def split: prod.splits sum.splits)

text \<open>A transaction that succeeds has run its body on the tables.\<close>

lemma transaction_ok:
  assumes "transaction body w = (Inr x, w')"
  obtains w0 w1 where "w_db w0 = w_db w" "entropy w0 = entropy w" "w_now w0 = w_now w"
    "body w0 = (Inr x, w1)" "w_db w' = w_db w1"
proof -
  obtain w0 where w0: "driver_point w = (Inr (), w0)"
    using assms by (auto simp: transaction_def split: prod.splits sum.splits)
  then obtain w1 where w1: "body w0 = (Inr x, w1)" "driver_point w1 = (Inr (), w')"
    using assms by (auto simp: transaction_def io_bind_def io_return_def split: prod.splits sum.splits)
  have "w_db w0 = w_db w" "entropy w0 = entropy w" "w_now w0 = w_now w"
    using w0 fault_db [of w] by (auto simp: driver_point_def query_def Let_def split: prod.splits if_splits)
  moreover have "w_db w' = w_db w1"
    using w1(2) query_db [of "\<lambda>_. Inr ()" w1] by (simp add: driver_point_def)
  ultimately show ?thesis using that w1(1) by blast
qed

section \<open>Runs without faults\<close>

lemma fault_none [io_simps]: "faults w = [] \<Longrightarrow> fault w = (False, w)"
  by (simp add: fault_def)

lemma query_none [io_simps]: "faults w = [] \<Longrightarrow> query f w = (f (w_db w), w)"
  by (simp add: query_def fault_none)

lemma exec_none [io_simps]:
  "faults w = [] \<Longrightarrow> exec f w =
     (case f (w_db w) of Inl e \<Rightarrow> (Inl e, w) | Inr (x, d) \<Rightarrow> (Inr x, w\<lparr>w_db := d\<rparr>))"
  by (simp add: exec_def fault_none)

lemma driver_point_none [io_simps]: "faults w = [] \<Longrightarrow> driver_point w = (Inr (), w)"
  by (simp add: driver_point_def query_none)

end
