(* ===== verification/Store.thy ===== *)
theory Store
  imports Db
begin

text \<open>
  The operations of \<open>internal/store/store.go\<close> on the database of theory \<open>Db\<close>. \<open>idkey\<close> is
  \<open>argon2.IDKey\<close>. A Go value returned next to a non-nil error is not used by any caller and is
  dropped.
\<close>

record group =
  g_ID :: int
  g_Name :: string
  g_Description :: string
  g_MemberUIDs :: "string list"

record user =
  u_ID :: int
  u_Username :: string
  u_PasswordHash :: string
  u_DisplayName :: string
  u_Disabled :: bool
  u_CreatedAt :: time
  u_UpdatedAt :: time
  u_Groups :: "group list"

record user_input =
  in_Username :: string
  in_Password :: string
  in_DisplayName :: string
  in_Disabled :: bool
  in_GroupNames :: "string list"

record group_input =
  in_Name :: string
  in_Description :: string

section \<open>Helpers\<close>

definition boolInt :: "bool \<Rightarrow> int" where
  "boolInt b = (if b then 1 else 0)"

definition displayOrUsername :: "string \<Rightarrow> string \<Rightarrow> string" where
  "displayOrUsername displayName username =
     (if trim_space displayName = [] then trim_space username else trim_space displayName)"

text \<open>The loop of \<open>uniqueNames\<close> with the set \<open>seen\<close> of lower-case names.\<close>

fun unique_names_loop :: "string list \<Rightarrow> string list \<Rightarrow> string list" where
  "unique_names_loop seen [] = []"
| "unique_names_loop seen (name # names) =
     (let trimmed = trim_space name; key = to_lower trimmed
      in if trimmed = [] then unique_names_loop seen names
         else if List.member seen key then unique_names_loop seen names
         else trimmed # unique_names_loop (key # seen) names)"

definition uniqueNames :: "string list \<Rightarrow> string list" where
  "uniqueNames names = unique_names_loop [] names"

definition IsMemberOf :: "user \<Rightarrow> string list \<Rightarrow> bool" where
  "IsMemberOf u names = list_ex (\<lambda>g. list_ex (\<lambda>candidate. equal_fold (g_Name g) candidate) names) (u_Groups u)"

section \<open>Rows to values\<close>

definition scanned_group :: "group_row \<Rightarrow> group" where
  "scanned_group r = \<lparr>g_ID = gr_id r, g_Name = gr_name r, g_Description = gr_description r, g_MemberUIDs = []\<rparr>"

definition scanned_user :: "user_row \<Rightarrow> user" where
  "scanned_user r = \<lparr>u_ID = ur_id r, u_Username = ur_username r, u_PasswordHash = ur_password_hash r,
     u_DisplayName = ur_display_name r, u_Disabled = (ur_disabled r = 1), u_CreatedAt = ur_created_at r,
     u_UpdatedAt = ur_updated_at r, u_Groups = []\<rparr>"

definition userGroups :: "int \<Rightarrow> group list io" where
  "userGroups user_id = io_bind (sql_user_groups user_id) (\<lambda>rows. io_return (map scanned_group rows))"

definition groupMembers :: "int \<Rightarrow> string list io" where
  "groupMembers group_id = sql_group_members group_id"

definition scanUser :: "user_row io \<Rightarrow> user io" where
  "scanUser row =
     io_bind row (\<lambda>r.
     io_bind (userGroups (ur_id r)) (\<lambda>gs.
     io_return ((scanned_user r)\<lparr>u_Groups := gs\<rparr>)))"

definition scanGroup :: "group_row io \<Rightarrow> group io" where
  "scanGroup row =
     io_bind row (\<lambda>r.
     io_bind (groupMembers (gr_id r)) (\<lambda>ms.
     io_return ((scanned_group r)\<lparr>g_MemberUIDs := ms\<rparr>)))"

definition GetUserByUsername :: "string \<Rightarrow> user io" where
  "GetUserByUsername username = scanUser (sql_user_by_name username)"

definition GetUserByID :: "int \<Rightarrow> user io" where
  "GetUserByID user_id = scanUser (sql_user_by_id user_id)"

definition getUserTx :: "int \<Rightarrow> user io" where
  "getUserTx user_id = io_bind (sql_user_by_id user_id) (\<lambda>r.
     io_return ((scanned_user r)\<lparr>u_CreatedAt := 0, u_UpdatedAt := 0\<rparr>))"

definition GetGroupByName :: "string \<Rightarrow> group io" where
  "GetGroupByName name = scanGroup (sql_group_by_name name)"

definition GetGroupByID :: "int \<Rightarrow> group io" where
  "GetGroupByID group_id = scanGroup (sql_group_by_id group_id)"

fun add_user_groups :: "user list \<Rightarrow> user list io" where
  "add_user_groups [] = io_return []"
| "add_user_groups (u # us) =
     io_bind (userGroups (u_ID u)) (\<lambda>gs.
     io_bind (add_user_groups us) (\<lambda>us.
     io_return (u\<lparr>u_Groups := gs\<rparr> # us)))"

definition ListUsers :: "user list io" where
  "ListUsers = io_bind sql_users (\<lambda>rows. add_user_groups (map scanned_user rows))"

fun add_group_members :: "group list \<Rightarrow> group list io" where
  "add_group_members [] = io_return []"
| "add_group_members (g # gs) =
     io_bind (groupMembers (g_ID g)) (\<lambda>ms.
     io_bind (add_group_members gs) (\<lambda>gs.
     io_return (g\<lparr>g_MemberUIDs := ms\<rparr> # gs)))"

definition ListGroups :: "group list io" where
  "ListGroups = io_bind sql_groups (\<lambda>rows. add_group_members (map scanned_group rows))"

section \<open>Opening and seeding\<close>

definition migrations :: "unit io list" where
  "migrations =
     [sql_pragma_foreign_keys, sql_create ''users'', sql_create ''groups'', sql_create ''user_groups'',
      sql_create ''settings'', sql_create ''idx_user_groups_user_id'', sql_create ''idx_user_groups_group_id'']"

fun run_all :: "unit io list \<Rightarrow> unit io" where
  "run_all [] = io_return ()"
| "run_all (m # ms) = io_bind m (\<lambda>_. run_all ms)"

definition Migrate :: "unit io" where
  "Migrate = run_all migrations"

text \<open>\<open>sql.Open\<close> may fail; a fresh connection does not enforce foreign keys.\<close>

definition new_connection :: "unit io" where
  "new_connection w = (Inr (), w\<lparr>w_db := (w_db w)\<lparr>foreign_keys := False\<rparr>\<rparr>)"

definition Open_store :: "unit io" where
  "Open_store = io_bind driver_point (\<lambda>_. io_bind new_connection (\<lambda>_. Migrate))"

section \<open>Changing users and groups\<close>

fun assign_names :: "int \<Rightarrow> string list \<Rightarrow> unit io" where
  "assign_names user_id [] = io_return ()"
| "assign_names user_id (name # names) =
     io_bind (\<lambda>w. case sql_group_by_name name w of
                    (Inl e, w) \<Rightarrow> (Inl (GroupLookup name e), w) | (Inr r, w) \<Rightarrow> (Inr (gr_id r), w)) (\<lambda>group_id.
     io_bind (sql_insert_user_group user_id group_id) (\<lambda>_.
     assign_names user_id names))"

definition assignGroupsTx :: "int \<Rightarrow> string list \<Rightarrow> unit io" where
  "assignGroupsTx user_id groupNames = assign_names user_id (uniqueNames groupNames)"

definition hash_password :: "idkey \<Rightarrow> string \<Rightarrow> string io" where
  "hash_password idkey password w =
     (let (rnd, w) = take_random w
      in case HashPassword idkey rnd password of
           Inl e \<Rightarrow> (Inl (AuthFailure e), w) | Inr phc \<Rightarrow> (Inr phc, w))"

definition now_of :: "time io" where
  "now_of w = (Inr (w_now w), w)"

definition CreateUser :: "idkey \<Rightarrow> user_input \<Rightarrow> user io" where
  "CreateUser idkey input =
     (if trim_space (in_Username input) = [] \<or> trim_space (in_Password input) = []
      then io_fail CredentialsRequired
      else
        io_bind (hash_password idkey (in_Password input)) (\<lambda>passwordHash.
        io_bind now_of (\<lambda>now.
        io_bind (transaction
          (io_bind (sql_insert_user (trim_space (in_Username input)) passwordHash
              (displayOrUsername (in_DisplayName input) (in_Username input)) (boolInt (in_Disabled input)) now now) (\<lambda>userID.
           io_bind driver_point (\<lambda>_.
           io_bind (assignGroupsTx userID (in_GroupNames input)) (\<lambda>_.
           io_return userID))))) (\<lambda>userID.
        GetUserByID userID))))"

definition UpdateUser :: "idkey \<Rightarrow> int \<Rightarrow> user_input \<Rightarrow> user io" where
  "UpdateUser idkey user_id input =
     io_bind (transaction
       (io_bind (getUserTx user_id) (\<lambda>current.
        io_bind (if trim_space (in_Password input) \<noteq> [] then hash_password idkey (in_Password input)
                 else io_return (u_PasswordHash current)) (\<lambda>passwordHash.
        let trimmed = trim_space (in_DisplayName input);
            displayName = (if trimmed \<noteq> [] then trimmed else u_DisplayName current)
        in io_bind now_of (\<lambda>now.
           io_bind (sql_update_user user_id displayName passwordHash (boolInt (in_Disabled input)) now) (\<lambda>_.
           io_bind (sql_delete_user_groups user_id) (\<lambda>_.
           assignGroupsTx user_id (in_GroupNames input)))))))) (\<lambda>_.
     GetUserByID user_id)"

definition DeleteUser :: "int \<Rightarrow> unit io" where
  "DeleteUser user_id = sql_delete_user user_id"

definition CreateGroup :: "group_input \<Rightarrow> group io" where
  "CreateGroup input =
     (if trim_space (in_Name input) = [] then io_fail GroupNameRequired
      else
        io_bind (sql_insert_group (trim_space (in_Name input)) (trim_space (in_Description input))) (\<lambda>group_id.
        io_bind driver_point (\<lambda>_.
        GetGroupByID group_id)))"

definition UpdateGroup :: "int \<Rightarrow> group_input \<Rightarrow> group io" where
  "UpdateGroup group_id input =
     (if trim_space (in_Name input) = [] then io_fail GroupNameRequired
      else
        io_bind (sql_update_group group_id (trim_space (in_Name input)) (trim_space (in_Description input))) (\<lambda>_.
        GetGroupByID group_id))"

definition DeleteGroup :: "int \<Rightarrow> unit io" where
  "DeleteGroup group_id = sql_delete_group group_id"

definition default_groups :: "group_input list" where
  "default_groups =
     [\<lparr>in_Name = ''admins'', in_Description = ''Administrative users''\<rparr>,
      \<lparr>in_Name = ''mvradmins'', in_Description = ''Privileged LDAP service accounts''\<rparr>,
      \<lparr>in_Name = ''users'', in_Description = ''Standard users''\<rparr>,
      \<lparr>in_Name = ''guests'', in_Description = ''Guest users''\<rparr>]"

definition default_user :: "string \<Rightarrow> string \<Rightarrow> string \<Rightarrow> user_input" where
  "default_user name display grp = \<lparr>in_Username = name, in_Password = name, in_DisplayName = display,
     in_Disabled = False, in_GroupNames = [grp]\<rparr>"

definition default_users :: "user_input list" where
  "default_users =
     [default_user ''admin'' ''Administrator'' ''admins'',
      default_user ''mvradmin'' ''MVR Administrator'' ''mvradmins'',
      default_user ''user'' ''Standard User'' ''users'',
      default_user ''guest'' ''Guest User'' ''guests'']"

definition SeedDefaults :: "idkey \<Rightarrow> unit io" where
  "SeedDefaults idkey =
     io_bind sql_count_users (\<lambda>count.
     if count > 0 then io_return ()
     else
       io_bind (run_all (map (\<lambda>g. io_bind (CreateGroup g) (\<lambda>_. io_return ())) default_groups)) (\<lambda>_.
       run_all (map (\<lambda>u. io_bind (CreateUser idkey u) (\<lambda>_. io_return ())) default_users)))"

section \<open>The base DN\<close>

definition normalize_base :: "string \<Rightarrow> string io" where
  "normalize_base s = io_lift (case NormalizeBaseDN s of Inl e \<Rightarrow> Inl (BadBaseDN e) | Inr n \<Rightarrow> Inr n)"

definition store_BaseDN :: "string io" where
  "store_BaseDN = io_bind sql_get_base_dn normalize_base"

definition store_SetBaseDN :: "string \<Rightarrow> unit io" where
  "store_SetBaseDN baseDN = io_bind (normalize_base baseDN) sql_upsert_base_dn"

definition EnsureBaseDN :: "string \<Rightarrow> string io" where
  "EnsureBaseDN fallback w =
     (case store_BaseDN w of
        (Inr current, w) \<Rightarrow> (Inr current, w)
      | (Inl e, w) \<Rightarrow>
          if e \<noteq> NoRows then (Inl e, w)
          else io_bind (normalize_base fallback) (\<lambda>normalized.
               io_bind (sql_insert_base_dn normalized) (\<lambda>_.
               store_BaseDN)) w)"

section \<open>Authentication\<close>

text \<open>A wrong password is reported as \<open>sql.ErrNoRows\<close>, like an unknown user.\<close>

definition AuthenticateUser :: "idkey \<Rightarrow> string \<Rightarrow> string \<Rightarrow> user io" where
  "AuthenticateUser idkey username password =
     io_bind (GetUserByUsername username) (\<lambda>u.
     io_bind (io_lift (case VerifyPassword idkey (u_PasswordHash u) password of
                         Inl e \<Rightarrow> Inl (AuthFailure e) | Inr ok \<Rightarrow> Inr ok)) (\<lambda>ok.
     if \<not> ok then io_fail NoRows else io_return u))"

end
