(* ===== verification/Session.thy ===== *)
theory Session
  imports Go_Strings
begin

text \<open>
  Browser sessions (\<open>internal/session/store.go\<close>). The mutex makes every operation atomic. The two
  calls of \<open>time.Now()\<close> in \<open>Create\<close> and \<open>Get\<close> are two arguments; the outcome of \<open>rand.Read\<close> is an
  argument too, \<open>None\<close> for an error. A specification that never evicts anything, but looks at the
  expiry when it is asked, gives the same answers.
\<close>

datatype session_error = ErrSessionLimit | RandFailed

record session =
  sess_ID :: string
  sess_Username :: string
  ExpiresAt :: time
  LastSeen :: time

record session_store =
  sessions :: "(string \<times> session) list"
  ss_timeout :: duration
  ss_max :: int

text \<open>\<open>hex.EncodeToString\<close>.\<close>

definition hex_digit :: "nat \<Rightarrow> char" where
  "hex_digit n = ''0123456789abcdef'' ! n"

definition hex_encode :: "bytes \<Rightarrow> string" where
  "hex_encode bs = concat (map (\<lambda>b. [hex_digit (unat b div 16), hex_digit (unat b mod 16)]) bs)"

definition new_session_store :: "duration \<Rightarrow> int \<Rightarrow> session_store" where
  "new_session_store timeout limit = \<lparr>sessions = [], ss_timeout = timeout, ss_max = limit\<rparr>"

definition cleanupLocked :: "session_store \<Rightarrow> time \<Rightarrow> session_store" where
  "cleanupLocked s now = s\<lparr>sessions := filter (\<lambda>(sid, sess). \<not> now > ExpiresAt sess) (sessions s)\<rparr>"

definition session_Create ::
  "session_store \<Rightarrow> time \<Rightarrow> bytes option \<Rightarrow> time \<Rightarrow> string \<Rightarrow> (session_error + session) \<times> session_store" where
  "session_Create s now1 token now2 username =
     (let s = cleanupLocked s now1
      in if int (length (sessions s)) \<ge> ss_max s then (Inl ErrSessionLimit, s)
         else case token of
                None \<Rightarrow> (Inl RandFailed, s)
              | Some token \<Rightarrow>
                  let sess = \<lparr>sess_ID = hex_encode token, sess_Username = username,
                              ExpiresAt = now2 + ss_timeout s, LastSeen = now2\<rparr>
                  in (Inr sess, s\<lparr>sessions := AList.update (sess_ID sess) sess (sessions s)\<rparr>))"

definition session_Get :: "session_store \<Rightarrow> time \<Rightarrow> time \<Rightarrow> string \<Rightarrow> session option \<times> session_store" where
  "session_Get s now1 now2 sid =
     (let s = cleanupLocked s now1
      in case map_of (sessions s) sid of
           None \<Rightarrow> (None, s)
         | Some sess \<Rightarrow>
             let sess = sess\<lparr>LastSeen := now2, ExpiresAt := now2 + ss_timeout s\<rparr>
             in (Some sess, s\<lparr>sessions := AList.update sid sess (sessions s)\<rparr>))"

definition session_Delete :: "session_store \<Rightarrow> string \<Rightarrow> session_store" where
  "session_Delete s sid = s\<lparr>sessions := adelete sid (sessions s)\<rparr>"

definition session_RevokeUser :: "session_store \<Rightarrow> string \<Rightarrow> session_store" where
  "session_RevokeUser s username =
     s\<lparr>sessions := filter (\<lambda>(sid, sess). sess_Username sess \<noteq> username) (sessions s)\<rparr>"

section \<open>The store as a machine\<close>

datatype session_op =
    CreateOp time "bytes option" time string
  | GetOp time time string
  | DeleteOp string
  | RevokeUserOp string

datatype session_out =
    Created "session_error + session"
  | Got "session option"
  | Removed

definition session_step :: "session_store \<Rightarrow> session_op \<Rightarrow> session_out \<times> session_store" where
  "session_step s e = (case e of
       CreateOp now1 token now2 username \<Rightarrow>
         (let (r, s') = session_Create s now1 token now2 username in (Created r, s'))
     | GetOp now1 now2 sid \<Rightarrow> (let (r, s') = session_Get s now1 now2 sid in (Got r, s'))
     | DeleteOp sid \<Rightarrow> (Removed, session_Delete s sid)
     | RevokeUserOp username \<Rightarrow> (Removed, session_RevokeUser s username))"

text \<open>The invariant: keys are distinct and are the ids of their sessions, a session expires one
  timeout after it was last seen, and there are never more sessions than the maximum.\<close>

definition session_inv :: "session_store \<Rightarrow> bool" where
  "session_inv s \<longleftrightarrow> distinct (map fst (sessions s)) \<and>
     (\<forall>(sid, sess)\<in>set (sessions s). sess_ID sess = sid \<and> ExpiresAt sess = LastSeen sess + ss_timeout s) \<and>
     int (length (sessions s)) \<le> max 0 (ss_max s)"

lemma cleanup_frame [frame_simps]:
  "ss_timeout (cleanupLocked s now) = ss_timeout s" "ss_max (cleanupLocked s now) = ss_max s"
  by (simp_all add: cleanupLocked_def)

lemma filtered_inv:
  "session_inv s \<Longrightarrow> session_inv (s\<lparr>sessions := filter P (sessions s)\<rparr>)"
  using length_filter_le [of P "sessions s"]
  by (auto simp: session_inv_def intro: order_trans [rotated])

lemma cleanup_inv: "session_inv s \<Longrightarrow> session_inv (cleanupLocked s now)"
  unfolding cleanupLocked_def by (rule filtered_inv)

lemma set_update_distinct:
  "distinct (map fst m) \<Longrightarrow> (k', v') \<in> set (AList.update k v m) \<longleftrightarrow>
     (if k' = k then v' = v else (k', v') \<in> set m)"
  using map_of_eq_Some_iff [of "AList.update k v m" k' v'] map_of_eq_Some_iff [of m k' v']
  by (auto simp: distinct_update update_conv')

lemma updated_inv:
  assumes "session_inv s" "sess_ID sess = sid" "ExpiresAt sess = LastSeen sess + ss_timeout s"
    and "sid \<in> fst ` set (sessions s) \<or> int (length (sessions s)) < ss_max s"
  shows "session_inv (s\<lparr>sessions := AList.update sid sess (sessions s)\<rparr>)"
proof -
  have "int (length (AList.update sid sess (sessions s))) \<le> max 0 (ss_max s)"
    using assms(1,4) length_update_present [of sid "sessions s" sess] length_update_le [of sid sess "sessions s"]
    by (elim disjE) (simp_all add: session_inv_def)
  moreover have "\<forall>(k, v)\<in>set (AList.update sid sess (sessions s)). sess_ID v = k \<and> ExpiresAt v = LastSeen v + ss_timeout s"
    using assms(1-3) by (auto simp: session_inv_def set_update_distinct split: if_splits)
  ultimately show ?thesis
    using assms(1) by (simp add: session_inv_def distinct_update)
qed

interpretation session_machine: invariant_machine session_step session_inv
proof unfold_locales
  fix s e
  assume inv: "session_inv s"
  show "session_inv (snd (session_step s e))"
  proof (cases e)
    case (CreateOp now1 token now2 username)
    show ?thesis
      using cleanup_inv [OF inv, of now1]
      by (auto simp: session_step_def CreateOp session_Create_def Let_def updated_inv split: option.splits)
  next
    case (GetOp now1 now2 sid)
    show ?thesis
    proof (cases "map_of (sessions (cleanupLocked s now1)) sid")
      case (Some sess)
      then have m: "(sid, sess) \<in> set (sessions (cleanupLocked s now1))" by (rule map_of_SomeD)
      then have "sess_ID sess = sid" using cleanup_inv [OF inv, of now1] by (auto simp: session_inv_def)
      then show ?thesis
        using cleanup_inv [OF inv, of now1] m
        by (auto simp: session_step_def GetOp session_Get_def Let_def Some intro!: updated_inv intro: rev_image_eqI)
    qed (simp add: session_step_def GetOp session_Get_def Let_def cleanup_inv [OF inv])
  qed (simp_all add: session_step_def session_Delete_def session_RevokeUser_def adelete_def filtered_inv inv)
qed

section \<open>The specification\<close>

text \<open>The specification keeps every session until it is deleted or revoked; a session is alive at
  \<open>now\<close> as long as no more than the timeout has passed since it was last seen. The clock of the
  specification is the latest time seen.\<close>

record session_spec =
  ssp_sessions :: "(string \<times> session) list"
  ssp_timeout :: duration
  ssp_max :: int
  ssp_clock :: time

definition alive :: "time \<Rightarrow> session \<Rightarrow> bool" where
  "alive now sess \<longleftrightarrow> now \<le> ExpiresAt sess"

definition alive_sessions :: "time \<Rightarrow> (string \<times> session) list \<Rightarrow> (string \<times> session) list" where
  "alive_sessions now m = filter (\<lambda>(sid, sess). alive now sess) m"

definition spec_session_step :: "session_spec \<Rightarrow> session_op \<Rightarrow> session_out \<times> session_spec" where
  "spec_session_step a e = (case e of
       CreateOp now1 token now2 username \<Rightarrow>
         if int (length (alive_sessions now1 (ssp_sessions a))) \<ge> ssp_max a
         then (Created (Inl ErrSessionLimit), a\<lparr>ssp_clock := now1\<rparr>)
         else (case token of
             None \<Rightarrow> (Created (Inl RandFailed), a\<lparr>ssp_clock := now1\<rparr>)
           | Some token \<Rightarrow>
               let sess = \<lparr>sess_ID = hex_encode token, sess_Username = username,
                           ExpiresAt = now2 + ssp_timeout a, LastSeen = now2\<rparr>
               in (Created (Inr sess),
                   a\<lparr>ssp_sessions := AList.update (sess_ID sess) sess (ssp_sessions a), ssp_clock := now2\<rparr>))
     | GetOp now1 now2 sid \<Rightarrow>
         (case map_of (ssp_sessions a) sid of
            None \<Rightarrow> (Got None, a\<lparr>ssp_clock := now1\<rparr>)
          | Some sess \<Rightarrow>
              if alive now1 sess
              then let sess = sess\<lparr>LastSeen := now2, ExpiresAt := now2 + ssp_timeout a\<rparr>
                   in (Got (Some sess),
                       a\<lparr>ssp_sessions := AList.update sid sess (ssp_sessions a), ssp_clock := now2\<rparr>)
              else (Got None, a\<lparr>ssp_clock := now1\<rparr>))
     | DeleteOp sid \<Rightarrow> (Removed, a\<lparr>ssp_sessions := adelete sid (ssp_sessions a)\<rparr>)
     | RevokeUserOp username \<Rightarrow>
         (Removed, a\<lparr>ssp_sessions := filter (\<lambda>(sid, sess). sess_Username sess \<noteq> username) (ssp_sessions a)\<rparr>))"

fun clock_of :: "session_op \<Rightarrow> time list" where
  "clock_of (CreateOp now1 _ now2 _) = [now1, now2]"
| "clock_of (GetOp now1 now2 _) = [now1, now2]"
| "clock_of (DeleteOp _) = []"
| "clock_of (RevokeUserOp _) = []"

definition session_clock_ok :: "session_spec \<Rightarrow> session_op \<Rightarrow> bool" where
  "session_clock_ok a e \<longleftrightarrow> sorted (ssp_clock a # clock_of e)"

definition session_rel :: "session_store \<Rightarrow> session_spec \<Rightarrow> bool" where
  "session_rel c a \<longleftrightarrow> ss_timeout c = ssp_timeout a \<and> ss_max c = ssp_max a \<and>
     distinct (map fst (sessions c)) \<and> distinct (map fst (ssp_sessions a)) \<and>
     (\<forall>now\<ge>ssp_clock a. \<forall>sid. map_of (alive_sessions now (sessions c)) sid
                          = map_of (alive_sessions now (ssp_sessions a)) sid)"

lemma distinct_alive [simp]: "distinct (map fst m) \<Longrightarrow> distinct (map fst (alive_sessions now m))"
  by (simp add: alive_sessions_def distinct_keys_filter)

lemma map_of_alive:
  "distinct (map fst m) \<Longrightarrow> map_of (alive_sessions now m) sid =
     (case map_of m sid of Some sess \<Rightarrow> if alive now sess then Some sess else None | None \<Rightarrow> None)"
  unfolding alive_sessions_def by (subst map_of_filter_distinct) (auto split: option.splits)

lemma cleanup_alive: "sessions (cleanupLocked s now) = alive_sessions now (sessions s)"
  by (simp add: cleanupLocked_def alive_sessions_def alive_def not_less)

lemma same_map_same_length:
  assumes "distinct (map fst m)" "distinct (map fst n)" "\<And>k. map_of m k = map_of n k"
  shows "length m = length n"
proof -
  have "set m = set n"
    using assms by (intro set_eqI) (metis map_of_eq_Some_iff prod.collapse)
  then show ?thesis
    using assms(1,2) by (metis distinct_card distinct_map)
qed

lemma rel_at:
  assumes "session_rel c a" "ssp_clock a \<le> now"
  shows "map_of (alive_sessions now (sessions c)) sid = map_of (alive_sessions now (ssp_sessions a)) sid"
    and "length (alive_sessions now (sessions c)) = length (alive_sessions now (ssp_sessions a))"
proof -
  show eq: "map_of (alive_sessions now (sessions c)) sid = map_of (alive_sessions now (ssp_sessions a)) sid" for sid
    using assms by (simp add: session_rel_def)
  then show "length (alive_sessions now (sessions c)) = length (alive_sessions now (ssp_sessions a))"
    using assms by (intro same_map_same_length) (auto simp: session_rel_def)
qed

lemma alive_later: "alive now' sess \<Longrightarrow> now \<le> now' \<Longrightarrow> alive now sess"
  by (simp add: alive_def)

lemma rel_cleanup:
  assumes "session_rel c a" "ssp_clock a \<le> now"
  shows "session_rel (cleanupLocked c now) (a\<lparr>ssp_clock := now\<rparr>)"
proof -
  have "map_of (alive_sessions now' (alive_sessions now (sessions c))) sid
      = map_of (alive_sessions now' (ssp_sessions a)) sid" if "now \<le> now'" for now' sid
  proof -
    have "alive_sessions now' (alive_sessions now (sessions c)) = alive_sessions now' (sessions c)"
      using that by (auto simp: alive_sessions_def alive_def intro!: filter_cong)
    then show ?thesis using rel_at(1) [OF assms(1), of now'] assms(2) that by simp
  qed
  then show ?thesis using assms by (simp add: session_rel_def frame_simps cleanup_alive)
qed

lemma rel_update:
  assumes "session_rel c a" "ssp_clock a \<le> now"
  shows "session_rel (c\<lparr>sessions := AList.update sid sess (sessions c)\<rparr>)
           (a\<lparr>ssp_sessions := AList.update sid sess (ssp_sessions a), ssp_clock := now\<rparr>)"
proof -
  have d: "distinct (map fst (sessions c))" "distinct (map fst (ssp_sessions a))"
    using assms(1) by (simp_all add: session_rel_def)
  have "map_of (alive_sessions now' (AList.update sid sess (sessions c))) k
      = map_of (alive_sessions now' (AList.update sid sess (ssp_sessions a))) k" if "now \<le> now'" for now' k
    using rel_at(1) [OF assms(1), of now' k] assms(2) that d
    by (simp add: map_of_alive distinct_update update_conv')
  then show ?thesis using assms by (simp add: session_rel_def distinct_update)
qed

lemma rel_filter:
  assumes "session_rel c a"
  shows "session_rel (c\<lparr>sessions := filter P (sessions c)\<rparr>) (a\<lparr>ssp_sessions := filter P (ssp_sessions a)\<rparr>)"
proof -
  have d: "distinct (map fst (sessions c))" "distinct (map fst (ssp_sessions a))"
    using assms(1) by (simp_all add: session_rel_def)
  have "map_of (alive_sessions now (filter P (sessions c))) k
      = map_of (alive_sessions now (filter P (ssp_sessions a))) k" if "ssp_clock a \<le> now" for now k
  proof -
    have "alive_sessions now (filter P m) = filter P (alive_sessions now m)" for m
      by (simp add: alive_sessions_def conj_commute)
    then show ?thesis
      using rel_at(1) [OF assms(1) that, of k] d by (simp add: map_of_filter_distinct)
  qed
  then show ?thesis using assms by (auto simp: session_rel_def)
qed

lemma session_simulates:
  assumes rel: "session_rel c a" and ok: "session_clock_ok a e"
  shows "fst (session_step c e) = fst (spec_session_step a e) \<and>
    session_rel (snd (session_step c e)) (snd (spec_session_step a e))"
proof (cases e)
  case (CreateOp now1 token now2 username)
  have now: "ssp_clock a \<le> now1" "now1 \<le> now2" using ok by (simp_all add: CreateOp session_clock_ok_def)
  note rc = rel_cleanup [OF rel now(1)]
  have len: "length (sessions (cleanupLocked c now1)) = length (alive_sessions now1 (ssp_sessions a))"
    using rel_at(2) [OF rel now(1)] by (simp add: cleanup_alive)
  have par: "ss_timeout (cleanupLocked c now1) = ssp_timeout a" "ss_max (cleanupLocked c now1) = ssp_max a"
    using rel by (simp_all add: session_rel_def frame_simps)
  have clk: "ssp_clock (a\<lparr>ssp_clock := now1\<rparr>) \<le> now2" using now by simp
  show ?thesis
    using rc rel_update [OF rc clk] len par
    by (simp add: CreateOp session_step_def session_Create_def spec_session_step_def Let_def split: option.splits)
next
  case (GetOp now1 now2 sid)
  have now: "ssp_clock a \<le> now1" "now1 \<le> now2" using ok by (simp_all add: GetOp session_clock_ok_def)
  note rc = rel_cleanup [OF rel now(1)]
  have d: "distinct (map fst (ssp_sessions a))" using rel by (simp add: session_rel_def)
  have get: "map_of (sessions (cleanupLocked c now1)) sid =
      (case map_of (ssp_sessions a) sid of Some sess \<Rightarrow> if alive now1 sess then Some sess else None | None \<Rightarrow> None)"
    using rel_at(1) [OF rel now(1)] map_of_alive [OF d] by (simp add: cleanup_alive)
  have par: "ss_timeout (cleanupLocked c now1) = ssp_timeout a"
    using rel by (simp add: session_rel_def frame_simps)
  have clk: "ssp_clock (a\<lparr>ssp_clock := now1\<rparr>) \<le> now2" using now by simp
  show ?thesis
    using rc rel_update [OF rc clk] get par
    by (simp add: GetOp session_step_def session_Get_def spec_session_step_def Let_def split: option.splits)
qed (use rel_filter [OF rel] in \<open>simp_all add: session_step_def session_Delete_def session_RevokeUser_def
      spec_session_step_def adelete_def\<close>)

interpretation sessions_sim: simulation session_step spec_session_step session_rel session_clock_ok
  by unfold_locales (simp_all add: session_simulates)

section \<open>Tokens\<close>

lemma length_hex_encode: "length (hex_encode bs) = 2 * length bs"
  by (induction bs) (simp_all add: hex_encode_def)

lemma hex_digit_inj: "m < 16 \<Longrightarrow> n < 16 \<Longrightarrow> hex_digit m = hex_digit n \<Longrightarrow> m = n"
proof -
  assume "m < 16" "n < 16" "hex_digit m = hex_digit n"
  moreover have "distinct (map hex_digit [0..<16])" by code_simp
  ultimately show "m = n" by (simp add: distinct_map inj_on_def)
qed

lemma byte_nibbles: "unat (b :: byte) div 16 < 16"
proof -
  have "unat b < 2 ^ LENGTH(8)" by (rule unsigned_less)
  then show ?thesis by simp
qed

lemma hex_encode_inj: "hex_encode bs = hex_encode cs \<Longrightarrow> bs = cs"
proof (induction bs arbitrary: cs)
  case Nil
  then show ?case using length_hex_encode [of cs] by (simp add: hex_encode_def)
next
  case (Cons b bs)
  then obtain c cs' where cs: "cs = c # cs'"
    by (cases cs) (simp_all add: hex_encode_def)
  have "hex_digit (unat b div 16) = hex_digit (unat c div 16)" "hex_digit (unat b mod 16) = hex_digit (unat c mod 16)"
    and rest: "hex_encode bs = hex_encode cs'"
    using Cons.prems by (simp_all add: cs hex_encode_def)
  then have "unat b div 16 = unat c div 16" "unat b mod 16 = unat c mod 16"
    by (auto intro: hex_digit_inj simp: byte_nibbles)
  then have "unat b = unat c" by (metis div_mult_mod_eq)
  then show ?case using Cons.IH [OF rest] cs by (simp add: unsigned_word_eqI)
qed

section \<open>Properties\<close>

text \<open>however the store is used, it never holds more sessions than its maximum, every session is
  stored under its own id, and it expires exactly one timeout after it was last seen.\<close>

theorem session_store_invariant:
  "session_inv (final_state session_step (new_session_store timeout limit) es)"
  by (rule session_machine.run_inv) (simp add: session_inv_def new_session_store_def)

definition new_session_spec :: "duration \<Rightarrow> int \<Rightarrow> time \<Rightarrow> session_spec" where
  "new_session_spec timeout limit clock =
     \<lparr>ssp_sessions = [], ssp_timeout = timeout, ssp_max = limit, ssp_clock = clock\<rparr>"

lemma session_admissible:
  "sorted (ssp_clock a # concat (map clock_of es)) \<Longrightarrow> sessions_sim.admissible a es"
proof (induction es arbitrary: a)
  case (Cons e es)
  have "sorted (ssp_clock (snd (spec_session_step a e)) # concat (map clock_of es))"
    using Cons.prems
    by (cases e) (auto simp: spec_session_step_def Let_def split: option.splits)
  moreover have "session_clock_ok a e"
    using Cons.prems by (cases e) (auto simp: session_clock_ok_def)
  ultimately show ?case using Cons.IH by simp
qed simp

text \<open>C19: with a clock that does not go back, the store answers every sequence of \<open>Create\<close>, \<open>Get\<close>,
  \<open>Delete\<close> and \<open>RevokeUser\<close> like the specification that never evicts: an id is accepted exactly when
  its session was created, not deleted or revoked since, and seen within the timeout; a session is
  created exactly when fewer than the maximum are alive.\<close>

theorem session_store_refines_spec:
  assumes "sorted (clock # concat (map clock_of es))"
  shows "outputs session_step (new_session_store timeout limit) es
    = outputs spec_session_step (new_session_spec timeout limit clock) es"
proof (rule sessions_sim.runs_agree)
  show "session_rel (new_session_store timeout limit) (new_session_spec timeout limit clock)"
    by (simp add: session_rel_def new_session_store_def new_session_spec_def alive_sessions_def)
  show "sessions_sim.admissible (new_session_spec timeout limit clock) es"
    using assms by (intro session_admissible) (simp add: new_session_spec_def)
qed

theorem session_store_refines_spec_witness:
  "outputs session_step (new_session_store 10 1)
      [CreateOp 1 (Some [255]) 2 ''ann'', GetOp 12 12 ''ff'', GetOp 23 23 ''ff'']
    = outputs spec_session_step (new_session_spec 10 1 0)
      [CreateOp 1 (Some [255]) 2 ''ann'', GetOp 12 12 ''ff'', GetOp 23 23 ''ff'']"
  by (rule session_store_refines_spec) simp

text \<open>What is true of the store while no session of a user is created.\<close>

definition no_session_of :: "string \<Rightarrow> session_store \<Rightarrow> bool" where
  "no_session_of u s \<longleftrightarrow> (\<forall>(sid, sess)\<in>set (sessions s). sess_Username sess \<noteq> u)"

fun creates_for :: "string \<Rightarrow> session_op \<Rightarrow> bool" where
  "creates_for u (CreateOp _ _ _ u') = (u' = u)"
| "creates_for u _ = False"

lemma set_update_subset: "set (AList.update k v m) \<subseteq> insert (k, v) (set m)"
  by (induction m) auto

lemma no_session_cleanup: "no_session_of u s \<Longrightarrow> no_session_of u (cleanupLocked s now)"
  by (auto simp: no_session_of_def cleanupLocked_def)

lemma no_session_update:
  assumes "no_session_of u s" "sess_Username sess \<noteq> u"
  shows "no_session_of u (s\<lparr>sessions := AList.update sid sess (sessions s)\<rparr>)"
  using assms set_update_subset [of sid sess "sessions s"]
  unfolding no_session_of_def by (simp, blast)

lemma no_session_step:
  assumes no: "no_session_of u s" and e: "\<not> creates_for u e"
  shows "no_session_of u (snd (session_step s e)) \<and>
    (\<forall>sess. fst (session_step s e) = Got (Some sess) \<longrightarrow> sess_Username sess \<noteq> u)"
proof (cases e)
  case (CreateOp now1 token now2 username)
  then show ?thesis
    using e no_session_cleanup [OF no]
    by (simp add: session_step_def session_Create_def Let_def no_session_update split: option.splits)
next
  case (GetOp now1 now2 sid)
  have "sess_Username sess \<noteq> u" if "map_of (sessions (cleanupLocked s now1)) sid = Some sess" for sess
    using map_of_SomeD [OF that] no_session_cleanup [OF no, of now1] by (auto simp: no_session_of_def)
  then show ?thesis
    using no_session_cleanup [OF no, of now1]
    by (auto simp: GetOp session_step_def session_Get_def Let_def no_session_update split: option.splits)
qed (use no in \<open>auto simp: session_step_def session_Delete_def session_RevokeUser_def adelete_def no_session_of_def\<close>)

lemma no_session_run:
  "no_session_of u s \<Longrightarrow> list_all (\<lambda>e. \<not> creates_for u e) es \<Longrightarrow>
     Got (Some sess) \<in> set (outputs session_step s es) \<Longrightarrow> sess_Username sess \<noteq> u"
proof (induction es arbitrary: s)
  case (Cons e es)
  have "\<not> creates_for u e" using Cons.prems(2) by simp
  note st = no_session_step [OF Cons.prems(1) this]
  consider "fst (session_step s e) = Got (Some sess)"
    | "Got (Some sess) \<in> set (outputs session_step (snd (session_step s e)) es)"
    using Cons.prems(3) by (auto simp: outputs_Cons simp del: outputs.simps(2))
  then show ?case
    by cases (use st Cons.IH Cons.prems(2) in auto)
qed simp

text \<open>after \<open>RevokeUser u\<close> no lookup gives a session of \<open>u\<close> until a new one is created for \<open>u\<close>,
  whatever else happens in between.\<close>

theorem revoked_user_has_no_session:
  assumes "list_all (\<lambda>e. \<not> creates_for u e) es"
    and "Got (Some sess) \<in> set (outputs session_step (session_RevokeUser s u) es)"
  shows "sess_Username sess \<noteq> u"
  by (rule no_session_run [OF _ assms]) (auto simp: session_RevokeUser_def no_session_of_def)

theorem revoked_user_has_no_session_witness:
  "sess_Username \<lparr>sess_ID = ''ff'', sess_Username = ''ann'', ExpiresAt = 15, LastSeen = 5\<rparr> \<noteq> ''bob''"
proof (rule revoked_user_has_no_session)
  show "list_all (\<lambda>e. \<not> creates_for ''bob'' e) [GetOp 5 5 ''ff'']" by simp
  show "Got (Some \<lparr>sess_ID = ''ff'', sess_Username = ''ann'', ExpiresAt = 15, LastSeen = 5\<rparr>)
      \<in> set (outputs session_step (session_RevokeUser
          (final_state session_step (new_session_store 10 2)
             [CreateOp 1 (Some [255]) 2 ''ann'', CreateOp 1 (Some [254]) 2 ''bob'']) ''bob'') [GetOp 5 5 ''ff''])"
    by code_simp
qed

end
