(* ===== verification/Audit_Log.thy ===== *)
theory Audit_Log
  imports Go_Strings
begin

text \<open>
  The audit log (\<open>internal/audit/audit.go\<close>). A record is the map that \<open>Event\<close> builds, an association
  list. The log is the list of the records written, in order; the mutex makes a write atomic. The JSON text of
  a record and of its time is in theory \<open>Audit_Text\<close>; here a record holds the time itself. A nil logger logs
  nothing.
\<close>

datatype field_value = TimeValue time | TextValue string

type_synonym audit_record = "(string \<times> field_value) list"

record audit_logger =
  au_records :: "audit_record list"

text \<open>\<open>New\<close>: standard output, or a file that \<open>os.OpenFile\<close> opens for appending or not. The records are those
  written since.\<close>

definition audit_New :: "string \<Rightarrow> bool \<Rightarrow> audit_logger option" where
  "audit_New destination open_ok =
     (if destination = [] \<or> destination = ''stdout'' then Some \<lparr>au_records = []\<rparr>
      else if \<not> open_ok then None
      else Some \<lparr>au_records = []\<rparr>)"

definition Event :: "audit_logger option \<Rightarrow> time \<Rightarrow> string \<Rightarrow> (string \<times> string) list \<Rightarrow> audit_logger option" where
  "Event l now kind extra =
     (case l of
        None \<Rightarrow> None
      | Some lg \<Rightarrow>
          let base = [(''time'', TimeValue now), (''event'', TextValue kind)];
              entry = foldl (\<lambda>m kv. AList.update (fst kv) (TextValue (snd kv)) m) base extra
          in Some (lg\<lparr>au_records := au_records lg @ [entry]\<rparr>))"

definition WebLogin :: "audit_logger option \<Rightarrow> time \<Rightarrow> string \<Rightarrow> string \<Rightarrow> string \<Rightarrow> audit_logger option" where
  "WebLogin l now sourceIP username result =
     Event l now ''web_login'' [(''source_ip'', sourceIP), (''username'', username), (''result'', result)]"

definition LDAPBind :: "audit_logger option \<Rightarrow> time \<Rightarrow> string \<Rightarrow> string \<Rightarrow> string \<Rightarrow> audit_logger option" where
  "LDAPBind l now sourceIP username result =
     Event l now ''ldap_bind'' [(''source_ip'', sourceIP), (''username'', username), (''result'', result)]"

text \<open>The record of an event with these three fields.\<close>

definition login_record :: "string \<Rightarrow> time \<Rightarrow> string \<Rightarrow> string \<Rightarrow> string \<Rightarrow> audit_record" where
  "login_record kind now sourceIP username result =
     [(''time'', TimeValue now), (''event'', TextValue kind), (''source_ip'', TextValue sourceIP),
      (''username'', TextValue username), (''result'', TextValue result)]"

definition append_record :: "audit_record \<Rightarrow> audit_logger option \<Rightarrow> audit_logger option" where
  "append_record r l = map_option (\<lambda>l. l\<lparr>au_records := au_records l @ [r]\<rparr>) l"

lemma LDAPBind_record: "LDAPBind l now ip u r = append_record (login_record ''ldap_bind'' now ip u r) l"
  by (simp add: LDAPBind_def Event_def login_record_def append_record_def split: option.splits)

lemma WebLogin_record: "WebLogin l now ip u r = append_record (login_record ''web_login'' now ip u r) l"
  by (simp add: WebLogin_def Event_def login_record_def append_record_def split: option.splits)

definition records_of :: "audit_logger option \<Rightarrow> audit_record list" where
  "records_of l = (case l of None \<Rightarrow> [] | Some l \<Rightarrow> au_records l)"

lemma records_append: "records_of (append_record r (Some l)) = au_records l @ [r]"
  by (simp add: records_of_def append_record_def)

end
