(* ===== verification/Net_Addr.thy ===== *)
theory Net_Addr
  imports Go_Strings
begin

text \<open>
  The address of a peer: \<open>remoteIP\<close> of \<open>internal/ldapserver/server.go\<close> and of \<open>internal/web/server.go\<close>,
  over \<open>net.SplitHostPort\<close>. An error of \<open>SplitHostPort\<close> is \<open>None\<close>: both callers only ask whether there
  is one.
\<close>

text \<open>The text before and after the last colon.\<close>

definition cut_last_colon :: "string \<Rightarrow> (string \<times> string) option" where
  "cut_last_colon s =
     (case cut_at CHR '':'' (rev s) of (a, b, found) \<Rightarrow> if found then Some (rev b, rev a) else None)"

definition SplitHostPort :: "string \<Rightarrow> (string \<times> string) option" where
  "SplitHostPort hostport =
     (case cut_last_colon hostport of
        None \<Rightarrow> None
      | Some (before, port) \<Rightarrow>
          if take 1 hostport = ''['' then
            (case cut_at CHR '']'' hostport of (inside, after, closed) \<Rightarrow>
               if \<not> closed \<or> after = [] \<or> length inside + 1 \<noteq> length before then None
               else if CHR ''['' \<in> set (drop 1 hostport) \<or> CHR '']'' \<in> set after then None
               else Some (drop 1 inside, port))
          else if CHR '':'' \<in> set before \<or> CHR ''['' \<in> set hostport \<or> CHR '']'' \<in> set hostport then None
          else Some (before, port))"

definition remoteIP :: "string \<Rightarrow> string" where
  "remoteIP addr = (case SplitHostPort addr of None \<Rightarrow> addr | Some (host, _) \<Rightarrow> host)"

lemma cut_last_colon_append: "CHR '':'' \<notin> set port \<Longrightarrow> cut_last_colon (host @ CHR '':'' # port) = Some (host, port)"
  using cut_at_append [of "CHR '':''" "rev port" "rev host"] by (simp add: cut_last_colon_def)

text \<open>What \<open>net.TCPAddr.String\<close> writes for an IPv4 and for an IPv6 peer.\<close>

lemma remoteIP_v4:
  assumes "set ''[]:'' \<inter> set host = {}" "set ''[]:'' \<inter> set port = {}"
  shows "remoteIP (host @ '':'' @ port) = host"
proof -
  have "take 1 (host @ '':'' @ port) \<noteq> ''[''" using assms by (cases host) auto
  moreover have "cut_last_colon (host @ '':'' @ port) = Some (host, port)"
    using assms by (simp add: cut_last_colon_append)
  ultimately show ?thesis using assms by (simp add: remoteIP_def SplitHostPort_def)
qed

lemma remoteIP_v6:
  assumes "set ''[]'' \<inter> set host = {}" "set ''[]:'' \<inter> set port = {}"
  shows "remoteIP (''['' @ host @ '']:'' @ port) = host"
proof -
  have "cut_last_colon (''['' @ host @ '']:'' @ port) = Some (''['' @ host @ '']'', port)"
    using cut_last_colon_append [of port "''['' @ host @ '']''"] assms by simp
  moreover have "cut_at CHR '']'' (''['' @ host @ '']:'' @ port) = (''['' @ host, '':'' @ port, True)"
    using cut_at_append [of "CHR '']''" "''['' @ host"] assms by simp
  ultimately show ?thesis using assms by (simp add: remoteIP_def SplitHostPort_def)
qed

end
