(* ===== verification/Config.thy ===== *)
theory Config
  imports Password
begin

text \<open>
  The configuration (\<open>internal/config/config.go\<close>): environment variables give the defaults of the
  command-line flags. The environment is a function, \<open>""\<close> for a variable that is not set, as
  \<open>os.Getenv\<close> reports it. \<open>parse_int0\<close> is \<open>strconv.ParseInt(s, 0, 64)\<close>, which the package \<open>flag\<close> uses for
  the ports; \<open>flag_args\<close> is the loop of \<open>flag.Parse\<close> on \<open>os.Args[1:]\<close>. A flag error ends the
  process, which is \<open>None\<close>.
\<close>

record config =
  BindAddr :: string
  cfg_BaseDN :: string
  DBPath :: string
  AuditLog :: string
  CertFile :: string
  KeyFile :: string
  LDAPDebug :: bool
  HTTPPort :: int
  HTTPSPort :: int
  LDAPPort :: int
  LDAPSPort :: int
  SessionIdleTimeout :: duration
  SessionMax :: int
  LDAPIdleTimeout :: duration
  LDAPBindWindow :: duration
  LDAPBindLimit :: int
  LDAPSearchRate :: int
  LDAPMaxConnections :: int

definition envString :: "(string \<Rightarrow> string) \<Rightarrow> string \<Rightarrow> string \<Rightarrow> string" where
  "envString env key fallback = (if env key \<noteq> [] then env key else fallback)"

definition envInt :: "(string \<Rightarrow> string) \<Rightarrow> string \<Rightarrow> int \<Rightarrow> int" where
  "envInt env key fallback =
     (let v = env key
      in if v = [] then fallback
         else case atoi v of None \<Rightarrow> fallback | Some parsed \<Rightarrow> parsed)"

text \<open>\<open>strconv.Itoa\<close>.\<close>

definition itoa :: "int \<Rightarrow> string" where
  "itoa n = (if n < 0 then ''-'' @ decimal (nat (- n)) else decimal (nat n))"

definition Addr :: "config \<Rightarrow> int \<Rightarrow> string" where
  "Addr c port = BindAddr c @ '':'' @ itoa port"

definition env_config :: "(string \<Rightarrow> string) \<Rightarrow> config" where
  "env_config env =
     \<lparr>BindAddr = envString env ''NANOLDAP_BIND_ADDR'' ''0.0.0.0'',
      cfg_BaseDN = envString env ''NANOLDAP_BASE_DN'' ''dc=example,dc=com'',
      DBPath = envString env ''NANOLDAP_DB_PATH'' ''nanoldap.db'',
      AuditLog = envString env ''NANOLDAP_AUDIT_LOG'' ''stdout'',
      CertFile = envString env ''NANOLDAP_CERT_FILE'' ''cert.pem'',
      KeyFile = envString env ''NANOLDAP_KEY_FILE'' ''key.pem'',
      LDAPDebug = False,
      HTTPPort = envInt env ''NANOLDAP_HTTP_PORT'' 0,
      HTTPSPort = envInt env ''NANOLDAP_HTTPS_PORT'' 0,
      LDAPPort = envInt env ''NANOLDAP_LDAP_PORT'' 0,
      LDAPSPort = envInt env ''NANOLDAP_LDAPS_PORT'' 0,
      SessionIdleTimeout = 15 * minute,
      SessionMax = 3,
      LDAPIdleTimeout = 5 * second,
      LDAPBindWindow = 10 * second,
      LDAPBindLimit = 3,
      LDAPSearchRate = 50,
      LDAPMaxConnections = 16\<rparr>"

section \<open>Flags\<close>

text \<open>\<open>strconv.ParseBool\<close>.\<close>

definition parse_bool :: "string \<Rightarrow> bool option" where
  "parse_bool s =
     (if s \<in> {''1'', ''t'', ''T'', ''true'', ''TRUE'', ''True''} then Some True
      else if s \<in> {''0'', ''f'', ''F'', ''false'', ''FALSE'', ''False''} then Some False
      else None)"

definition char_in :: "char \<Rightarrow> nat \<Rightarrow> nat \<Rightarrow> bool" where
  "char_in c lo hi \<longleftrightarrow> lo \<le> of_char c \<and> of_char c \<le> hi"

definition digit_value :: "char \<Rightarrow> nat option" where
  "digit_value c =
     (if char_in c 48 57 then Some (of_char c - 48)
      else if char_in c 97 122 then Some (of_char c - 97 + 10)
      else if char_in c 65 90 then Some (of_char c - 65 + 10)
      else None)"

text \<open>The base that the prefix of a number selects, and what is left of it.\<close>

definition number_base :: "string \<Rightarrow> nat \<times> string" where
  "number_base s =
     (case s of
        c # d # e # r \<Rightarrow>
          if c \<noteq> CHR ''0'' then (10, s)
          else if ascii_lower_char d = CHR ''b'' then (2, e # r)
          else if ascii_lower_char d = CHR ''o'' then (8, e # r)
          else if ascii_lower_char d = CHR ''x'' then (16, e # r)
          else (8, tl s)
      | c # r \<Rightarrow> if c = CHR ''0'' then (8, r) else (10, s)
      | [] \<Rightarrow> (10, []))"

fun digits_in_base :: "nat \<Rightarrow> int \<Rightarrow> string \<Rightarrow> int option" where
  "digits_in_base base acc [] = Some acc"
| "digits_in_base base acc (c # cs) =
     (if c = CHR ''_'' then digits_in_base base acc cs
      else case digit_value c of
             None \<Rightarrow> None
           | Some d \<Rightarrow> if d \<ge> base then None else digits_in_base base (acc * int base + int d) cs)"

text \<open>\<open>underscoreOK\<close>: an underscore stands between digits, or between the base prefix and a digit. The
  state is the class of the character before: a digit \<open>0\<close>, an underscore \<open>_\<close>, or something else.\<close>

fun underscore_loop :: "bool \<Rightarrow> char \<Rightarrow> string \<Rightarrow> bool" where
  "underscore_loop hex i [] \<longleftrightarrow> i \<noteq> CHR ''_''"
| "underscore_loop hex i (c # cs) \<longleftrightarrow>
     (if char_in c 48 57 \<or> hex \<and> char_in (ascii_lower_char c) 97 102 then underscore_loop hex CHR ''0'' cs
      else if c = CHR ''_'' then i = CHR ''0'' \<and> underscore_loop hex CHR ''_'' cs
      else i \<noteq> CHR ''_'' \<and> underscore_loop hex CHR ''!'' cs)"

definition underscore_ok :: "string \<Rightarrow> bool" where
  "underscore_ok s =
     (case s of
        c # d # r \<Rightarrow>
          if c = CHR ''0'' \<and> ascii_lower_char d \<in> {CHR ''b'', CHR ''o'', CHR ''x''}
          then underscore_loop (ascii_lower_char d = CHR ''x'') CHR ''0'' r
          else underscore_loop False CHR ''^'' s
      | _ \<Rightarrow> underscore_loop False CHR ''^'' s)"

definition parse_int0 :: "string \<Rightarrow> int option" where
  "parse_int0 s =
     (let (neg, u) = (case s of
            c # cs \<Rightarrow> if c = CHR ''-'' then (True, cs) else if c = CHR ''+'' then (False, cs) else (False, s)
          | [] \<Rightarrow> (False, []));
          (base, ds) = number_base u
      in if u = [] then None
         else case digits_in_base base 0 ds of
           None \<Rightarrow> None
         | Some n \<Rightarrow>
             if CHR ''_'' \<in> set ds \<and> \<not> underscore_ok u then None
             else let v = (if neg then - n else n)
                  in if v < - (2 ^ 63) \<or> v \<ge> 2 ^ 63 then None else Some v)"

definition set_int :: "(int \<Rightarrow> config \<Rightarrow> config) \<Rightarrow> string \<Rightarrow> config \<Rightarrow> config option" where
  "set_int f v c = map_option (\<lambda>n. f n c) (parse_int0 v)"

text \<open>\<open>Set\<close> of the flag of this name; \<open>None\<close> for an unknown name or a bad value.\<close>

definition set_flag :: "string \<Rightarrow> string \<Rightarrow> config \<Rightarrow> config option" where
  "set_flag name v c =
     (if name = ''bind-addr'' then Some (c\<lparr>BindAddr := v\<rparr>)
      else if name = ''base-dn'' then Some (c\<lparr>cfg_BaseDN := v\<rparr>)
      else if name = ''db-path'' then Some (c\<lparr>DBPath := v\<rparr>)
      else if name = ''audit-log'' then Some (c\<lparr>AuditLog := v\<rparr>)
      else if name = ''cert-file'' then Some (c\<lparr>CertFile := v\<rparr>)
      else if name = ''key-file'' then Some (c\<lparr>KeyFile := v\<rparr>)
      else if name = ''ldap-debug'' then map_option (\<lambda>b. c\<lparr>LDAPDebug := b\<rparr>) (parse_bool v)
      else if name = ''http-port'' then set_int (\<lambda>n c. c\<lparr>HTTPPort := n\<rparr>) v c
      else if name = ''https-port'' then set_int (\<lambda>n c. c\<lparr>HTTPSPort := n\<rparr>) v c
      else if name = ''ldap-port'' then set_int (\<lambda>n c. c\<lparr>LDAPPort := n\<rparr>) v c
      else if name = ''ldaps-port'' then set_int (\<lambda>n c. c\<lparr>LDAPSPort := n\<rparr>) v c
      else None)"

text \<open>\<open>flag.Parse\<close>: what the first arguments are. It stops at the first argument that is no flag, and
  after \<open>--\<close>; the value of a flag that is not boolean may be the next argument.\<close>

datatype flag_step = FlagsDone | FlagError | FlagSet string string "string list"

definition parse_one :: "string list \<Rightarrow> flag_step" where
  "parse_one args =
     (case args of
        [] \<Rightarrow> FlagsDone
      | s # args \<Rightarrow>
          if length s < 2 \<or> hd s \<noteq> CHR ''-'' then FlagsDone
          else if s = ''--'' then FlagsDone
          else
            let name = (if s ! 1 = CHR ''-'' then drop 2 s else drop 1 s)
            in if name = [] \<or> hd name = CHR ''-'' \<or> hd name = CHR ''='' then FlagError
               else case cut_at CHR ''='' name of (key, val, hasValue) \<Rightarrow>
                 if hasValue then FlagSet key val args
                 else if key = ''ldap-debug'' then FlagSet key ''true'' args
                 else (case args of [] \<Rightarrow> FlagError | val # args \<Rightarrow> FlagSet key val args))"

lemma parse_one_shorter: "parse_one args = FlagSet key v rest \<Longrightarrow> length rest < length args"
  by (auto simp: parse_one_def Let_def split: list.splits if_splits prod.splits)

function flag_args :: "string list \<Rightarrow> config \<Rightarrow> config option" where
  "flag_args args c =
     (case parse_one args of
        FlagsDone \<Rightarrow> Some c
      | FlagError \<Rightarrow> None
      | FlagSet key val rest \<Rightarrow>
          (case set_flag key val c of None \<Rightarrow> None | Some c \<Rightarrow> flag_args rest c))"
  by pat_completeness auto
termination
  by (relation "measure (\<lambda>(args, c). length args)") (auto dest: parse_one_shorter)

declare flag_args.simps [simp del]

definition Load :: "(string \<Rightarrow> string) \<Rightarrow> string list \<Rightarrow> config option" where
  "Load env args = flag_args args (env_config env)"

section \<open>Defaults and limits\<close>

text \<open>The limits have no flag and no variable.\<close>

definition fixed_limits :: "config \<Rightarrow> bool" where
  "fixed_limits c \<longleftrightarrow> SessionIdleTimeout c = 15 * minute \<and> SessionMax c = 3 \<and> LDAPIdleTimeout c = 5 * second \<and>
     LDAPBindWindow c = 10 * second \<and> LDAPBindLimit c = 3 \<and> LDAPSearchRate c = 50 \<and> LDAPMaxConnections c = 16"

lemma set_flag_limits: "set_flag name v c = Some c' \<Longrightarrow> fixed_limits c \<Longrightarrow> fixed_limits c'"
  by (auto simp: set_flag_def set_int_def fixed_limits_def split: if_splits)

lemma flag_args_limits: "flag_args args c = Some c' \<Longrightarrow> fixed_limits c \<Longrightarrow> fixed_limits c'"
proof (induction args c rule: flag_args.induct)
  case (1 args c)
  note run = "1.prems"(1) [unfolded flag_args.simps [of args c]]
  show ?case
    using run "1.IH" "1.prems"(2) set_flag_limits
    by (auto split: flag_step.splits option.splits)
qed

section \<open>Properties\<close>

text \<open>no environment and no command line changes a limit: whenever the configuration loads, sessions
  expire after 15 minutes and are at most 3, LDAP connections time out after 5 seconds and are at most
  16, and the bind and search limits are 3 in 10 seconds and 50.\<close>

theorem Load_keeps_limits:
  assumes "Load env args = Some c"
  shows "fixed_limits c"
  by (rule flag_args_limits [OF assms [unfolded Load_def]]) (simp add: fixed_limits_def env_config_def)

theorem Load_keeps_limits_witness:
  "fixed_limits ((env_config (\<lambda>_. []))\<lparr>HTTPSPort := 8443\<rparr>)"
proof (rule Load_keeps_limits)
  have "parse_int0 ''8443'' = Some 8443"
    by (simp add: parse_int0_def number_base_def digit_value_def char_in_def)
  then show "Load (\<lambda>_. []) [''--https-port'', ''8443'', ''x''] = Some ((env_config (\<lambda>_. []))\<lparr>HTTPSPort := 8443\<rparr>)"
    by (simp add: Load_def flag_args.simps parse_one_def cut_at_def set_flag_def set_int_def)
qed

end
