(* ===== verification/Web_Server.thy ===== *)
theory Web_Server
  imports Store Session Audit_Log Net_Addr Config
begin

text \<open>
  The web administration (\<open>internal/web/server.go\<close>). A request is what \<open>net/http\<close> hands to a handler: the
  method, the cleaned path, the cookies, the parsed form (\<open>None\<close> when \<open>ParseForm\<close> fails), the address of the
  peer, whether it came over TLS, and the header \<open>HX-Request\<close>. A handler adds to the response it is given and
  changes the state; \<open>None\<close> is a panic of \<open>argon2.IDKey\<close>, which \<open>net/http\<close> turns into an aborted
  connection. A rendered page is the name of its template with the data handed to it. \<open>error_text\<close> is the
  text of an error. Redirects and errors carry no modelled body but their text.
\<close>

record request =
  rq_method :: string
  rq_path :: string
  rq_cookies :: "(string \<times> string) list"
  rq_form :: "(string \<times> string list) list option"
  rq_RemoteAddr :: string
  rq_tls :: bool
  rq_hx :: string

record pageData =
  pg_Title :: string
  pg_Error :: string
  pg_CurrentUser :: "user option"
  pg_Users :: "user list"
  pg_Groups :: "group list"
  pg_BaseDN :: string
  pg_View :: string

datatype body = NoBody | Page string pageData | ErrorText string | CertPEM | AssetFile string

record cookie =
  ck_Name :: string
  ck_Value :: string
  ck_Path :: string
  ck_Secure :: bool
  ck_HttpOnly :: bool
  ck_SameSiteStrict :: bool
  ck_Expires :: "time option"
  ck_MaxAge :: int

record response =
  rs_status :: int
  rs_headers :: "(string \<times> string) list"
  rs_cookies :: "cookie list"
  rs_body :: body

record web =
  wb_world :: world
  wb_settings :: dir_settings
  wb_sessions :: session_store
  wb_audit :: "audit_logger option"

type_synonym error_texts = "store_error \<Rightarrow> string"
type_synonym handler = "request \<Rightarrow> user \<Rightarrow> response \<Rightarrow> web \<Rightarrow> response option \<times> web"

definition sessionCookieName :: string where
  "sessionCookieName = ''nanoldap_session''"

definition new_web :: "config \<Rightarrow> dir_settings \<Rightarrow> world \<Rightarrow> session_store \<Rightarrow> audit_logger option \<Rightarrow> web" where
  "new_web cfg settings w sess audit =
     \<lparr>wb_world = w, wb_settings = settings, wb_sessions = sess, wb_audit = audit\<rparr>"

definition wb_now :: "web \<Rightarrow> time" where
  "wb_now s = w_now (wb_world s)"

section \<open>Package \<open>net/http\<close>\<close>

definition empty_response :: response where
  "empty_response = \<lparr>rs_status = 200, rs_headers = [], rs_cookies = [], rs_body = NoBody\<rparr>"

definition set_header :: "string \<Rightarrow> string \<Rightarrow> response \<Rightarrow> response" where
  "set_header k v w = w\<lparr>rs_headers := AList.update k v (rs_headers w)\<rparr>"

definition Redirect :: "string \<Rightarrow> int \<Rightarrow> response \<Rightarrow> response" where
  "Redirect url code w = (set_header ''Location'' url w)\<lparr>rs_status := code\<rparr>"

definition http_Error :: "string \<Rightarrow> int \<Rightarrow> response \<Rightarrow> response" where
  "http_Error text code w =
     (set_header ''X-Content-Type-Options'' ''nosniff'' (set_header ''Content-Type'' ''text/plain; charset=utf-8'' w))
       \<lparr>rs_status := code, rs_body := ErrorText text\<rparr>"

definition Form_Get :: "(string \<times> string list) list \<Rightarrow> string \<Rightarrow> string" where
  "Form_Get form key = (case map_of form key of Some (v # _) \<Rightarrow> v | _ \<Rightarrow> [])"

definition Form_values :: "(string \<times> string list) list \<Rightarrow> string \<Rightarrow> string list" where
  "Form_values form key = (case map_of form key of Some vs \<Rightarrow> vs | None \<Rightarrow> [])"

section \<open>Helpers of the package\<close>

definition run_store :: "'a io \<Rightarrow> web \<Rightarrow> (store_error + 'a) \<times> web" where
  "run_store m s = (case m (wb_world s) of (r, w) \<Rightarrow> (r, s\<lparr>wb_world := w\<rparr>))"

definition revoke :: "string \<Rightarrow> web \<Rightarrow> web" where
  "revoke username s = s\<lparr>wb_sessions := session_RevokeUser (wb_sessions s) username\<rparr>"

definition audit_login :: "web \<Rightarrow> request \<Rightarrow> string \<Rightarrow> string \<Rightarrow> web" where
  "audit_login s r username result =
     s\<lparr>wb_audit := WebLogin (wb_audit s) (wb_now s) (remoteIP (rq_RemoteAddr r)) username result\<rparr>"

definition requestIsSecure :: "request \<Rightarrow> bool" where
  "requestIsSecure r = rq_tls r"

definition htmxRequest :: "request \<Rightarrow> bool" where
  "htmxRequest r = equal_fold (rq_hx r) ''true''"

definition chooseTemplate :: "request \<Rightarrow> string \<Rightarrow> string \<Rightarrow> string" where
  "chooseTemplate r full_page partial_page = (if htmxRequest r then partial_page else full_page)"

definition web_baseDN :: "web \<Rightarrow> string" where
  "web_baseDN s = BaseDN (wb_settings s)"

definition render :: "string \<Rightarrow> pageData \<Rightarrow> int \<Rightarrow> response \<Rightarrow> response" where
  "render name data status w =
     (set_header ''Content-Type'' ''text/html; charset=utf-8'' w)\<lparr>rs_status := status, rs_body := Page name data\<rparr>"

definition add_cookie :: "cookie \<Rightarrow> response \<Rightarrow> response" where
  "add_cookie c w = w\<lparr>rs_cookies := rs_cookies w @ [c]\<rparr>"

definition setSessionCookie :: "config \<Rightarrow> web \<Rightarrow> request \<Rightarrow> string \<Rightarrow> response \<Rightarrow> response" where
  "setSessionCookie cfg s r v = add_cookie
     \<lparr>ck_Name = sessionCookieName, ck_Value = v, ck_Path = ''/'', ck_Secure = requestIsSecure r, ck_HttpOnly = True,
      ck_SameSiteStrict = True, ck_Expires = Some (wb_now s + SessionIdleTimeout cfg), ck_MaxAge = 0\<rparr>"

definition clearSessionCookie :: "request \<Rightarrow> response \<Rightarrow> response" where
  "clearSessionCookie r = add_cookie
     \<lparr>ck_Name = sessionCookieName, ck_Value = [], ck_Path = ''/'', ck_Secure = requestIsSecure r, ck_HttpOnly = True,
      ck_SameSiteStrict = True, ck_Expires = None, ck_MaxAge = -1\<rparr>"

definition withHeaders :: "bool \<Rightarrow> response \<Rightarrow> response" where
  "withHeaders secure w =
     (let w = set_header ''X-Content-Type-Options'' ''nosniff'' w;
          w = set_header ''X-Frame-Options'' ''DENY'' w;
          w = set_header ''Referrer-Policy'' ''no-referrer'' w
      in if secure then set_header ''Strict-Transport-Security'' ''max-age=31536000; includeSubDomains'' w else w)"

section \<open>Sessions and access\<close>

definition currentUser :: "request \<Rightarrow> web \<Rightarrow> (user \<times> string) option \<times> web" where
  "currentUser r s =
     (case map_of (rq_cookies r) sessionCookieName of
        None \<Rightarrow> (None, s)
      | Some sid \<Rightarrow>
          (case session_Get (wb_sessions s) (wb_now s) (wb_now s) sid of
             (None, ss) \<Rightarrow> (None, s\<lparr>wb_sessions := ss\<rparr>)
           | (Some sess, ss) \<Rightarrow>
               (case run_store (GetUserByUsername (sess_Username sess)) (s\<lparr>wb_sessions := ss\<rparr>) of
                  (Inl _, s) \<Rightarrow> (None, revoke (sess_Username sess) s)
                | (Inr user, s) \<Rightarrow>
                    if u_Disabled user then (None, revoke (sess_Username sess) s)
                    else (Some (user, sess_ID sess), s))))"

definition withAdminAuth :: "config \<Rightarrow> handler \<Rightarrow> request \<Rightarrow> response \<Rightarrow> web \<Rightarrow> response option \<times> web" where
  "withAdminAuth cfg next r w s =
     (case currentUser r s of
        (None, s) \<Rightarrow>
          (Some (if rq_method r = ''GET'' then Redirect ''/login'' 303 (clearSessionCookie r w)
                 else http_Error ''forbidden'' 403 (clearSessionCookie r w)), s)
      | (Some (user, sessionID), s) \<Rightarrow>
          if \<not> IsMemberOf user [''admins''] then
            (Some (if rq_method r = ''GET'' then Redirect ''/login'' 303 (clearSessionCookie r w)
                   else http_Error ''forbidden'' 403 (clearSessionCookie r w)), s)
          else next r user (setSessionCookie cfg s r sessionID w) s)"

section \<open>Panels\<close>

definition page :: "string \<Rightarrow> string \<Rightarrow> user option \<Rightarrow> user list \<Rightarrow> group list \<Rightarrow> string \<Rightarrow> string \<Rightarrow> pageData" where
  "page title err current users groups base view =
     \<lparr>pg_Title = title, pg_Error = err, pg_CurrentUser = current, pg_Users = users, pg_Groups = groups,
      pg_BaseDN = base, pg_View = view\<rparr>"

definition login_page :: "string \<Rightarrow> pageData" where
  "login_page err = page ''Login'' err None [] [] [] []"

text \<open>\<open>users, _ := s.store.ListUsers(ctx)\<close>: nil when there is an error.\<close>

definition or_nil :: "'a list io \<Rightarrow> web \<Rightarrow> 'a list \<times> web" where
  "or_nil m s = (case run_store m s of (Inl _, s) \<Rightarrow> ([], s) | (Inr xs, s) \<Rightarrow> (xs, s))"

definition renderUsersPanel :: "request \<Rightarrow> user \<Rightarrow> int \<Rightarrow> response \<Rightarrow> web \<Rightarrow> response \<times> web" where
  "renderUsersPanel r current status w s =
     (case run_store ListUsers s of
        (Inl _, s) \<Rightarrow> (http_Error ''failed to load users'' 500 w, s)
      | (Inr users, s) \<Rightarrow>
          (case run_store ListGroups s of
             (Inl _, s) \<Rightarrow> (http_Error ''failed to load groups'' 500 w, s)
           | (Inr groups, s) \<Rightarrow>
               (render (if htmxRequest r then ''users_panel.html'' else ''users.html'')
                  (page ''Users'' [] (Some current) users groups (web_baseDN s) ''users'') status w, s)))"

definition renderUsersPanelError :: "request \<Rightarrow> user \<Rightarrow> string \<Rightarrow> int \<Rightarrow> response \<Rightarrow> web \<Rightarrow> response \<times> web" where
  "renderUsersPanelError r current message status w s =
     (let (users, s) = or_nil ListUsers s;
          (groups, s) = or_nil ListGroups s
      in (render (if htmxRequest r then ''users_panel.html'' else ''users.html'')
            (page ''Users'' message (Some current) users groups (web_baseDN s) ''users'') status w, s))"

definition renderGroupsPanel :: "request \<Rightarrow> user \<Rightarrow> int \<Rightarrow> response \<Rightarrow> web \<Rightarrow> response \<times> web" where
  "renderGroupsPanel r current status w s =
     (case run_store ListGroups s of
        (Inl _, s) \<Rightarrow> (http_Error ''failed to load groups'' 500 w, s)
      | (Inr groups, s) \<Rightarrow>
          (render (chooseTemplate r ''groups.html'' ''groups_panel.html'')
             (page ''Groups'' [] (Some current) [] groups (web_baseDN s) ''groups'') status w, s))"

definition renderGroupsPanelError :: "request \<Rightarrow> user \<Rightarrow> string \<Rightarrow> int \<Rightarrow> response \<Rightarrow> web \<Rightarrow> response \<times> web" where
  "renderGroupsPanelError r current message status w s =
     (let (groups, s) = or_nil ListGroups s
      in (render (chooseTemplate r ''groups.html'' ''groups_panel.html'')
            (page ''Groups'' message (Some current) [] groups (web_baseDN s) ''groups'') status w, s))"

definition renderPanelForView ::
  "request \<Rightarrow> user \<Rightarrow> string \<Rightarrow> string \<Rightarrow> int \<Rightarrow> response \<Rightarrow> web \<Rightarrow> response \<times> web" where
  "renderPanelForView r current view message status w s =
     (if to_lower (trim_space view) = ''groups'' then
        (if message = [] then renderGroupsPanel r current status w s
         else renderGroupsPanelError r current message status w s)
      else
        (if message = [] then renderUsersPanel r current status w s
         else renderUsersPanelError r current message status w s))"

definition answered :: "response \<times> web \<Rightarrow> response option \<times> web" where
  "answered ws = (case ws of (w, s) \<Rightarrow> (Some w, s))"

section \<open>Handlers without a session\<close>

definition handleCACert :: "response \<Rightarrow> response" where
  "handleCACert w = (set_header ''Content-Type'' ''application/x-pem-file'' w)\<lparr>rs_body := CertPEM\<rparr>"

definition handleLoginPage :: "request \<Rightarrow> response \<Rightarrow> web \<Rightarrow> response option \<times> web" where
  "handleLoginPage r w s =
     (case currentUser r s of
        (Some _, s) \<Rightarrow> (Some (Redirect ''/users'' 303 w), s)
      | (None, s) \<Rightarrow> (Some (render ''login.html'' (login_page []) 200 w), s))"

definition handleLogin :: "idkey \<Rightarrow> config \<Rightarrow> request \<Rightarrow> response \<Rightarrow> web \<Rightarrow> response option \<times> web" where
  "handleLogin idkey cfg r w s =
     (case rq_form r of
        None \<Rightarrow> (Some (http_Error ''invalid form submission'' 400 w), s)
      | Some form \<Rightarrow>
          let username = trim_space (Form_Get form ''username'');
              password = Form_Get form ''password''
          in case run_store (AuthenticateUser idkey username password) s of
               (Inl err, s) \<Rightarrow>
                 if err = AuthFailure Argon2Panic then (None, s)
                 else (Some (render ''login.html'' (login_page ''Invalid credentials.'') 401 w),
                       audit_login s r username ''invalid_credentials'')
             | (Inr user, s) \<Rightarrow>
                 if u_Disabled user then
                   (Some (render ''login.html'' (login_page ''User is disabled.'') 403 w),
                    audit_login s r username ''user_disabled'')
                 else if \<not> IsMemberOf user [''admins''] then
                   (Some (render ''login.html''
                      (login_page ''Only members of the admins group may access the web UI.'') 403 w),
                    audit_login s r username ''forbidden'')
                 else
                   let (token, world) = take_random (wb_world s);
                       (created, ss) = session_Create (wb_sessions s) (wb_now s) token (wb_now s) (u_Username user);
                       s = s\<lparr>wb_world := (if created = Inl ErrSessionLimit then wb_world s else world), wb_sessions := ss\<rparr>
                   in case created of
                        Inl ErrSessionLimit \<Rightarrow>
                          (Some (render ''login.html'' (login_page ''The global session limit has been reached.'') 429 w),
                           audit_login s r username ''session_limit'')
                      | Inl RandFailed \<Rightarrow> (Some (http_Error ''unable to create session'' 500 w), s)
                      | Inr sess \<Rightarrow>
                          let s = audit_login s r username ''success''
                          in (Some (Redirect ''/users'' 303 (setSessionCookie cfg s r (sess_ID sess) w)), s))"

section \<open>Handlers of administrators\<close>

definition handleLogout :: handler where
  "handleLogout r current w s =
     (let s = (case map_of (rq_cookies r) sessionCookieName of
                 None \<Rightarrow> s | Some sid \<Rightarrow> s\<lparr>wb_sessions := session_Delete (wb_sessions s) sid\<rparr>)
      in (Some (Redirect ''/login'' 303 (clearSessionCookie r w)), s))"

definition handleUsersPage :: handler where
  "handleUsersPage r current w s = answered (renderUsersPanel r current 200 w s)"

definition form_input :: "(string \<times> string list) list \<Rightarrow> user_input" where
  "form_input form = \<lparr>in_Username = Form_Get form ''username'', in_Password = Form_Get form ''password'',
     in_DisplayName = Form_Get form ''display_name'', in_Disabled = (Form_Get form ''disabled'' = ''on''),
     in_GroupNames = Form_values form ''group''\<rparr>"

definition form_group :: "(string \<times> string list) list \<Rightarrow> group_input" where
  "form_group form = \<lparr>in_Name = Form_Get form ''name'', in_Description = Form_Get form ''description''\<rparr>"

definition handleCreateUser :: "idkey \<Rightarrow> error_texts \<Rightarrow> handler" where
  "handleCreateUser idkey error_text r current w s =
     (case rq_form r of
        None \<Rightarrow> (Some (http_Error ''invalid form submission'' 400 w), s)
      | Some form \<Rightarrow>
          (case run_store (CreateUser idkey (form_input form)) s of
             (Inl err, s) \<Rightarrow>
               if err = AuthFailure Argon2Panic then (None, s)
               else answered (renderUsersPanelError r current (error_text err) 400 w s)
           | (Inr _, s) \<Rightarrow> answered (renderUsersPanel r current 201 w s)))"

text \<open>\<open>strconv.ParseInt(s, 10, 64)\<close>.\<close>

definition parse_id :: "string \<Rightarrow> int option" where
  "parse_id = atoi"

definition handleUpdateUser :: "idkey \<Rightarrow> error_texts \<Rightarrow> string \<Rightarrow> handler" where
  "handleUpdateUser idkey error_text path_id r current w s =
     (case parse_id path_id of
        None \<Rightarrow> (Some (http_Error ''invalid user id'' 400 w), s)
      | Some user_id \<Rightarrow>
          (case rq_form r of
             None \<Rightarrow> (Some (http_Error ''invalid form submission'' 400 w), s)
           | Some form \<Rightarrow>
               (case run_store (UpdateUser idkey user_id ((form_input form)\<lparr>in_Username := []\<rparr>)) s of
                  (Inl err, s) \<Rightarrow>
                    if err = AuthFailure Argon2Panic then (None, s)
                    else answered (renderUsersPanelError r current (error_text err) 400 w s)
                | (Inr updated, s) \<Rightarrow> answered (renderUsersPanel r current 200 w (revoke (u_Username updated) s)))))"

definition handleDeleteUser :: "error_texts \<Rightarrow> string \<Rightarrow> handler" where
  "handleDeleteUser error_text path_id r current w s =
     (case parse_id path_id of
        None \<Rightarrow> (Some (http_Error ''invalid user id'' 400 w), s)
      | Some user_id \<Rightarrow>
          (let s = (case run_store (GetUserByID user_id) s of
                      (Inr user, s) \<Rightarrow> revoke (u_Username user) s | (Inl _, s) \<Rightarrow> s)
           in case run_store (DeleteUser user_id) s of
                (Inl err, s) \<Rightarrow> answered (renderUsersPanelError r current (error_text err) 400 w s)
              | (Inr _, s) \<Rightarrow> answered (renderUsersPanel r current 200 w s)))"

definition handleGroupsPage :: handler where
  "handleGroupsPage r current w s = answered (renderGroupsPanel r current 200 w s)"

definition handleCreateGroup :: "error_texts \<Rightarrow> handler" where
  "handleCreateGroup error_text r current w s =
     (case rq_form r of
        None \<Rightarrow> (Some (http_Error ''invalid form submission'' 400 w), s)
      | Some form \<Rightarrow>
          (case run_store (CreateGroup (form_group form)) s of
             (Inl err, s) \<Rightarrow> answered (renderGroupsPanelError r current (error_text err) 400 w s)
           | (Inr _, s) \<Rightarrow> answered (renderGroupsPanel r current 201 w s)))"

fun revoke_all :: "string list \<Rightarrow> web \<Rightarrow> web" where
  "revoke_all [] s = s"
| "revoke_all (member # members) s = revoke_all members (revoke member s)"

definition handleUpdateGroup :: "error_texts \<Rightarrow> string \<Rightarrow> handler" where
  "handleUpdateGroup error_text path_id r current w s =
     (case parse_id path_id of
        None \<Rightarrow> (Some (http_Error ''invalid group id'' 400 w), s)
      | Some group_id \<Rightarrow>
          (case rq_form r of
             None \<Rightarrow> (Some (http_Error ''invalid form submission'' 400 w), s)
           | Some form \<Rightarrow>
               (case run_store (UpdateGroup group_id (form_group form)) s of
                  (Inl err, s) \<Rightarrow> answered (renderGroupsPanelError r current (error_text err) 400 w s)
                | (Inr updated, s) \<Rightarrow>
                    answered (renderGroupsPanel r current 200 w (revoke_all (g_MemberUIDs updated) s)))))"

definition handleDeleteGroup :: "error_texts \<Rightarrow> string \<Rightarrow> handler" where
  "handleDeleteGroup error_text path_id r current w s =
     (case parse_id path_id of
        None \<Rightarrow> (Some (http_Error ''invalid group id'' 400 w), s)
      | Some group_id \<Rightarrow>
          (let s = (case run_store (GetGroupByID group_id) s of
                      (Inr grp, s) \<Rightarrow> revoke_all (g_MemberUIDs grp) s | (Inl _, s) \<Rightarrow> s)
           in case run_store (DeleteGroup group_id) s of
                (Inl err, s) \<Rightarrow> answered (renderGroupsPanelError r current (error_text err) 400 w s)
              | (Inr _, s) \<Rightarrow> answered (renderGroupsPanel r current 200 w s)))"

definition handleUpdateBaseDN :: "error_texts \<Rightarrow> handler" where
  "handleUpdateBaseDN error_text r current w s =
     (case rq_form r of
        None \<Rightarrow> (Some (http_Error ''invalid form submission'' 400 w), s)
      | Some form \<Rightarrow>
          let view = Form_Get form ''view''
          in case NormalizeBaseDN (Form_Get form ''base_dn'') of
               Inl err \<Rightarrow> answered (renderPanelForView r current view (error_text (BadBaseDN err)) 400 w s)
             | Inr normalized \<Rightarrow>
                 (case run_store (store_SetBaseDN normalized) s of
                    (Inl err, s) \<Rightarrow> answered (renderPanelForView r current view (error_text err) 500 w s)
                  | (Inr _, s) \<Rightarrow>
                      (case SetBaseDN (wb_settings s) normalized of
                         (Inl err, settings) \<Rightarrow>
                           answered (renderPanelForView r current view (error_text (BadBaseDN err)) 500 w
                             (s\<lparr>wb_settings := settings\<rparr>))
                       | (Inr _, settings) \<Rightarrow>
                           answered (renderPanelForView r current view [] 200 w (s\<lparr>wb_settings := settings\<rparr>)))))"

section \<open>Routes\<close>

text \<open>The value of the wildcard in a pattern like \<open>/users/{id}\<close>: one path segment, not empty.\<close>

definition path_id :: "string \<Rightarrow> string \<Rightarrow> string option" where
  "path_id start path =
     (if has_prefix path start then
        let v = drop (length start) path in if v = [] \<or> CHR ''/'' \<in> set v then None else Some v
      else None)"

text \<open>A pattern with method \<open>GET\<close> also matches \<open>HEAD\<close>; a path that matches a pattern only with another method
  is answered with status 405, and every path matches \<open>GET /\<close>.\<close>

definition is_get :: "request \<Rightarrow> bool" where
  "is_get r \<longleftrightarrow> rq_method r = ''GET'' \<or> rq_method r = ''HEAD''"

definition PublicMux :: "request \<Rightarrow> web \<Rightarrow> response option \<times> web" where
  "PublicMux r s =
     (let w = withHeaders False empty_response in
      if rq_path r = ''/ca.crt'' then
        (if is_get r then (Some (handleCACert w), s) else (Some (http_Error ''Method Not Allowed'' 405 w), s))
      else (Some (http_Error ''404 page not found'' 404 w), s))"

definition SecureMux :: "idkey \<Rightarrow> error_texts \<Rightarrow> config \<Rightarrow> request \<Rightarrow> web \<Rightarrow> response option \<times> web" where
  "SecureMux idkey error_text cfg r s =
     (let w = withHeaders True empty_response; path = rq_path r in
      if is_get r then
        (if has_prefix path ''/assets/'' then (Some (w\<lparr>rs_body := AssetFile (drop 8 path)\<rparr>), s)
         else if path = ''/ca.crt'' then (Some (handleCACert w), s)
         else if path = ''/login'' then handleLoginPage r w s
         else if path = ''/users'' then withAdminAuth cfg handleUsersPage r w s
         else if path = ''/groups'' then withAdminAuth cfg handleGroupsPage r w s
         else withAdminAuth cfg (\<lambda>r current w s. (Some (Redirect ''/users'' 303 w), s)) r w s)
      else if rq_method r = ''POST'' then
        (if path = ''/login'' then handleLogin idkey cfg r w s
         else if path = ''/logout'' then withAdminAuth cfg handleLogout r w s
         else if path = ''/users'' then withAdminAuth cfg (handleCreateUser idkey error_text) r w s
         else if path = ''/groups'' then withAdminAuth cfg (handleCreateGroup error_text) r w s
         else (Some (http_Error ''Method Not Allowed'' 405 w), s))
      else if rq_method r = ''PUT'' then
        (if path = ''/settings/base-dn'' then withAdminAuth cfg (handleUpdateBaseDN error_text) r w s
         else case path_id ''/users/'' path of
           Some i \<Rightarrow> withAdminAuth cfg (handleUpdateUser idkey error_text i) r w s
         | None \<Rightarrow> (case path_id ''/groups/'' path of
             Some i \<Rightarrow> withAdminAuth cfg (handleUpdateGroup error_text i) r w s
           | None \<Rightarrow> (Some (http_Error ''Method Not Allowed'' 405 w), s)))
      else if rq_method r = ''DELETE'' then
        (case path_id ''/users/'' path of
           Some i \<Rightarrow> withAdminAuth cfg (handleDeleteUser error_text i) r w s
         | None \<Rightarrow> (case path_id ''/groups/'' path of
             Some i \<Rightarrow> withAdminAuth cfg (handleDeleteGroup error_text i) r w s
           | None \<Rightarrow> (Some (http_Error ''Method Not Allowed'' 405 w), s)))
      else (Some (http_Error ''Method Not Allowed'' 405 w), s))"

end
