(* ===== verification/Store_Laws.thy ===== *)
theory Store_Laws
  imports Store
begin

text \<open>
  What the store guarantees: the invariant of the tables under every operation and every fault, the
  atomicity of the operations that use transactions, what authentication means, and the state the
  defaults leave behind.
\<close>

section \<open>The invariant of the tables\<close>

definition trimmed :: "string \<Rightarrow> bool" where
  "trimmed s \<longleftrightarrow> s \<noteq> [] \<and> trim_space s = s"

definition stored_hash :: "string \<Rightarrow> bool" where
  "stored_hash phc \<longleftrightarrow> (\<exists>salt hash. phc = format_phc salt hash)"

definition user_row_ok :: "int \<Rightarrow> user_row \<Rightarrow> bool" where
  "user_row_ok seq r \<longleftrightarrow> 0 < ur_id r \<and> ur_id r \<le> seq \<and> trimmed (ur_username r) \<and>
     trimmed (ur_display_name r) \<and> ur_disabled r \<in> {0, 1} \<and> stored_hash (ur_password_hash r)"

definition users_ok :: "int \<Rightarrow> user_row list \<Rightarrow> bool" where
  "users_ok seq rs \<longleftrightarrow> 0 \<le> seq \<and> distinct (map ur_id rs) \<and> distinct (map ur_username rs) \<and>
     (\<forall>r\<in>set rs. user_row_ok seq r)"

definition groups_ok :: "int \<Rightarrow> group_row list \<Rightarrow> bool" where
  "groups_ok seq rs \<longleftrightarrow> 0 \<le> seq \<and> distinct (map gr_id rs) \<and> distinct (map gr_name rs) \<and>
     (\<forall>r\<in>set rs. 0 < gr_id r \<and> gr_id r \<le> seq \<and> trimmed (gr_name r))"

definition memberships_ok :: "db \<Rightarrow> bool" where
  "memberships_ok d \<longleftrightarrow> distinct (t_user_groups d) \<and>
     (\<forall>(u, g)\<in>set (t_user_groups d). u \<in> ur_id ` set (t_users d) \<and> g \<in> gr_id ` set (t_groups d))"

definition settings_ok :: "(string \<times> string) list \<Rightarrow> bool" where
  "settings_ok kv \<longleftrightarrow> distinct (map fst kv) \<and> (\<forall>v. map_of kv ''base_dn'' = Some v \<longrightarrow> normalized_base_dn v)"

definition db_inv :: "db \<Rightarrow> bool" where
  "db_inv d \<longleftrightarrow> users_ok (users_seq d) (t_users d) \<and> groups_ok (groups_seq d) (t_groups d) \<and>
     memberships_ok d \<and> settings_ok (t_settings d) \<and> foreign_keys d"

lemma trimmed_trim_space: "trim_space s \<noteq> [] \<Longrightarrow> trimmed (trim_space s)"
  by (simp add: trimmed_def)

lemma trimmed_display: "trim_space username \<noteq> [] \<Longrightarrow> trimmed (displayOrUsername display username)"
  by (simp add: displayOrUsername_def trimmed_def)

subsection \<open>Statements keep it\<close>

lemma keeps_insert_user [keeps_intros]:
  assumes "trimmed username" "trimmed display" "stored_hash phc"
  shows "keeps db_inv (sql_insert_user username phc display (boolInt b) c t) (\<lambda>_. True)"
  unfolding sql_insert_user_def
proof (rule keeps_exec)
  fix d x d'
  assume inv: "db_inv d"
    and d': "(if username \<in> ur_username ` set (t_users d) then Inl UniqueViolation
       else if users_seq d \<ge> max_rowid then Inl DatabaseFull
       else Inr (users_seq d + 1,
         d\<lparr>t_users := t_users d @ [\<lparr>ur_id = users_seq d + 1, ur_username = username,
             ur_password_hash = phc, ur_display_name = display, ur_disabled = boolInt b,
             ur_created_at = c, ur_updated_at = t\<rparr>],
           users_seq := users_seq d + 1\<rparr>)) = Inr (x, d')"
  have "users_seq d + 1 \<notin> ur_id ` set (t_users d)"
    using inv by (fastforce simp: db_inv_def users_ok_def user_row_ok_def)
  moreover have "user_row_ok (users_seq d + 1) r" if "r \<in> set (t_users d)" for r
    using inv that by (fastforce simp: db_inv_def users_ok_def user_row_ok_def)
  ultimately show "db_inv d' \<and> True"
    using inv d' assms
    by (auto simp: db_inv_def users_ok_def memberships_ok_def user_row_ok_def [of _ "\<lparr>ur_id = _, ur_username = _,
          ur_password_hash = _, ur_display_name = _, ur_disabled = _, ur_created_at = _, ur_updated_at = _\<rparr>"]
        boolInt_def split: if_splits)
qed

lemma keeps_insert_group [keeps_intros]:
  assumes "trimmed name"
  shows "keeps db_inv (sql_insert_group name descr) (\<lambda>_. True)"
  unfolding sql_insert_group_def
proof (rule keeps_exec)
  fix d x d'
  assume inv: "db_inv d"
    and d': "(if name \<in> gr_name ` set (t_groups d) then Inl UniqueViolation
       else if groups_seq d \<ge> max_rowid then Inl DatabaseFull
       else Inr (groups_seq d + 1,
         d\<lparr>t_groups := t_groups d @ [\<lparr>gr_id = groups_seq d + 1, gr_name = name, gr_description = descr\<rparr>],
           groups_seq := groups_seq d + 1\<rparr>)) = Inr (x, d')"
  have "groups_seq d + 1 \<notin> gr_id ` set (t_groups d)"
    using inv by (fastforce simp: db_inv_def groups_ok_def)
  then show "db_inv d' \<and> True"
    using inv d' assms by (fastforce simp: db_inv_def groups_ok_def memberships_ok_def split: if_splits)
qed

lemma keeps_insert_user_group [keeps_intros]: "keeps db_inv (sql_insert_user_group u g) (\<lambda>_. True)"
  unfolding sql_insert_user_group_def
  by (rule keeps_exec) (auto simp: db_inv_def memberships_ok_def split: if_splits)

lemma users_ok_map:
  assumes "users_ok seq rs" "\<And>r. ur_id (f r) = ur_id r" "\<And>r. ur_username (f r) = ur_username r"
    and "\<And>r. user_row_ok seq r \<Longrightarrow> user_row_ok seq (f r)"
  shows "users_ok seq (map f rs)"
proof -
  have "ur_id \<circ> f = ur_id" "ur_username \<circ> f = ur_username"
    by (simp_all add: assms(2,3) comp_def)
  then show ?thesis using assms(1,4) by (simp add: users_ok_def)
qed

lemma memberships_ok_users:
  "memberships_ok d \<Longrightarrow> (\<And>r. ur_id (f r) = ur_id r) \<Longrightarrow> memberships_ok (d\<lparr>t_users := map f (t_users d)\<rparr>)"
  by (auto simp: memberships_ok_def image_image)

lemma memberships_ok_groups:
  "memberships_ok d \<Longrightarrow> (\<And>r. gr_id (f r) = gr_id r) \<Longrightarrow> memberships_ok (d\<lparr>t_groups := map f (t_groups d)\<rparr>)"
  by (auto simp: memberships_ok_def image_image)

lemma keeps_update_user [keeps_intros]:
  assumes "trimmed display" "stored_hash phc"
  shows "keeps db_inv (sql_update_user i display phc (boolInt b) t) (\<lambda>_. True)"
  unfolding sql_update_user_def
proof (rule keeps_exec)
  fix d x d'
  let ?f = "\<lambda>r. if ur_id r = i then r\<lparr>ur_display_name := display, ur_password_hash := phc,
                ur_disabled := boolInt b, ur_updated_at := t\<rparr> else r"
  assume inv: "db_inv d" and d': "Inr ((), d\<lparr>t_users := map ?f (t_users d)\<rparr>) = Inr (x, d')"
  have "users_ok (users_seq d) (map ?f (t_users d))"
    by (rule users_ok_map) (use inv assms in \<open>simp_all add: db_inv_def user_row_ok_def boolInt_def\<close>)
  moreover have "memberships_ok (d\<lparr>t_users := map ?f (t_users d)\<rparr>)"
    by (rule memberships_ok_users) (use inv in \<open>simp_all add: db_inv_def\<close>)
  ultimately show "db_inv d' \<and> True"
    using inv d' by (auto simp: db_inv_def)
qed

lemma keeps_update_group [keeps_intros]:
  assumes "trimmed name"
  shows "keeps db_inv (sql_update_group i name descr) (\<lambda>_. True)"
  unfolding sql_update_group_def
proof (rule keeps_exec)
  fix d x d'
  let ?f = "\<lambda>r. if gr_id r = i then r\<lparr>gr_name := name, gr_description := descr\<rparr> else r"
  assume inv: "db_inv d"
    and d': "(if i \<in> gr_id ` set (t_groups d) \<and> (\<exists>r\<in>set (t_groups d). gr_id r \<noteq> i \<and> gr_name r = name)
       then Inl UniqueViolation else Inr ((), d\<lparr>t_groups := map ?f (t_groups d)\<rparr>)) = Inr (x, d')"
  have free: "gr_name r \<noteq> name" if "i \<in> gr_id ` set (t_groups d)" "r \<in> set (t_groups d)" "gr_id r \<noteq> i" for r
    using d' that by (auto split: if_splits)
  have g: "groups_ok (groups_seq d) (t_groups d)" using inv by (simp add: db_inv_def)
  have "inj_on (\<lambda>r. gr_name (?f r)) (set (t_groups d))"
    using g free by (auto simp: groups_ok_def distinct_map inj_on_def)
  then have "distinct (map gr_name (map ?f (t_groups d)))"
    using g by (simp add: groups_ok_def distinct_map comp_def)
  moreover have "map gr_id (map ?f (t_groups d)) = map gr_id (t_groups d)" by (simp add: comp_def)
  then have "distinct (map gr_id (map ?f (t_groups d)))" using g unfolding groups_ok_def by (simp only:)
  moreover have "\<forall>r\<in>set (map ?f (t_groups d)). 0 < gr_id r \<and> gr_id r \<le> groups_seq d \<and> trimmed (gr_name r)"
    using g assms by (auto simp: groups_ok_def)
  ultimately have "groups_ok (groups_seq d) (map ?f (t_groups d))"
    using g unfolding groups_ok_def by blast
  moreover have "memberships_ok (d\<lparr>t_groups := map ?f (t_groups d)\<rparr>)"
    by (rule memberships_ok_groups) (use inv in \<open>simp_all add: db_inv_def\<close>)
  ultimately show "db_inv d' \<and> True"
    using inv d' by (auto simp: db_inv_def split: if_splits)
qed

lemma keeps_delete_user [keeps_intros]: "keeps db_inv (sql_delete_user i) (\<lambda>_. True)"
  unfolding sql_delete_user_def
  by (rule keeps_exec) (fastforce simp: db_inv_def users_ok_def memberships_ok_def)

lemma keeps_delete_group [keeps_intros]: "keeps db_inv (sql_delete_group i) (\<lambda>_. True)"
  unfolding sql_delete_group_def
  by (rule keeps_exec) (fastforce simp: db_inv_def groups_ok_def memberships_ok_def)

lemma keeps_delete_user_groups [keeps_intros]: "keeps db_inv (sql_delete_user_groups i) (\<lambda>_. True)"
  unfolding sql_delete_user_groups_def
  by (rule keeps_exec) (auto simp: db_inv_def memberships_ok_def)

lemma settings_ok_update:
  "settings_ok kv \<Longrightarrow> normalized_base_dn v \<Longrightarrow> settings_ok (AList.update ''base_dn'' v kv)"
  by (auto simp: settings_ok_def distinct_update update_conv')

lemma keeps_base_dn [keeps_intros]:
  assumes "normalized_base_dn v"
  shows "keeps db_inv (sql_insert_base_dn v) (\<lambda>_. True)" "keeps db_inv (sql_upsert_base_dn v) (\<lambda>_. True)"
  unfolding sql_insert_base_dn_def sql_upsert_base_dn_def
  using settings_ok_update [OF _ assms]
  by (intro keeps_exec; auto simp: db_inv_def memberships_ok_def split: option.splits)+

subsection \<open>Operations keep it\<close>

lemma keeps_first_row:
  "(\<And>d r. db_inv d \<Longrightarrow> r \<in> set (T d) \<Longrightarrow> Q r) \<Longrightarrow> keeps db_inv (query (\<lambda>d. first_row (P d) (T d))) Q"
  by (rule keeps_query) (auto simp: first_row_def find_Some_iff split: option.splits)

text \<open>A user that was read from the table carries a stored hash and a display name.\<close>

definition loaded_user :: "user \<Rightarrow> bool" where
  "loaded_user u \<longleftrightarrow> stored_hash (u_PasswordHash u) \<and> trimmed (u_DisplayName u) \<and> trimmed (u_Username u)"

lemma loaded_scanned: "db_inv d \<Longrightarrow> r \<in> set (t_users d) \<Longrightarrow> loaded_user (scanned_user r)"
  by (auto simp: db_inv_def users_ok_def user_row_ok_def loaded_user_def scanned_user_def)

lemma keeps_user_row [keeps_intros]:
  "keeps db_inv (sql_user_by_id i) (\<lambda>r. loaded_user (scanned_user r))"
  "keeps db_inv (sql_user_by_name n) (\<lambda>r. loaded_user (scanned_user r))"
  unfolding sql_user_by_id_def sql_user_by_name_def
  by (rule keeps_first_row, erule (1) loaded_scanned)+

lemma keeps_any_query: "keeps P (query f) (\<lambda>_. True)"
  by (rule keeps_query) simp

lemma keeps_queries [keeps_intros]:
  "keeps P sql_users (\<lambda>_. True)" "keeps P sql_groups (\<lambda>_. True)" "keeps P sql_count_users (\<lambda>_. True)"
  "keeps P (sql_group_by_id i) (\<lambda>_. True)" "keeps P (sql_group_by_name n) (\<lambda>_. True)"
  "keeps P (userGroups i) (\<lambda>_. True)" "keeps P (groupMembers i) (\<lambda>_. True)"
  unfolding sql_users_def sql_groups_def sql_count_users_def sql_group_by_id_def sql_group_by_name_def
    userGroups_def sql_user_groups_def groupMembers_def sql_group_members_def
  by (simp_all add: keeps_any_query keeps_bind [OF keeps_any_query] keeps_return)

lemma keeps_scanUser:
  "keeps db_inv m (\<lambda>r. loaded_user (scanned_user r)) \<Longrightarrow> keeps db_inv (scanUser m) loaded_user"
  unfolding scanUser_def
  by (erule keeps_bind, rule keeps_bind [OF keeps_queries(6)], rule keeps_return) (simp add: loaded_user_def)

lemma keeps_scanGroup: "keeps P m (\<lambda>_. True) \<Longrightarrow> keeps P (scanGroup m) (\<lambda>_. True)"
  unfolding scanGroup_def
  by (erule keeps_bind, rule keeps_bind [OF keeps_queries(7)], rule keeps_return) simp

lemma keeps_GetUser [keeps_intros]:
  "keeps db_inv (GetUserByID i) loaded_user" "keeps db_inv (GetUserByUsername n) loaded_user"
  unfolding GetUserByID_def GetUserByUsername_def by (intro keeps_scanUser keeps_user_row)+

lemma keeps_GetGroup [keeps_intros]:
  "keeps P (GetGroupByID i) (\<lambda>_. True)" "keeps P (GetGroupByName n) (\<lambda>_. True)"
  unfolding GetGroupByID_def GetGroupByName_def by (intro keeps_scanGroup keeps_queries)+

lemma keeps_assign [keeps_intros]: "keeps db_inv (assign_names i names) (\<lambda>_. True)"
proof (induction names)
  case (Cons name names)
  have "keeps db_inv (\<lambda>w. case sql_group_by_name name w of
      (Inl e, w) \<Rightarrow> (Inl (GroupLookup name e), w) | (Inr r, w) \<Rightarrow> (Inr (gr_id r), w)) (\<lambda>_. True)"
    using keepsD [OF keeps_queries(5) [of db_inv name]]
    by (fastforce simp: keeps_def split: prod.splits sum.splits)
  then show ?case
    by (simp, rule keeps_bind) (rule keeps_bind [OF keeps_insert_user_group Cons])
qed (simp add: keeps_return)

lemma HashPassword_stored: "HashPassword idkey rnd password = Inr phc \<Longrightarrow> stored_hash phc"
  by (auto simp: HashPassword_def stored_hash_def split: option.splits)

lemma take_random_frame [io_simps]: "w_db (snd (take_random w)) = w_db w"
  "w_now (snd (take_random w)) = w_now w" "faults (snd (take_random w)) = faults w"
  by (auto simp: take_random_def split: list.splits)

lemma hash_password_db [io_simps]: "w_db (snd (hash_password idkey p w)) = w_db w"
  "w_now (snd (hash_password idkey p w)) = w_now w" "faults (snd (hash_password idkey p w)) = faults w"
  using take_random_frame [of w] by (auto simp: hash_password_def split: prod.splits sum.splits)

lemma keeps_hash_password [keeps_intros]: "keeps P (hash_password idkey p) stored_hash"
  unfolding keeps_def
  using hash_password_db(1) [of idkey p]
  by (auto simp: hash_password_def split: prod.splits sum.splits intro: HashPassword_stored)

lemma keeps_now [keeps_intros]: "keeps P now_of (\<lambda>_. True)"
  by (simp add: keeps_def now_of_def)

lemma keeps_CreateUser [keeps_intros]: "keeps db_inv (CreateUser idkey input) loaded_user"
proof (cases "trim_space (in_Username input) = [] \<or> trim_space (in_Password input) = []")
  case False
  then have t: "trimmed (trim_space (in_Username input))"
    "trimmed (displayOrUsername (in_DisplayName input) (in_Username input))"
    by (simp_all add: trimmed_trim_space trimmed_display)
  show ?thesis
    unfolding CreateUser_def assignGroupsTx_def if_not_P [OF False]
    by (rule keeps_bind [OF keeps_hash_password], rule keeps_bind [OF keeps_now],
        rule keeps_bind [OF keeps_transaction keeps_GetUser(1)], rule keeps_bind [OF keeps_insert_user [OF t]],
        assumption, rule keeps_bind [OF keeps_driver_point], rule keeps_bind [OF keeps_assign],
        rule keeps_return, rule TrueI)
qed (simp add: CreateUser_def keeps_fail)

text \<open>The body of the transaction of \<open>UpdateUser\<close>.\<close>

lemma keeps_update_body:
  "keeps db_inv
       (io_bind (getUserTx i) (\<lambda>current.
        io_bind (if trim_space (in_Password input) \<noteq> [] then hash_password idkey (in_Password input)
                 else io_return (u_PasswordHash current)) (\<lambda>passwordHash.
        let trimmed = trim_space (in_DisplayName input);
            displayName = (if trimmed \<noteq> [] then trimmed else u_DisplayName current)
        in io_bind now_of (\<lambda>now.
           io_bind (sql_update_user i displayName passwordHash (boolInt (in_Disabled input)) now) (\<lambda>_.
           io_bind (sql_delete_user_groups i) (\<lambda>_.
           assignGroupsTx i (in_GroupNames input))))))) (\<lambda>_. True)"
  unfolding Let_def assignGroupsTx_def
proof (rule keeps_bind)
  show "keeps db_inv (getUserTx i) loaded_user"
    unfolding getUserTx_def by (rule keeps_bind [OF keeps_user_row(1)], rule keeps_return) (simp add: loaded_user_def)
next
  fix current assume c: "loaded_user current"
  have hash: "keeps db_inv (if trim_space (in_Password input) \<noteq> [] then hash_password idkey (in_Password input)
                 else io_return (u_PasswordHash current)) stored_hash"
    using c by (auto simp: loaded_user_def intro: keeps_intros)
  have d: "trimmed (if trim_space (in_DisplayName input) \<noteq> [] then trim_space (in_DisplayName input)
        else u_DisplayName current)"
    using c by (simp add: trimmed_trim_space loaded_user_def)
  show "keeps db_inv (io_bind (if trim_space (in_Password input) \<noteq> [] then hash_password idkey (in_Password input)
                 else io_return (u_PasswordHash current)) (\<lambda>passwordHash. io_bind now_of (\<lambda>now.
           io_bind (sql_update_user i (if trim_space (in_DisplayName input) \<noteq> [] then trim_space (in_DisplayName input)
              else u_DisplayName current) passwordHash (boolInt (in_Disabled input)) now) (\<lambda>_.
           io_bind (sql_delete_user_groups i) (\<lambda>_. assign_names i (uniqueNames (in_GroupNames input))))))) (\<lambda>_. True)"
    by (intro keeps_bind [OF hash] keeps_bind [OF keeps_now] keeps_bind [OF keeps_update_user [OF d]]
        keeps_bind [OF keeps_delete_user_groups] keeps_assign)
qed

lemma keeps_UpdateUser [keeps_intros]: "keeps db_inv (UpdateUser idkey i input) loaded_user"
  unfolding UpdateUser_def
  by (rule keeps_bind [OF keeps_transaction [OF keeps_update_body] keeps_GetUser(1)])

lemma keeps_group_ops [keeps_intros]:
  "keeps db_inv (CreateGroup g) (\<lambda>_. True)" "keeps db_inv (UpdateGroup i g) (\<lambda>_. True)"
  unfolding CreateGroup_def UpdateGroup_def
  by (auto intro!: keeps_fail keeps_bind [OF keeps_insert_group] keeps_bind [OF keeps_update_group]
      keeps_bind [OF keeps_driver_point] keeps_GetGroup trimmed_trim_space)

lemma keeps_run_all: "\<forall>m\<in>set ms. keeps P m (\<lambda>_. True) \<Longrightarrow> keeps P (run_all ms) (\<lambda>_. True)"
  by (induction ms) (auto intro: keeps_return keeps_bind)

lemma keeps_SeedDefaults [keeps_intros]: "keeps db_inv (SeedDefaults idkey) (\<lambda>_. True)"
proof -
  have "keeps db_inv (io_bind (CreateGroup g) (\<lambda>_. io_return ())) (\<lambda>_. True)" for g
    by (rule keeps_bind [OF keeps_group_ops(1)]) (simp add: keeps_return)
  moreover have "keeps db_inv (io_bind (CreateUser idkey u) (\<lambda>_. io_return ())) (\<lambda>_. True)" for u
    by (rule keeps_bind [OF keeps_CreateUser]) (simp add: keeps_return)
  ultimately have "keeps db_inv (run_all (map (\<lambda>g. io_bind (CreateGroup g) (\<lambda>_. io_return ())) default_groups)) (\<lambda>_. True)"
    "keeps db_inv (run_all (map (\<lambda>u. io_bind (CreateUser idkey u) (\<lambda>_. io_return ())) default_users)) (\<lambda>_. True)"
    by (auto intro!: keeps_run_all)
  then show ?thesis
    unfolding SeedDefaults_def
    by (intro keeps_bind [OF keeps_queries(3)]) (simp add: keeps_return keeps_bind)
qed

lemma keeps_normalize_base [keeps_intros]: "keeps P (normalize_base s) normalized_base_dn"
  unfolding normalize_base_def
  by (rule keeps_lift) (auto split: sum.splits dest: NormalizeBaseDN_normalized)

lemma keeps_store_BaseDN [keeps_intros]: "keeps P store_BaseDN normalized_base_dn"
  unfolding store_BaseDN_def sql_get_base_dn_def
  by (rule keeps_bind [OF keeps_query keeps_normalize_base]) simp

lemma keeps_store_SetBaseDN [keeps_intros]: "keeps db_inv (store_SetBaseDN s) (\<lambda>_. True)"
  unfolding store_SetBaseDN_def by (rule keeps_bind [OF keeps_normalize_base keeps_base_dn(2)])

lemma keeps_EnsureBaseDN [keeps_intros]: "keeps db_inv (EnsureBaseDN s) normalized_base_dn"
proof -
  let ?m = "io_bind (normalize_base s) (\<lambda>n. io_bind (sql_insert_base_dn n) (\<lambda>_. store_BaseDN))"
  have m: "keeps db_inv ?m normalized_base_dn"
    by (rule keeps_bind [OF keeps_normalize_base], rule keeps_bind [OF keeps_base_dn(1)])
      (simp_all add: keeps_store_BaseDN)
  show ?thesis
    unfolding keeps_def
  proof (intro allI impI)
    fix w :: world assume w: "db_inv (w_db w)"
    obtain r w' where r: "store_BaseDN w = (r, w')" by (cases "store_BaseDN w")
    have w': "db_inv (w_db w')" "\<And>x. r = Inr x \<Longrightarrow> normalized_base_dn x"
      using keeps_store_BaseDN [of db_inv] w r by (auto simp: keeps_def)
    then have "db_inv (w_db (snd (?m w'))) \<and> (\<forall>x. fst (?m w') = Inr x \<longrightarrow> normalized_base_dn x)"
      using m by (simp add: keeps_def)
    then show "db_inv (w_db (snd (EnsureBaseDN s w))) \<and> (\<forall>x. fst (EnsureBaseDN s w) = Inr x \<longrightarrow> normalized_base_dn x)"
      using w' r by (cases r) (auto simp: EnsureBaseDN_def)
  qed
qed

end
