(* ===== verification/Store_Props.thy ===== *)
theory Store_Props
  imports Store_Laws
begin

text \<open>
  The properties of the store: the invariant along every run, what each change does and that it
  does all of it or nothing, what the queries return, authentication, seeding, and the base DN.
\<close>

section \<open>Steps that succeeded\<close>

lemma io_bind_Inr:
  "io_bind m k w = (Inr y, w'') \<longleftrightarrow> (\<exists>x w'. m w = (Inr x, w') \<and> k x w' = (Inr y, w''))"
  by (auto simp: io_bind_def split: prod.splits sum.splits)

lemma io_bind_Inl:
  "io_bind m k w = (Inl e, w'') \<longleftrightarrow>
     m w = (Inl e, w'') \<or> (\<exists>x w'. m w = (Inr x, w') \<and> k x w' = (Inl e, w''))"
  by (auto simp: io_bind_def split: prod.splits sum.splits)

lemma io_bind_ok: "m w = (Inr x, w') \<Longrightarrow> io_bind m k w = k x w'"
  by (simp add: io_bind_def)

lemma io_bind_err: "m w = (Inl e, w') \<Longrightarrow> io_bind m k w = (Inl e, w')"
  by (simp add: io_bind_def)

lemma io_bind_now: "io_bind now_of k w = k (w_now w) w"
  by (simp add: io_bind_def now_of_def)

lemma query_Inr: "query f w = (Inr x, w') \<Longrightarrow> f (w_db w) = Inr x \<and> w_db w' = w_db w"
  using query_result [of f w x] query_db [of f w] by simp

lemma query_Inl: "query f w = (Inl e, w') \<Longrightarrow> w_db w' = w_db w"
  using query_db [of f w] by simp

lemma exec_Inr: "exec f w = (Inr x, w') \<Longrightarrow> f (w_db w) = Inr (x, w_db w')"
  by (cases rule: exec_cases [of f w]) auto

lemma exec_frame: "w_now (snd (exec f w)) = w_now w" "entropy (snd (exec f w)) = entropy w"
  using fault_db [of w] by (auto simp: exec_def Let_def split: prod.splits sum.splits)

lemma driver_point_Inr: "driver_point w = (Inr (), w') \<Longrightarrow> w_db w' = w_db w"
  unfolding driver_point_def by (auto dest: query_Inr)

lemma first_row_Inr: "first_row P rows = Inr r \<Longrightarrow> r \<in> set rows \<and> P r"
  by (auto simp: first_row_def find_Some_iff split: option.splits)

lemma first_row_Inl: "first_row P rows = Inl e \<longleftrightarrow> e = NoRows \<and> (\<forall>r\<in>set rows. \<not> P r)"
  by (induction rows) (auto simp: first_row_def)

text \<open>A user as it is read back.\<close>

definition load_user :: "db \<Rightarrow> user_row \<Rightarrow> user" where
  "load_user d r = (scanned_user r)\<lparr>u_Groups := map scanned_group (groups_of d (ur_id r))\<rparr>"

definition load_group :: "db \<Rightarrow> group_row \<Rightarrow> group" where
  "load_group d r = (scanned_group r)\<lparr>g_MemberUIDs := members_of d (gr_id r)\<rparr>"

lemma userGroups_Inr:
  "userGroups i w = (Inr gs, w') \<Longrightarrow> gs = map scanned_group (groups_of (w_db w) i) \<and> w_db w' = w_db w"
  by (auto simp: userGroups_def sql_user_groups_def io_bind_Inr io_return_def dest: query_Inr)

lemma userGroups_Inl: "userGroups i w = (Inl e, w') \<Longrightarrow> w_db w' = w_db w \<and> e = DriverFault"
  using query_db by (auto simp: userGroups_def sql_user_groups_def io_bind_Inl io_return_def dest: query_Inl)
    (auto simp: query_def Let_def split: prod.splits if_splits)

lemma scanUser_Inr:
  assumes "scanUser (query (\<lambda>d. first_row P (t_users d))) w = (Inr u, w')"
  shows "w_db w' = w_db w \<and> (\<exists>r\<in>set (t_users (w_db w)). P r \<and> u = load_user (w_db w) r)"
  using assms
  by (fastforce simp: scanUser_def io_bind_Inr io_return_def load_user_def dest!: query_Inr userGroups_Inr first_row_Inr)

lemma scanUser_db: "w_db (snd (scanUser (query f) w)) = w_db w"
proof -
  have "keeps (\<lambda>d. d = w_db w) (scanUser (query f)) (\<lambda>_. True)"
    unfolding scanUser_def
    by (rule keeps_bind [OF keeps_any_query], rule keeps_bind [OF keeps_queries(6)], rule keeps_return) simp
  then show ?thesis by (simp add: keeps_def)
qed

lemma GetUser_db: "w_db (snd (GetUserByID i w)) = w_db w" "w_db (snd (GetUserByUsername n w)) = w_db w"
  unfolding GetUserByID_def GetUserByUsername_def sql_user_by_id_def sql_user_by_name_def
  by (rule scanUser_db)+

lemma GetUserByID_Inr:
  "GetUserByID i w = (Inr u, w') \<Longrightarrow>
     w_db w' = w_db w \<and> (\<exists>r\<in>set (t_users (w_db w)). ur_id r = i \<and> u = load_user (w_db w) r)"
  unfolding GetUserByID_def sql_user_by_id_def by (drule scanUser_Inr) auto

lemma GetUserByUsername_Inr:
  "GetUserByUsername n w = (Inr u, w') \<Longrightarrow>
     w_db w' = w_db w \<and> (\<exists>r\<in>set (t_users (w_db w)). ur_username r = n \<and> u = load_user (w_db w) r)"
  unfolding GetUserByUsername_def sql_user_by_name_def by (drule scanUser_Inr) auto

section \<open>Creating a user\<close>

text \<open>\<open>gids\<close> are the ids of the groups of these names, in this order.\<close>

definition group_ids :: "db \<Rightarrow> string list \<Rightarrow> int list \<Rightarrow> bool" where
  "group_ids d names gids \<longleftrightarrow>
     list_all2 (\<lambda>n g. \<exists>r\<in>set (t_groups d). gr_name r = n \<and> gr_id r = g) names gids"

lemma assign_names_Inr:
  "assign_names i names w = (Inr (), w') \<Longrightarrow>
     \<exists>gids. group_ids (w_db w) names gids \<and>
       w_db w' = (w_db w)\<lparr>t_user_groups := t_user_groups (w_db w) @ map (Pair i) gids\<rparr>"
proof (induction names arbitrary: w)
  case Nil
  then show ?case by (auto simp: io_return_def group_ids_def)
next
  case (Cons n names)
  then obtain r w1 w2 where g: "sql_group_by_name n w = (Inr r, w1)"
    and ins: "sql_insert_user_group i (gr_id r) w1 = (Inr (), w2)"
    and rest: "assign_names i names w2 = (Inr (), w')"
    by (auto simp: io_bind_Inr split: prod.splits sum.splits)
  have w1: "w_db w1 = w_db w" "r \<in> set (t_groups (w_db w))" "gr_name r = n"
    using g by (auto simp: sql_group_by_name_def dest!: query_Inr first_row_Inr)
  have w2: "w_db w2 = (w_db w)\<lparr>t_user_groups := t_user_groups (w_db w) @ [(i, gr_id r)]\<rparr>"
    using exec_Inr [OF ins [unfolded sql_insert_user_group_def]] w1(1) by (auto split: if_splits)
  obtain gids where gids: "group_ids (w_db w2) names gids"
    "w_db w' = (w_db w2)\<lparr>t_user_groups := t_user_groups (w_db w2) @ map (Pair i) gids\<rparr>"
    using Cons.IH [OF rest] by blast
  have "group_ids (w_db w) (n # names) (gr_id r # gids)"
    using gids(1) w1 w2 by (auto simp: group_ids_def)
  moreover have "w_db w' = (w_db w)\<lparr>t_user_groups := t_user_groups (w_db w) @ map (Pair i) (gr_id r # gids)\<rparr>"
    using gids(2) w2 by simp
  ultimately show ?case by blast
qed

definition new_user_row :: "db \<Rightarrow> user_input \<Rightarrow> string \<Rightarrow> time \<Rightarrow> user_row" where
  "new_user_row d input phc now =
     \<lparr>ur_id = users_seq d + 1, ur_username = trim_space (in_Username input), ur_password_hash = phc,
      ur_display_name = displayOrUsername (in_DisplayName input) (in_Username input),
      ur_disabled = boolInt (in_Disabled input), ur_created_at = now, ur_updated_at = now\<rparr>"

definition db_with_user :: "db \<Rightarrow> user_row \<Rightarrow> int list \<Rightarrow> db" where
  "db_with_user d row gids =
     d\<lparr>t_users := t_users d @ [row], users_seq := users_seq d + 1,
       t_user_groups := t_user_groups d @ map (Pair (ur_id row)) gids\<rparr>"

lemma create_body_Inr:
  assumes "io_bind (sql_insert_user (trim_space (in_Username input)) phc
              (displayOrUsername (in_DisplayName input) (in_Username input)) (boolInt (in_Disabled input)) now now) (\<lambda>userID.
           io_bind driver_point (\<lambda>_.
           io_bind (assignGroupsTx userID (in_GroupNames input)) (\<lambda>_.
           io_return userID))) w = (Inr i, w')"
  shows "\<exists>gids. group_ids (w_db w) (uniqueNames (in_GroupNames input)) gids \<and>
     w_db w' = db_with_user (w_db w) (new_user_row (w_db w) input phc now) gids \<and> i = users_seq (w_db w) + 1 \<and>
     trim_space (in_Username input) \<notin> ur_username ` set (t_users (w_db w))"
proof -
  obtain w1 w2 where ins: "sql_insert_user (trim_space (in_Username input)) phc
              (displayOrUsername (in_DisplayName input) (in_Username input)) (boolInt (in_Disabled input)) now now w
            = (Inr i, w1)"
    and dp: "driver_point w1 = (Inr (), w2)" and as: "assignGroupsTx i (in_GroupNames input) w2 = (Inr (), w')"
    using assms by (auto simp: io_bind_Inr io_return_def)
  have w1: "trim_space (in_Username input) \<notin> ur_username ` set (t_users (w_db w))" "i = users_seq (w_db w) + 1"
    "w_db w1 = (w_db w)\<lparr>t_users := t_users (w_db w) @ [new_user_row (w_db w) input phc now],
       users_seq := users_seq (w_db w) + 1\<rparr>"
    using exec_Inr [OF ins [unfolded sql_insert_user_def]] by (auto simp: new_user_row_def split: if_splits)
  obtain gids where "group_ids (w_db w2) (uniqueNames (in_GroupNames input)) gids"
    "w_db w' = (w_db w2)\<lparr>t_user_groups := t_user_groups (w_db w2) @ map (Pair i) gids\<rparr>"
    using assign_names_Inr [OF as [unfolded assignGroupsTx_def]] by blast
  then show ?thesis
    using w1 driver_point_Inr [OF dp]
    by (auto simp: group_ids_def db_with_user_def new_user_row_def intro!: exI [of _ gids])
qed

lemma now_of_run: "now_of w = (Inr (w_now w), w)"
  by (simp add: now_of_def)

lemma CreateUser_cases:
  assumes "CreateUser idkey input w = (r, w')"
  obtains (unchanged) e where "r = Inl e" "w_db w' = w_db w"
  | (created) phc salt gids where "HashPassword idkey salt (in_Password input) = Inr phc"
      "group_ids (w_db w) (uniqueNames (in_GroupNames input)) gids"
      "w_db w' = db_with_user (w_db w) (new_user_row (w_db w) input phc (w_now w)) gids"
      "trim_space (in_Username input) \<notin> ur_username ` set (t_users (w_db w))"
      "\<exists>w1. w_db w1 = w_db w' \<and> GetUserByID (users_seq (w_db w) + 1) w1 = (r, w')"
proof (cases "trim_space (in_Username input) = [] \<or> trim_space (in_Password input) = []")
  case True
  then show ?thesis using assms by (intro unchanged) (auto simp: CreateUser_def io_fail_def)
next
  case False
  obtain rh wh where h: "hash_password idkey (in_Password input) w = (rh, wh)"
    by (cases "hash_password idkey (in_Password input) w")
  have wh: "w_db wh = w_db w" "w_now wh = w_now w"
    using hash_password_db [of idkey "in_Password input" w] h by simp_all
  show ?thesis
  proof (cases rh)
    case (Inl e)
    have "CreateUser idkey input w = (Inl e, wh)"
      unfolding CreateUser_def if_not_P [OF False] by (rule io_bind_err) (simp add: h Inl)
    then show ?thesis using assms wh by (intro unchanged [of e]) auto
  next
    case (Inr phc)
    then obtain salt where salt: "HashPassword idkey salt (in_Password input) = Inr phc"
      using h by (auto simp: hash_password_def split: prod.splits sum.splits)
    let ?body = "io_bind (sql_insert_user (trim_space (in_Username input)) phc
              (displayOrUsername (in_DisplayName input) (in_Username input)) (boolInt (in_Disabled input))
              (w_now w) (w_now w)) (\<lambda>userID.
           io_bind driver_point (\<lambda>_.
           io_bind (assignGroupsTx userID (in_GroupNames input)) (\<lambda>_.
           io_return userID)))"
    have run: "CreateUser idkey input w = io_bind (transaction ?body) GetUserByID wh"
      unfolding CreateUser_def if_not_P [OF False] io_bind_ok [where m = "hash_password _ _", OF h [unfolded Inr]]
      by (simp only: io_bind_ok [where m = now_of, OF now_of_run] wh)
    obtain rt wt where t: "transaction ?body wh = (rt, wt)" by (cases "transaction ?body wh")
    show ?thesis
    proof (cases rt)
      case (Inl e)
      have "w_db wt = w_db w" using transaction_atomic [of ?body wh e] t Inl wh by simp
      moreover have "CreateUser idkey input w = (Inl e, wt)"
        unfolding run by (rule io_bind_err) (simp add: t Inl)
      ultimately show ?thesis using assms by (intro unchanged [of e]) auto
    next
      case (Inr i)
      obtain w0 w1 where body: "w_db w0 = w_db wh" "?body w0 = (Inr i, w1)" "w_db wt = w_db w1"
        by (rule transaction_ok [OF t [unfolded Inr]])
      have get: "GetUserByID i wt = (r, w')"
        using assms io_bind_ok [of "transaction ?body" wh i wt GetUserByID] run t Inr by simp
      then have "w_db w' = w_db wt" using GetUser_db(1) [of i wt] by simp
      then show ?thesis
        using create_body_Inr [OF body(2)] body get wh salt
        by (auto intro!: created)
    qed
  qed
qed

section \<open>Changing a user\<close>

definition updated_row :: "int \<Rightarrow> string \<Rightarrow> string \<Rightarrow> int \<Rightarrow> time \<Rightarrow> user_row \<Rightarrow> user_row" where
  "updated_row i display phc disabled now r =
     (if ur_id r = i then r\<lparr>ur_display_name := display, ur_password_hash := phc,
        ur_disabled := disabled, ur_updated_at := now\<rparr> else r)"

definition db_with_update :: "db \<Rightarrow> int \<Rightarrow> string \<Rightarrow> string \<Rightarrow> int \<Rightarrow> time \<Rightarrow> int list \<Rightarrow> db" where
  "db_with_update d i display phc disabled now gids =
     d\<lparr>t_users := map (updated_row i display phc disabled now) (t_users d),
       t_user_groups := filter (\<lambda>(u, g). u \<noteq> i) (t_user_groups d) @ map (Pair i) gids\<rparr>"

text \<open>The hash and the display name an update writes: the old ones unless the form gives new ones.\<close>

definition next_hash :: "idkey \<Rightarrow> user_input \<Rightarrow> user_row \<Rightarrow> string \<Rightarrow> bool" where
  "next_hash idkey input row phc \<longleftrightarrow>
     (if trim_space (in_Password input) \<noteq> [] then \<exists>salt. HashPassword idkey salt (in_Password input) = Inr phc
      else phc = ur_password_hash row)"

definition next_display :: "user_input \<Rightarrow> user_row \<Rightarrow> string" where
  "next_display input row =
     (if trim_space (in_DisplayName input) \<noteq> [] then trim_space (in_DisplayName input) else ur_display_name row)"

lemma query_frame: "w_now (snd (query f w)) = w_now w" "entropy (snd (query f w)) = entropy w"
  using fault_db [of w] by (auto simp: query_def Let_def split: prod.splits)

lemma hash_password_Inr:
  "hash_password idkey p w = (Inr phc, w') \<Longrightarrow>
     w_db w' = w_db w \<and> w_now w' = w_now w \<and> (\<exists>salt. HashPassword idkey salt p = Inr phc)"
  using hash_password_db [of idkey p w] by (auto simp: hash_password_def split: prod.splits sum.splits)

lemma choose_hash_Inr:
  assumes "(if trim_space (in_Password input) \<noteq> [] then hash_password idkey (in_Password input)
            else io_return (ur_password_hash row)) w = (Inr phc, w')"
  shows "w_db w' = w_db w \<and> w_now w' = w_now w \<and> next_hash idkey input row phc"
  using assms hash_password_Inr [of idkey "in_Password input" w phc w']
  by (auto simp: next_hash_def io_return_def split: if_splits)

lemma getUserTx_Inr:
  assumes "getUserTx i w = (Inr current, w')"
  shows "w_db w' = w_db w \<and> w_now w' = w_now w \<and> (\<exists>row\<in>set (t_users (w_db w)). ur_id row = i \<and>
    u_PasswordHash current = ur_password_hash row \<and> u_DisplayName current = ur_display_name row)"
proof -
  obtain row where row: "sql_user_by_id i w = (Inr row, w')" "current = (scanned_user row)\<lparr>u_CreatedAt := 0, u_UpdatedAt := 0\<rparr>"
    using assms by (auto simp: getUserTx_def io_bind_Inr io_return_def)
  have "w_db w' = w_db w" "row \<in> set (t_users (w_db w))" "ur_id row = i"
    using row(1) by (auto simp: sql_user_by_id_def dest!: query_Inr first_row_Inr)
  moreover have "w_now w' = w_now w"
    using row(1) query_frame(1) [of "\<lambda>d. first_row (\<lambda>r. ur_id r = i) (t_users d)" w] by (simp add: sql_user_by_id_def)
  ultimately show ?thesis using row(2) by (auto simp: scanned_user_def)
qed

definition update_body :: "idkey \<Rightarrow> int \<Rightarrow> user_input \<Rightarrow> unit io" where
  "update_body idkey user_id input =
       (io_bind (getUserTx user_id) (\<lambda>current.
        io_bind (if trim_space (in_Password input) \<noteq> [] then hash_password idkey (in_Password input)
                 else io_return (u_PasswordHash current)) (\<lambda>passwordHash.
        let trimmed = trim_space (in_DisplayName input);
            displayName = (if trimmed \<noteq> [] then trimmed else u_DisplayName current)
        in io_bind now_of (\<lambda>now.
           io_bind (sql_update_user user_id displayName passwordHash (boolInt (in_Disabled input)) now) (\<lambda>_.
           io_bind (sql_delete_user_groups user_id) (\<lambda>_.
           assignGroupsTx user_id (in_GroupNames input)))))))"

lemma UpdateUser_body:
  "UpdateUser idkey i input = io_bind (transaction (update_body idkey i input)) (\<lambda>_. GetUserByID i)"
  by (simp add: UpdateUser_def update_body_def)

lemma update_body_Inr:
  assumes "update_body idkey i input w = (Inr (), w')"
  shows "\<exists>row phc gids. row \<in> set (t_users (w_db w)) \<and> ur_id row = i \<and> next_hash idkey input row phc \<and>
     group_ids (w_db w) (uniqueNames (in_GroupNames input)) gids \<and>
     w_db w' = db_with_update (w_db w) i (next_display input row) phc (boolInt (in_Disabled input)) (w_now w) gids"
proof -
  obtain current w1 phc w2 u1 w3 u2 w4 where
    get: "getUserTx i w = (Inr current, w1)"
    and hash: "(if trim_space (in_Password input) \<noteq> [] then hash_password idkey (in_Password input)
            else io_return (u_PasswordHash current)) w1 = (Inr phc, w2)"
    and upd: "sql_update_user i (if trim_space (in_DisplayName input) \<noteq> [] then trim_space (in_DisplayName input)
        else u_DisplayName current) phc (boolInt (in_Disabled input)) (w_now w2) w2 = (Inr u1, w3)"
    and del: "sql_delete_user_groups i w3 = (Inr u2, w4)"
    and as: "assignGroupsTx i (in_GroupNames input) w4 = (Inr (), w')"
    using assms unfolding update_body_def Let_def io_bind_now io_bind_Inr by blast
  obtain row where w1: "w_db w1 = w_db w" "w_now w1 = w_now w" "row \<in> set (t_users (w_db w))" "ur_id row = i"
    and cur: "u_PasswordHash current = ur_password_hash row" "u_DisplayName current = ur_display_name row"
    using getUserTx_Inr [OF get] by blast
  note hash = hash [unfolded cur] and upd = upd [unfolded cur, folded next_display_def]
  have w2: "w_db w2 = w_db w" "w_now w2 = w_now w" "next_hash idkey input row phc"
    using choose_hash_Inr [OF hash] w1 by simp_all
  have w3: "w_db w3 = (w_db w)\<lparr>t_users := map (updated_row i (next_display input row) phc
      (boolInt (in_Disabled input)) (w_now w)) (t_users (w_db w))\<rparr>"
    using exec_Inr [OF upd [unfolded sql_update_user_def w2(2)]] w2(1) by (auto simp: updated_row_def [abs_def])
  have w4: "w_db w4 = (w_db w3)\<lparr>t_user_groups := filter (\<lambda>(u, g). u \<noteq> i) (t_user_groups (w_db w3))\<rparr>"
    using exec_Inr [OF del [unfolded sql_delete_user_groups_def]] by simp
  obtain gids where "group_ids (w_db w4) (uniqueNames (in_GroupNames input)) gids"
    "w_db w' = (w_db w4)\<lparr>t_user_groups := t_user_groups (w_db w4) @ map (Pair i) gids\<rparr>"
    using assign_names_Inr [OF as [unfolded assignGroupsTx_def]] by blast
  then have "group_ids (w_db w) (uniqueNames (in_GroupNames input)) gids"
    "w_db w' = db_with_update (w_db w) i (next_display input row) phc (boolInt (in_Disabled input)) (w_now w) gids"
    using w3 w4 by (simp_all add: group_ids_def db_with_update_def)
  then show ?thesis using w1 w2 by blast
qed

lemma UpdateUser_cases:
  assumes "UpdateUser idkey i input w = (r, w')"
  obtains (unchanged) e where "r = Inl e" "w_db w' = w_db w"
  | (updated) row phc gids where "row \<in> set (t_users (w_db w))" "ur_id row = i" "next_hash idkey input row phc"
      "group_ids (w_db w) (uniqueNames (in_GroupNames input)) gids"
      "w_db w' = db_with_update (w_db w) i (next_display input row) phc (boolInt (in_Disabled input)) (w_now w) gids"
      "\<exists>w1. w_db w1 = w_db w' \<and> GetUserByID i w1 = (r, w')"
proof -
  let ?body = "update_body idkey i input"
  obtain rt wt where t: "transaction ?body w = (rt, wt)" by (cases "transaction ?body w")
  show ?thesis
  proof (cases rt)
    case (Inl e)
    have "w_db wt = w_db w" using transaction_atomic [of ?body w e] t Inl by simp
    moreover have "UpdateUser idkey i input w = (Inl e, wt)"
      unfolding UpdateUser_body by (rule io_bind_err) (simp add: t Inl)
    ultimately show ?thesis using assms by (intro unchanged [of e]) auto
  next
    case (Inr u)
    obtain w0 w1 where body: "w_db w0 = w_db w" "w_now w0 = w_now w" "?body w0 = (Inr (), w1)" "w_db wt = w_db w1"
      using transaction_ok [OF t [unfolded Inr]] by (metis (full_types) old.unit.exhaust)
    have get: "GetUserByID i wt = (r, w')"
      using assms io_bind_ok [of "transaction ?body" w u wt "\<lambda>_. GetUserByID i"] t Inr
      by (simp add: UpdateUser_body)
    then have "w_db w' = w_db wt" using GetUser_db(1) [of i wt] by simp
    then show ?thesis
      using update_body_Inr [OF body(3)] body get by (auto intro!: updated)
  qed
qed

section \<open>The store as a machine\<close>

datatype store_op =
    OpCreateUser user_input | OpUpdateUser int user_input | OpDeleteUser int
  | OpCreateGroup group_input | OpUpdateGroup int group_input | OpDeleteGroup int
  | OpSetBaseDN string | OpEnsureBaseDN string | OpSeedDefaults
  | OpAuthenticate string string | OpListUsers | OpListGroups
  | Environment "bool list" "bytes option list" time

definition quietly :: "'a io \<Rightarrow> world \<Rightarrow> (store_error + unit) \<times> world" where
  "quietly m = io_bind m (\<lambda>_. io_return ())"

text \<open>Between two operations the environment decides anew which statements will fail, what the source of
  randomness yields and what time it is.\<close>

definition store_step :: "idkey \<Rightarrow> world \<Rightarrow> store_op \<Rightarrow> (store_error + unit) \<times> world" where
  "store_step idkey w e = (case e of
       OpCreateUser input \<Rightarrow> quietly (CreateUser idkey input) w
     | OpUpdateUser i input \<Rightarrow> quietly (UpdateUser idkey i input) w
     | OpDeleteUser i \<Rightarrow> DeleteUser i w
     | OpCreateGroup input \<Rightarrow> quietly (CreateGroup input) w
     | OpUpdateGroup i input \<Rightarrow> quietly (UpdateGroup i input) w
     | OpDeleteGroup i \<Rightarrow> DeleteGroup i w
     | OpSetBaseDN dn \<Rightarrow> store_SetBaseDN dn w
     | OpEnsureBaseDN dn \<Rightarrow> quietly (EnsureBaseDN dn) w
     | OpSeedDefaults \<Rightarrow> SeedDefaults idkey w
     | OpAuthenticate name pw \<Rightarrow> quietly (AuthenticateUser idkey name pw) w
     | OpListUsers \<Rightarrow> quietly ListUsers w
     | OpListGroups \<Rightarrow> quietly ListGroups w
     | Environment fs rnd now \<Rightarrow> (Inr (), w\<lparr>faults := fs, entropy := rnd, w_now := now\<rparr>))"

lemma keeps_quietly: "keeps P m Q \<Longrightarrow> keeps P (quietly m) (\<lambda>_. True)"
  unfolding quietly_def by (rule keeps_bind, assumption, rule keeps_return) simp

lemma keeps_Authenticate: "keeps db_inv (AuthenticateUser idkey n p) loaded_user"
  unfolding AuthenticateUser_def
  by (rule keeps_bind [OF keeps_GetUser(2)], rule keeps_bind [where Q = "\<lambda>_. True"])
    (auto intro!: keeps_lift keeps_fail keeps_return)

lemma keeps_add_groups: "keeps P (add_user_groups us) (\<lambda>_. True)"
  by (induction us) (auto intro!: keeps_return keeps_bind [OF keeps_queries(6)] keeps_bind)

lemma keeps_add_members: "keeps P (add_group_members gs) (\<lambda>_. True)"
  by (induction gs) (auto intro!: keeps_return keeps_bind [OF keeps_queries(7)] keeps_bind)

lemma keeps_Lists: "keeps P ListUsers (\<lambda>_. True)" "keeps P ListGroups (\<lambda>_. True)"
  unfolding ListUsers_def ListGroups_def
  by (rule keeps_bind [OF keeps_queries(1) keeps_add_groups], rule keeps_bind [OF keeps_queries(2) keeps_add_members])

interpretation store_machine: invariant_machine "store_step idkey" "\<lambda>w. db_inv (w_db w)"
proof unfold_locales
  fix w :: world and e
  assume w: "db_inv (w_db w)"
  note k = keepsD [where P = db_inv, OF _ w]
  show "db_inv (w_db (snd (store_step idkey w e)))"
    by (cases e)
      (simp_all add: store_step_def w DeleteUser_def DeleteGroup_def
        k [OF keeps_quietly [OF keeps_CreateUser]] k [OF keeps_quietly [OF keeps_UpdateUser]]
        k [OF keeps_delete_user] k [OF keeps_quietly [OF keeps_group_ops(1)]]
        k [OF keeps_quietly [OF keeps_group_ops(2)]] k [OF keeps_delete_group] k [OF keeps_store_SetBaseDN]
        k [OF keeps_quietly [OF keeps_EnsureBaseDN]] k [OF keeps_SeedDefaults]
        k [OF keeps_quietly [OF keeps_Authenticate]] k [OF keeps_quietly [OF keeps_Lists(1)]]
        k [OF keeps_quietly [OF keeps_Lists(2)]])
qed

section \<open>What is read back\<close>

lemma keeps_sql_create [keeps_intros]: "keeps db_inv (sql_create n) (\<lambda>_. True)"
  unfolding sql_create_def
  by (rule keeps_exec) (auto simp: db_inv_def memberships_ok_def split: if_splits)

text \<open>The tables of a database file, whatever the connection enforces.\<close>

definition data_ok :: "db \<Rightarrow> bool" where
  "data_ok d \<longleftrightarrow> db_inv (d\<lparr>foreign_keys := True\<rparr>)"

lemma Open_store_inv:
  assumes "Open_store w = (Inr (), w')" "data_ok (w_db w)"
  shows "db_inv (w_db w')"
proof -
  have mig: "Migrate = io_bind sql_pragma_foreign_keys (\<lambda>_. run_all (tl migrations))"
    by (simp add: Migrate_def migrations_def)
  obtain v w1 u w2 where w1: "driver_point w = (Inr v, w1)"
    and prag: "sql_pragma_foreign_keys (snd (new_connection w1)) = (Inr u, w2)"
    and rest: "run_all (tl migrations) w2 = (Inr (), w')"
    using assms(1) unfolding Open_store_def mig io_bind_Inr by (metis snd_conv)
  have c: "w_db (snd (new_connection w1)) = (w_db w1)\<lparr>foreign_keys := False\<rparr>"
    by (simp add: new_connection_def)
  have "w_db w2 = (w_db (snd (new_connection w1)))\<lparr>foreign_keys := True\<rparr>"
    using exec_Inr [OF prag [unfolded sql_pragma_foreign_keys_def]] by (simp only: sum.inject prod.inject)
  moreover have "w_db w1 = w_db w" using driver_point_Inr [of w w1] w1 by simp
  ultimately have "w_db w2 = (w_db w)\<lparr>foreign_keys := True\<rparr>" unfolding c by simp
  then have "db_inv (w_db w2)" using assms(2) by (simp add: data_ok_def)
  moreover have "keeps db_inv (run_all (tl migrations)) (\<lambda>_. True)"
    by (rule keeps_run_all) (simp add: migrations_def keeps_sql_create)
  ultimately have "db_inv (w_db (snd (run_all (tl migrations) w2)))" by (rule keepsD [rotated])
  then show ?thesis using rest by simp
qed

lemma row_by_id:
  "db_inv d \<Longrightarrow> r \<in> set (t_users d) \<Longrightarrow> s \<in> set (t_users d) \<Longrightarrow> ur_id r = ur_id s \<Longrightarrow> r = s"
  by (auto simp: db_inv_def users_ok_def distinct_map inj_on_def)

lemma row_by_name:
  "db_inv d \<Longrightarrow> r \<in> set (t_users d) \<Longrightarrow> s \<in> set (t_users d) \<Longrightarrow> ur_username r = ur_username s \<Longrightarrow> r = s"
  by (auto simp: db_inv_def users_ok_def distinct_map inj_on_def)

lemma query_fault: "query f w = (Inl e, w') \<Longrightarrow> e = DriverFault \<or> f (w_db w) = Inl e"
  using fault_db [of w] by (auto simp: query_def Let_def split: prod.splits if_splits)

lemma GetUserByID_Inl:
  assumes "GetUserByID i w = (Inl e, w')" "r \<in> set (t_users (w_db w))" "ur_id r = i"
  shows "e = DriverFault"
proof -
  have "sql_user_by_id i w = (Inl e, w') \<or> (\<exists>x w1. userGroups x w1 = (Inl e, w'))"
    using assms(1) by (auto simp: GetUserByID_def scanUser_def io_bind_Inl io_return_def)
  then show ?thesis
  proof
    assume "sql_user_by_id i w = (Inl e, w')"
    then show ?thesis
      using query_fault assms(2,3) unfolding sql_user_by_id_def by (fastforce simp: first_row_Inl)
  qed (auto dest: userGroups_Inl)
qed

text \<open>Reading back a row that is there: it, or an error of the driver.\<close>

lemma GetUserByID_present:
  assumes "GetUserByID i w = (r, w')" "db_inv (w_db w)" "row \<in> set (t_users (w_db w))" "ur_id row = i"
  shows "case r of Inl e \<Rightarrow> e = DriverFault | Inr u \<Rightarrow> u = load_user (w_db w) row"
proof (cases r)
  case (Inl e)
  then show ?thesis using assms GetUserByID_Inl by auto
next
  case (Inr u)
  then show ?thesis using assms GetUserByID_Inr [of i w u w'] row_by_id [OF assms(2)] by auto
qed

lemma add_user_groups_Inr:
  "add_user_groups us w = (Inr vs, w') \<Longrightarrow> w_db w' = w_db w \<and>
     vs = map (\<lambda>u. u\<lparr>u_Groups := map scanned_group (groups_of (w_db w) (u_ID u))\<rparr>) us"
proof (induction us arbitrary: w vs)
  case (Cons u us)
  then obtain gs w1 vs1 where g: "userGroups (u_ID u) w = (Inr gs, w1)"
    and r: "add_user_groups us w1 = (Inr vs1, w')" "vs = u\<lparr>u_Groups := gs\<rparr> # vs1"
    by (auto simp: io_bind_Inr io_return_def)
  then show ?case using Cons.IH [OF r(1)] userGroups_Inr [OF g] by simp
qed (auto simp: io_return_def)

lemma ListUsers_Inr:
  assumes "ListUsers w = (Inr us, w')"
  shows "w_db w' = w_db w \<and> us = map (load_user (w_db w)) (sort_key ur_username (t_users (w_db w)))"
proof -
  obtain rows w1 where q: "sql_users w = (Inr rows, w1)" and a: "add_user_groups (map scanned_user rows) w1 = (Inr us, w')"
    using assms by (auto simp: ListUsers_def io_bind_Inr)
  have "rows = sort_key ur_username (t_users (w_db w))" "w_db w1 = w_db w"
    using q by (auto simp: sql_users_def dest!: query_Inr)
  then show ?thesis
    using add_user_groups_Inr [OF a] by (simp add: load_user_def [abs_def] scanned_user_def comp_def)
qed

lemma groupMembers_Inr:
  "groupMembers i w = (Inr ms, w') \<Longrightarrow> ms = members_of (w_db w) i \<and> w_db w' = w_db w"
  by (auto simp: groupMembers_def sql_group_members_def dest: query_Inr)

lemma add_group_members_Inr:
  "add_group_members gs w = (Inr hs, w') \<Longrightarrow> w_db w' = w_db w \<and>
     hs = map (\<lambda>g. g\<lparr>g_MemberUIDs := members_of (w_db w) (g_ID g)\<rparr>) gs"
proof (induction gs arbitrary: w hs)
  case (Cons g gs)
  then obtain ms w1 hs1 where m: "groupMembers (g_ID g) w = (Inr ms, w1)"
    and r: "add_group_members gs w1 = (Inr hs1, w')" "hs = g\<lparr>g_MemberUIDs := ms\<rparr> # hs1"
    by (auto simp: io_bind_Inr io_return_def)
  then show ?case using Cons.IH [OF r(1)] groupMembers_Inr [OF m] by simp
qed (auto simp: io_return_def)

lemma ListGroups_Inr:
  assumes "ListGroups w = (Inr gs, w')"
  shows "w_db w' = w_db w \<and> gs = map (load_group (w_db w)) (sort_key gr_name (t_groups (w_db w)))"
proof -
  obtain rows w1 where q: "sql_groups w = (Inr rows, w1)" and a: "add_group_members (map scanned_group rows) w1 = (Inr gs, w')"
    using assms by (auto simp: ListGroups_def io_bind_Inr)
  have "rows = sort_key gr_name (t_groups (w_db w))" "w_db w1 = w_db w"
    using q by (auto simp: sql_groups_def dest!: query_Inr)
  then show ?thesis
    using add_group_members_Inr [OF a] by (simp add: load_group_def [abs_def] scanned_group_def comp_def)
qed

lemma Lists_db: "w_db (snd (ListUsers w)) = w_db w" "w_db (snd (ListGroups w)) = w_db w"
  using keepsD [OF keeps_Lists(1), of "\<lambda>d. d = w_db w" w] keepsD [OF keeps_Lists(2), of "\<lambda>d. d = w_db w" w] by simp_all

lemma strictly_sorted_key:
  "distinct (map f xs) \<Longrightarrow> sorted_wrt (<) (map f (sort_key f xs))"
  by (simp add: strict_sorted_iff distinct_map)

section \<open>Authentication\<close>

lemma AuthenticateUser_Inr:
  assumes "AuthenticateUser idkey n p w = (Inr u, w')"
  shows "w_db w' = w_db w \<and> (\<exists>r\<in>set (t_users (w_db w)). ur_username r = n \<and>
     VerifyPassword idkey (ur_password_hash r) p = Inr True \<and> u = load_user (w_db w) r)"
proof -
  obtain v w1 ok w2 where get: "GetUserByUsername n w = (Inr v, w1)"
    and ver: "io_lift (case VerifyPassword idkey (u_PasswordHash v) p of
                         Inl e \<Rightarrow> Inl (AuthFailure e) | Inr ok \<Rightarrow> Inr ok) w1 = (Inr ok, w2)"
    and tail: "(if \<not> ok then io_fail NoRows else io_return v) w2 = (Inr u, w')"
    using assms unfolding AuthenticateUser_def io_bind_Inr by blast
  have t: "ok" "u = v" "w' = w2" using tail by (auto simp: io_fail_def io_return_def split: if_splits)
  have "w2 = w1" "VerifyPassword idkey (u_PasswordHash v) p = Inr True"
    using ver t(1) by (auto simp: io_lift_def split: sum.splits)
  then show ?thesis
    using GetUserByUsername_Inr [OF get] t by (auto simp: load_user_def scanned_user_def)
qed

lemma AuthenticateUser_run:
  "AuthenticateUser idkey n p w = (case GetUserByUsername n w of
     (Inl e, w') \<Rightarrow> (Inl e, w')
   | (Inr u, w') \<Rightarrow> ((case VerifyPassword idkey (u_PasswordHash u) p of
         Inl a \<Rightarrow> Inl (AuthFailure a) | Inr ok \<Rightarrow> if ok then Inr u else Inl NoRows), w'))"
  by (auto simp: AuthenticateUser_def io_bind_def io_lift_def io_fail_def io_return_def
      split: prod.splits sum.splits)

lemma AuthenticateUser_db: "w_db (snd (AuthenticateUser idkey n p w)) = w_db w"
  using GetUser_db(2) [of n w]
  by (auto simp: AuthenticateUser_run split: prod.splits sum.splits)

lemma VerifyPassword_stored:
  assumes "stored_hash phc" "\<And>p s t m k l. t \<noteq> 0 \<Longrightarrow> k \<noteq> 0 \<Longrightarrow> idkey p s t m k l \<noteq> None"
  shows "\<exists>b. VerifyPassword idkey phc p = Inr b"
proof -
  obtain salt hash where "phc = format_phc salt hash" using assms(1) by (auto simp: stored_hash_def)
  then show ?thesis
    using assms(2) [of 1 4 "bytes_of_string p" salt 65536 "of_nat (length hash)"]
    by (auto simp: VerifyPassword_def parsePHC_format)
qed

section \<open>The base DN and the defaults\<close>

lemma store_BaseDN_Inr:
  assumes "store_BaseDN w = (Inr b, w')" "db_inv (w_db w)"
  shows "w_db w' = w_db w \<and> map_of (t_settings (w_db w)) ''base_dn'' = Some b \<and> normalized_base_dn b"
proof -
  obtain v w1 where q: "sql_get_base_dn w = (Inr v, w1)" and n: "normalize_base v w1 = (Inr b, w')"
    using assms(1) by (auto simp: store_BaseDN_def io_bind_Inr)
  have v: "map_of (t_settings (w_db w)) ''base_dn'' = Some v" "w_db w1 = w_db w"
    using q by (auto simp: sql_get_base_dn_def dest!: query_Inr split: option.splits)
  then have "normalized_base_dn v" using assms(2) by (simp add: db_inv_def settings_ok_def)
  then show ?thesis
    using n v NormalizeBaseDN_canonical by (auto simp: normalize_base_def io_lift_def)
qed

lemma normalize_not_NoRows: "normalize_base v w \<noteq> (Inl NoRows, w')"
  by (cases "NormalizeBaseDN v") (simp_all add: normalize_base_def io_lift_def)

lemma store_BaseDN_NoRows:
  assumes "store_BaseDN w = (Inl NoRows, w')"
  shows "w_db w' = w_db w \<and> map_of (t_settings (w_db w)) ''base_dn'' = None"
proof -
  have "sql_get_base_dn w = (Inl NoRows, w')"
    using assms normalize_not_NoRows by (auto simp: store_BaseDN_def io_bind_Inl)
  then show ?thesis
    using query_fault query_Inl unfolding sql_get_base_dn_def by (fastforce split: option.splits)
qed

lemma EnsureBaseDN_Inr:
  assumes "EnsureBaseDN fallback w = (Inr b, w')" "db_inv (w_db w)"
  shows "normalized_base_dn b \<and> map_of (t_settings (w_db w')) ''base_dn'' = Some b \<and>
    (case map_of (t_settings (w_db w)) ''base_dn'' of
       Some v \<Rightarrow> b = v \<and> w_db w' = w_db w | None \<Rightarrow> NormalizeBaseDN fallback = Inr b)"
proof (cases "fst (store_BaseDN w)")
  case (Inr c)
  then have "store_BaseDN w = (Inr b, w')"
    using assms(1) by (cases "store_BaseDN w") (auto simp: EnsureBaseDN_def)
  then show ?thesis using store_BaseDN_Inr assms(2) by fastforce
next
  case (Inl e)
  then obtain w1 where r: "store_BaseDN w = (Inl e, w1)" by (cases "store_BaseDN w") auto
  have "e = NoRows" using assms(1) r by (auto simp: EnsureBaseDN_def split: if_splits)
  then have w1: "w_db w1 = w_db w" "map_of (t_settings (w_db w)) ''base_dn'' = None"
    using store_BaseDN_NoRows r by auto
  obtain n u w2 where n: "NormalizeBaseDN fallback = Inr n"
    and ins: "sql_insert_base_dn n w1 = (Inr u, w2)" and get: "store_BaseDN w2 = (Inr b, w')"
    using assms(1) r \<open>e = NoRows\<close>
    by (auto simp: EnsureBaseDN_def io_bind_Inr normalize_base_def io_lift_def split: sum.splits)
  have "db_inv (w_db w2)"
    using keepsD [OF keeps_base_dn(1) [OF NormalizeBaseDN_normalized [OF n]], of w1] ins assms(2) w1 by simp
  moreover have "w_db w2 = (w_db w)\<lparr>t_settings := AList.update ''base_dn'' n (t_settings (w_db w))\<rparr>"
    using exec_Inr [OF ins [unfolded sql_insert_base_dn_def]] w1 by simp
  ultimately show ?thesis
    using store_BaseDN_Inr [OF get] n w1 by (auto simp: update_conv')
qed

lemma exec_rejected:
  assumes "f (w_db w) = Inl e0"
  shows "\<exists>e w'. exec f w = (Inl e, w') \<and> w_db w' = w_db w"
  by (cases "exec f w"; cases rule: exec_cases [of f w]) (use assms in auto)

lemma insert_taken_group:
  "name \<in> gr_name ` set (t_groups (w_db w)) \<Longrightarrow>
     \<exists>e w'. sql_insert_group name descr w = (Inl e, w') \<and> w_db w' = w_db w"
  unfolding sql_insert_group_def by (rule exec_rejected [of _ _ UniqueViolation]) simp

section \<open>Properties\<close>

definition with_world :: "(store_error + 'a) \<times> world \<Rightarrow> (store_error + 'a \<Rightarrow> db \<Rightarrow> bool) \<Rightarrow> bool" where
  "with_world rw P = (case rw of (r, w) \<Rightarrow> P r (w_db w))"

text \<open>C6: from a database file with consistent contents, once \<open>Open\<close> has succeeded, the tables satisfy the
  invariant after every sequence of operations, whichever statements fail: ids and names are unique,
  ids were handed out, names are trimmed and not empty, password hashes are in the program's own
  format, memberships are unique and refer to existing users and groups, foreign keys are enforced,
  and a stored base DN is normalised.\<close>

theorem store_invariant:
  assumes "Open_store w = (Inr (), w')" "data_ok (w_db w)"
  shows "db_inv (w_db (final_state (store_step idkey) w' ops))"
  by (rule store_machine.run_inv [OF Open_store_inv [OF assms]])

theorem store_invariant_witness:
  "db_inv (w_db (final_state (store_step (\<lambda>p s t m k l. Some p))
     (snd (Open_store \<lparr>w_db = empty_db, faults = [], entropy = [], w_now = 0\<rparr>))
     [Environment [False, True] [Some [1]] 7, OpCreateGroup \<lparr>in_Name = ''a'', in_Description = []\<rparr>, OpSeedDefaults]))"
proof (rule store_invariant)
  show "Open_store \<lparr>w_db = empty_db, faults = [], entropy = [], w_now = 0\<rparr>
      = (Inr (), snd (Open_store \<lparr>w_db = empty_db, faults = [], entropy = [], w_now = 0\<rparr>))"
    by code_simp
  show "data_ok (w_db \<lparr>w_db = empty_db, faults = [], entropy = [], w_now = 0\<rparr>)"
    by (simp add: data_ok_def empty_db_def db_inv_def users_ok_def groups_ok_def memberships_ok_def settings_ok_def)
qed

text \<open>C17: \<open>CreateUser\<close> does all or nothing: either it reports an error and the tables are as before, or the
  one new row, with a fresh id, the hash of the password and the trimmed fields, and exactly the
  memberships of the named groups have been added; then it returns that user as stored, or the error
  of the driver that prevented reading it back.\<close>

theorem CreateUser_all_or_nothing:
  assumes "db_inv (w_db w)"
  shows "with_world (CreateUser idkey input w) (\<lambda>r d'.
    \<not> is_ok r \<and> d' = w_db w \<or>
    (\<exists>salt phc gids row. HashPassword idkey salt (in_Password input) = Inr phc \<and>
       row = new_user_row (w_db w) input phc (w_now w) \<and>
       group_ids (w_db w) (uniqueNames (in_GroupNames input)) gids \<and>
       ur_username row \<notin> ur_username ` set (t_users (w_db w)) \<and>
       d' = db_with_user (w_db w) row gids \<and>
       (case r of Inl e \<Rightarrow> e = DriverFault | Inr u \<Rightarrow> u = load_user d' row)))"
proof -
  obtain r w' where run: "CreateUser idkey input w = (r, w')" by (cases "CreateUser idkey input w")
  have inv: "db_inv (w_db w')" using keepsD [OF keeps_CreateUser, of w idkey input] assms run by simp
  from run show ?thesis
  proof (cases rule: CreateUser_cases)
    case (unchanged e)
    then show ?thesis using run by (simp add: with_world_def)
  next
    case (created phc salt gids)
    let ?row = "new_user_row (w_db w) input phc (w_now w)"
    obtain w1 where w1: "w_db w1 = w_db w'" "GetUserByID (users_seq (w_db w) + 1) w1 = (r, w')"
      using created(5) by blast
    have "?row \<in> set (t_users (w_db w1))" "ur_id ?row = users_seq (w_db w) + 1"
      using created(3) w1(1) by (simp_all add: db_with_user_def new_user_row_def)
    then have "case r of Inl e \<Rightarrow> e = DriverFault | Inr u \<Rightarrow> u = load_user (w_db w') ?row"
      using GetUserByID_present [OF w1(2), unfolded w1(1)] inv w1(1) by simp
    moreover have "ur_username ?row \<notin> ur_username ` set (t_users (w_db w))"
      using created(4) by (simp add: new_user_row_def)
    ultimately show ?thesis
      using run created(1-3) unfolding with_world_def by auto
  qed
qed

lemma empty_db_inv: "db_inv (empty_db\<lparr>foreign_keys := True\<rparr>)"
  by (simp add: empty_db_def db_inv_def users_ok_def groups_ok_def memberships_ok_def settings_ok_def)

definition sample_input :: user_input where
  "sample_input = \<lparr>in_Username = ''ann'', in_Password = ''pw'', in_DisplayName = [], in_Disabled = False,
     in_GroupNames = []\<rparr>"

definition sample_world :: world where
  "sample_world = \<lparr>w_db = empty_db\<lparr>foreign_keys := True\<rparr>, faults = [], entropy = [Some [1, 2]], w_now = 5\<rparr>"

theorem CreateUser_all_or_nothing_witness:
  "with_world (CreateUser (\<lambda>p s t m k l. Some p) sample_input sample_world) (\<lambda>r d'.
    \<not> is_ok r \<and> d' = w_db sample_world \<or>
    (\<exists>salt phc gids row. HashPassword (\<lambda>p s t m k l. Some p) salt (in_Password sample_input) = Inr phc \<and>
       row = new_user_row (w_db sample_world) sample_input phc (w_now sample_world) \<and>
       group_ids (w_db sample_world) (uniqueNames (in_GroupNames sample_input)) gids \<and>
       ur_username row \<notin> ur_username ` set (t_users (w_db sample_world)) \<and>
       d' = db_with_user (w_db sample_world) row gids \<and>
       (case r of Inl e \<Rightarrow> e = DriverFault | Inr u \<Rightarrow> u = load_user d' row)))"
  by (rule CreateUser_all_or_nothing) (simp add: sample_world_def empty_db_inv)

text \<open>C16: \<open>UpdateUser\<close> does all or nothing: either an error and the tables as before, or the row of this id
  has the new display name, flag and time, a new hash only if a password was given, and its
  memberships are exactly those of the named groups; all other rows and memberships are untouched.\<close>

theorem UpdateUser_all_or_nothing:
  assumes "db_inv (w_db w)"
  shows "with_world (UpdateUser idkey i input w) (\<lambda>r d'.
    \<not> is_ok r \<and> d' = w_db w \<or>
    (\<exists>row phc gids. row \<in> set (t_users (w_db w)) \<and> ur_id row = i \<and> next_hash idkey input row phc \<and>
       group_ids (w_db w) (uniqueNames (in_GroupNames input)) gids \<and>
       d' = db_with_update (w_db w) i (next_display input row) phc (boolInt (in_Disabled input)) (w_now w) gids \<and>
       (case r of Inl e \<Rightarrow> e = DriverFault
        | Inr u \<Rightarrow> u = load_user d' (updated_row i (next_display input row) phc (boolInt (in_Disabled input)) (w_now w) row))))"
proof -
  obtain r w' where run: "UpdateUser idkey i input w = (r, w')" by (cases "UpdateUser idkey i input w")
  have inv: "db_inv (w_db w')" using keepsD [OF keeps_UpdateUser, of w idkey i input] assms run by simp
  from run show ?thesis
  proof (cases rule: UpdateUser_cases)
    case (unchanged e)
    then show ?thesis using run by (simp add: with_world_def)
  next
    case (updated row phc gids)
    let ?row = "updated_row i (next_display input row) phc (boolInt (in_Disabled input)) (w_now w) row"
    obtain w1 where w1: "w_db w1 = w_db w'" "GetUserByID i w1 = (r, w')" using updated(6) by blast
    have "?row \<in> set (t_users (w_db w1))"
      using updated(1,5) w1(1) by (simp add: db_with_update_def)
    moreover have "ur_id ?row = i" using updated(2) by (simp add: updated_row_def)
    ultimately have "case r of Inl e \<Rightarrow> e = DriverFault | Inr u \<Rightarrow> u = load_user (w_db w') ?row"
      using GetUserByID_present [OF w1(2), unfolded w1(1)] inv w1(1) by simp
    then show ?thesis
      using run updated(1-5) unfolding with_world_def by (simp, blast)
  qed
qed

theorem UpdateUser_all_or_nothing_witness:
  "with_world (UpdateUser (\<lambda>p s t m k l. Some p) 1 sample_input sample_world) (\<lambda>r d'.
    \<not> is_ok r \<and> d' = w_db sample_world \<or>
    (\<exists>row phc gids. row \<in> set (t_users (w_db sample_world)) \<and> ur_id row = 1 \<and>
       next_hash (\<lambda>p s t m k l. Some p) sample_input row phc \<and>
       group_ids (w_db sample_world) (uniqueNames (in_GroupNames sample_input)) gids \<and>
       d' = db_with_update (w_db sample_world) 1 (next_display sample_input row) phc (boolInt (in_Disabled sample_input))
              (w_now sample_world) gids \<and>
       (case r of Inl e \<Rightarrow> e = DriverFault
        | Inr u \<Rightarrow> u = load_user d' (updated_row 1 (next_display sample_input row) phc (boolInt (in_Disabled sample_input))
              (w_now sample_world) row))))"
  by (rule UpdateUser_all_or_nothing) (simp add: sample_world_def empty_db_inv)

text \<open>deleting a user removes it everywhere: no row has its id or name, no membership refers to it, every
  group lists the same members without it, and all other rows stay.\<close>

theorem DeleteUser_cascades:
  assumes "db_inv (w_db w)" "row \<in> set (t_users (w_db w))" "DeleteUser (ur_id row) w = (Inr (), w')"
  shows "t_users (w_db w') = filter (\<lambda>r. ur_id r \<noteq> ur_id row) (t_users (w_db w)) \<and>
    ur_username row \<notin> ur_username ` set (t_users (w_db w')) \<and>
    t_groups (w_db w') = t_groups (w_db w) \<and>
    set (members_of (w_db w') g) = set (members_of (w_db w) g) - {ur_username row}"
proof -
  have d: "w_db w' = (w_db w)\<lparr>t_users := filter (\<lambda>r. ur_id r \<noteq> ur_id row) (t_users (w_db w)),
       t_user_groups := filter (\<lambda>(u, g). u \<noteq> ur_id row) (t_user_groups (w_db w))\<rparr>"
    using exec_Inr [OF assms(3) [unfolded DeleteUser_def sql_delete_user_def]] assms(1)
    by (auto simp: db_inv_def)
  have name: "ur_id r = ur_id row" if "ur_username row = ur_username r" "r \<in> set (t_users (w_db w))" for r
    using row_by_name [OF assms(1) that(2) assms(2)] that(1) by simp
  note name' = name [OF sym]
  have same: "ur_username r = ur_username row" if "ur_id r = ur_id row" "r \<in> set (t_users (w_db w))" for r
    using row_by_id [OF assms(1) that(2) assms(2)] that(1) by simp
  show ?thesis using d by (auto simp: members_of_def dest: name name' same)
qed

theorem DeleteUser_cascades_witness:
  "let w = sample_world\<lparr>w_db := \<lparr>t_users = [\<lparr>ur_id = 1, ur_username = ''a'', ur_password_hash = format_phc [] [],
         ur_display_name = ''a'', ur_disabled = 0, ur_created_at = 0, ur_updated_at = 0\<rparr>],
       t_groups = [\<lparr>gr_id = 1, gr_name = ''g'', gr_description = []\<rparr>], t_user_groups = [(1, 1)], t_settings = [],
       users_seq = 1, groups_seq = 1, schema = [], foreign_keys = True\<rparr>\<rparr>;
       row = hd (t_users (w_db w)); w' = snd (DeleteUser (ur_id row) w)
   in t_users (w_db w') = filter (\<lambda>r. ur_id r \<noteq> ur_id row) (t_users (w_db w)) \<and>
    ur_username row \<notin> ur_username ` set (t_users (w_db w')) \<and>
    t_groups (w_db w') = t_groups (w_db w) \<and>
    set (members_of (w_db w') 1) = set (members_of (w_db w) 1) - {ur_username row}"
  unfolding Let_def
proof (rule DeleteUser_cascades)
  have "trimmed ''a''" "trimmed ''g''" by code_simp+
  moreover have "stored_hash (format_phc [] [])" by (auto simp: stored_hash_def)
  ultimately show "db_inv (w_db (sample_world\<lparr>w_db := \<lparr>t_users = [\<lparr>ur_id = 1, ur_username = ''a'',
         ur_password_hash = format_phc [] [], ur_display_name = ''a'', ur_disabled = 0, ur_created_at = 0, ur_updated_at = 0\<rparr>],
       t_groups = [\<lparr>gr_id = 1, gr_name = ''g'', gr_description = []\<rparr>], t_user_groups = [(1, 1)], t_settings = [],
       users_seq = 1, groups_seq = 1, schema = [], foreign_keys = True\<rparr>\<rparr>))"
    by (simp add: db_inv_def users_ok_def groups_ok_def memberships_ok_def settings_ok_def user_row_ok_def)
qed (simp_all add: DeleteUser_def sql_delete_user_def io_simps sample_world_def)

text \<open>\<open>ListUsers\<close> returns every user once, in strictly increasing order of the names, each with its
  groups in strictly increasing order, and changes nothing; \<open>ListGroups\<close> the same for groups and members.\<close>

theorem lists_are_sorted_and_complete:
  assumes "db_inv (w_db w)" "ListUsers w = (Inr us, w')" "ListGroups w' = (Inr gs, w'')"
  shows "us = map (load_user (w_db w)) (sort_key ur_username (t_users (w_db w))) \<and>
    gs = map (load_group (w_db w)) (sort_key gr_name (t_groups (w_db w))) \<and>
    w_db w'' = w_db w \<and>
    sorted_wrt (<) (map u_Username us) \<and> sorted_wrt (<) (map g_Name gs)"
proof -
  note u = ListUsers_Inr [OF assms(2)] and g = ListGroups_Inr [OF assms(3)]
  have "sorted_wrt (<) (map ur_username (sort_key ur_username (t_users (w_db w))))"
    "sorted_wrt (<) (map gr_name (sort_key gr_name (t_groups (w_db w))))"
    using assms(1) by (simp_all add: db_inv_def users_ok_def groups_ok_def strictly_sorted_key)
  moreover have "u_Username \<circ> load_user d = ur_username" "g_Name \<circ> load_group d = gr_name" for d
    by (simp_all add: load_user_def scanned_user_def load_group_def scanned_group_def comp_def)
  ultimately show ?thesis using u g by simp
qed

theorem lists_are_sorted_and_complete_witness:
  "([] :: user list) = map (load_user (w_db sample_world)) (sort_key ur_username (t_users (w_db sample_world))) \<and>
    ([] :: group list) = map (load_group (w_db sample_world)) (sort_key gr_name (t_groups (w_db sample_world))) \<and>
    w_db sample_world = w_db sample_world \<and>
    sorted_wrt (<) (map u_Username ([] :: user list)) \<and> sorted_wrt (<) (map g_Name ([] :: group list))"
proof (rule lists_are_sorted_and_complete)
  show "db_inv (w_db sample_world)" by (simp add: sample_world_def empty_db_inv)
  show "ListUsers sample_world = (Inr [], sample_world)" "ListGroups sample_world = (Inr [], sample_world)"
    by code_simp+
qed

lemma AuthenticateUser_ok:
  assumes "db_inv (w_db w)" "faults w = []" "r \<in> set (t_users (w_db w))" "ur_username r = name"
    and "VerifyPassword idkey (ur_password_hash r) password = Inr True"
  shows "AuthenticateUser idkey name password w = (Inr (load_user (w_db w) r), w)"
proof -
  let ?u = "load_user (w_db w) r"
  have "first_row (\<lambda>r. ur_username r = name) (t_users (w_db w)) = Inr r"
  proof (cases "first_row (\<lambda>r. ur_username r = name) (t_users (w_db w))")
    case (Inr s)
    then show ?thesis using first_row_Inr [OF Inr] row_by_name [OF assms(1) _ assms(3)] assms(4) by simp
  qed (use assms in \<open>auto simp: first_row_Inl\<close>)
  then have "GetUserByUsername name w = (Inr ?u, w)"
    using assms(2)
    by (simp add: GetUserByUsername_def scanUser_def sql_user_by_name_def userGroups_def sql_user_groups_def
        io_bind_def io_simps load_user_def)
  moreover have "u_PasswordHash ?u = ur_password_hash r" by (simp add: load_user_def scanned_user_def)
  ultimately show ?thesis
    using assms(5) by (simp add: AuthenticateUser_def io_bind_def io_simps)
qed

text \<open>when no statement fails, authentication succeeds exactly for a stored user name with a password
  that verifies against the stored hash, and gives that user with its groups; it changes nothing.\<close>

theorem AuthenticateUser_iff:
  assumes "db_inv (w_db w)" "faults w = []"
  shows "AuthenticateUser idkey name password w = (Inr u, w) \<longleftrightarrow>
    (\<exists>r\<in>set (t_users (w_db w)). ur_username r = name \<and>
       VerifyPassword idkey (ur_password_hash r) password = Inr True \<and> u = load_user (w_db w) r)"
  using AuthenticateUser_ok [OF assms] AuthenticateUser_Inr by blast

theorem AuthenticateUser_iff_witness:
  "\<forall>u0. (AuthenticateUser (\<lambda>p s t m k l. Some p) ''ann'' ''pw'' sample_world = (Inr u0, sample_world)) =
    (\<exists>r\<in>set (t_users (w_db sample_world)). ur_username r = ''ann'' \<and>
       VerifyPassword (\<lambda>p s t m k l. Some p) (ur_password_hash r) ''pw'' = Inr True \<and> u0 = load_user (w_db sample_world) r)"
  by (rule allI, rule AuthenticateUser_iff) (simp_all add: sample_world_def empty_db_inv)

text \<open>on tables that satisfy the invariant, authentication never reports a malformed hash and never makes
  \<open>IDKey\<close> panic, for any \<open>IDKey\<close> that panics only for zero time or zero threads.\<close>

theorem AuthenticateUser_no_hash_error:
  assumes "db_inv (w_db w)" "\<And>p s t m k l. t \<noteq> 0 \<Longrightarrow> k \<noteq> 0 \<Longrightarrow> idkey p s t m k l \<noteq> None"
  shows "fst (AuthenticateUser idkey name password w) \<noteq> Inl (AuthFailure e)"
proof
  assume "fst (AuthenticateUser idkey name password w) = Inl (AuthFailure e)"
  then obtain w' where run: "AuthenticateUser idkey name password w = (Inl (AuthFailure e), w')"
    by (cases "AuthenticateUser idkey name password w") auto
  have no: "GetUserByUsername name w \<noteq> (Inl (AuthFailure e), w')"
  proof
    assume "GetUserByUsername name w = (Inl (AuthFailure e), w')"
    then have "sql_user_by_name name w = (Inl (AuthFailure e), w') \<or>
        (\<exists>i w1. userGroups i w1 = (Inl (AuthFailure e), w'))"
      by (auto simp: GetUserByUsername_def scanUser_def io_bind_Inl io_return_def)
    then show False
      using userGroups_Inl query_fault unfolding sql_user_by_name_def by (fastforce simp: first_row_Inl)
  qed
  obtain r w1 where r: "GetUserByUsername name w = (r, w1)" by (cases "GetUserByUsername name w")
  then obtain u where get: "GetUserByUsername name w = (Inr u, w1)"
    using no run by (cases r) (auto simp: AuthenticateUser_run)
  have ver: "VerifyPassword idkey (u_PasswordHash u) password = Inl e"
    using run get by (auto simp: AuthenticateUser_run split: sum.splits if_splits)
  have "keeps db_inv (GetUserByUsername name) loaded_user" by (rule keeps_GetUser(2))
  then have "stored_hash (u_PasswordHash u)"
    using get assms(1) by (simp add: keeps_def loaded_user_def)
  then obtain b where "VerifyPassword idkey (u_PasswordHash u) password = Inr b"
    using VerifyPassword_stored [of "u_PasswordHash u" idkey password] assms(2) by blast
  then show False using ver by simp
qed

theorem AuthenticateUser_no_hash_error_witness:
  "fst (AuthenticateUser (\<lambda>p s t m k l. if t = 0 \<or> k = 0 then None else Some p) ''ann'' ''pw'' sample_world)
     \<noteq> Inl (AuthFailure Argon2Panic)"
  by (rule AuthenticateUser_no_hash_error) (simp_all add: sample_world_def empty_db_inv)

text \<open>C35: seeding that was interrupted after its first group cannot be completed: as long as there is no
  user and the group \<open>admins\<close> exists, \<open>SeedDefaults\<close> fails and leaves the tables as they are, so the
  program, which seeds on every start, does not start again.\<close>

theorem SeedDefaults_stuck:
  assumes "t_users (w_db w) = []" "''admins'' \<in> gr_name ` set (t_groups (w_db w))"
  shows "\<exists>e w'. SeedDefaults idkey w = (Inl e, w') \<and> w_db w' = w_db w"
proof (cases "sql_count_users w")
  case (Pair r w1)
  have w1: "w_db w1 = w_db w" using query_db Pair unfolding sql_count_users_def by (metis snd_conv)
  show ?thesis
  proof (cases r)
    case (Inl e)
    then have "SeedDefaults idkey w = (Inl e, w1)"
      unfolding SeedDefaults_def using Pair by (intro io_bind_err) simp
    then show ?thesis using w1 by blast
  next
    case (Inr c)
    then have "c = 0" using Pair assms(1) unfolding sql_count_users_def by (auto dest: query_Inr)
    have adm: "trim_space ''admins'' = ''admins''" "trim_space ''Administrative users'' = ''Administrative users''"
      by code_simp+
    obtain e w' where ins: "sql_insert_group ''admins'' ''Administrative users'' w1 = (Inl e, w')" "w_db w' = w_db w1"
      using insert_taken_group [of "''admins''" w1] assms(2) w1 by metis
    have "CreateGroup \<lparr>in_Name = ''admins'', in_Description = ''Administrative users''\<rparr> w1 = (Inl e, w')"
      unfolding CreateGroup_def using ins by (simp add: adm io_bind_err)
    then have "run_all (map (\<lambda>g. io_bind (CreateGroup g) (\<lambda>_. io_return ())) default_groups) w1 = (Inl e, w')"
      by (simp add: default_groups_def io_bind_err)
    then have "SeedDefaults idkey w = (Inl e, w')"
      using Pair Inr \<open>c = 0\<close> by (simp add: SeedDefaults_def io_bind_def)
    then show ?thesis using ins(2) w1 by auto
  qed
qed

theorem SeedDefaults_stuck_witness:
  "\<exists>e w'. SeedDefaults (\<lambda>p s t m k l. Some p)
      (snd (SeedDefaults (\<lambda>p s t m k l. Some p) (sample_world\<lparr>faults := [False, False, True]\<rparr>))) = (Inl e, w') \<and>
     w_db w' = w_db (snd (SeedDefaults (\<lambda>p s t m k l. Some p) (sample_world\<lparr>faults := [False, False, True]\<rparr>)))"
proof (rule SeedDefaults_stuck)
  show "t_users (w_db (snd (SeedDefaults (\<lambda>p s t m k l. Some p) (sample_world\<lparr>faults := [False, False, True]\<rparr>)))) = []"
    "''admins'' \<in> gr_name ` set (t_groups (w_db (snd (SeedDefaults (\<lambda>p s t m k l. Some p)
        (sample_world\<lparr>faults := [False, False, True]\<rparr>)))))"
    by code_simp+
qed

text \<open>\<open>EnsureBaseDN\<close> gives a normalised base DN that is then the stored one; a stored value wins over the
  fallback and is not changed.\<close>

theorem EnsureBaseDN_stored:
  assumes "EnsureBaseDN fallback w = (Inr b, w')" "db_inv (w_db w)"
  shows "normalized_base_dn b \<and> map_of (t_settings (w_db w')) ''base_dn'' = Some b \<and>
    (case map_of (t_settings (w_db w)) ''base_dn'' of
       Some v \<Rightarrow> b = v \<and> w_db w' = w_db w | None \<Rightarrow> NormalizeBaseDN fallback = Inr b)"
  by (rule EnsureBaseDN_Inr [OF assms])

theorem EnsureBaseDN_stored_witness:
  "normalized_base_dn ''dc=a'' \<and>
    map_of (t_settings (w_db (snd (EnsureBaseDN ''dc=a'' sample_world)))) ''base_dn'' = Some ''dc=a'' \<and>
    (case map_of (t_settings (w_db sample_world)) ''base_dn'' of
       Some v \<Rightarrow> ''dc=a'' = v \<and> w_db (snd (EnsureBaseDN ''dc=a'' sample_world)) = w_db sample_world
     | None \<Rightarrow> NormalizeBaseDN ''dc=a'' = Inr ''dc=a'')"
proof (rule EnsureBaseDN_stored)
  have "dc_value ''a''" by code_simp
  then have n: "NormalizeBaseDN ''dc=a'' = Inr ''dc=a''"
    by (intro NormalizeBaseDN_canonical) (auto simp: normalized_base_dn_def intro!: exI [of _ "[''a'']"])
  then show "EnsureBaseDN ''dc=a'' sample_world = (Inr ''dc=a'', snd (EnsureBaseDN ''dc=a'' sample_world))"
    by (simp add: EnsureBaseDN_def store_BaseDN_def sql_get_base_dn_def sql_insert_base_dn_def normalize_base_def
        io_bind_def io_simps sample_world_def empty_db_def)
  show "db_inv (w_db sample_world)" by (simp add: sample_world_def empty_db_inv)
qed

end
