(* ===== verification/Web_Laws.thy ===== *)
theory Web_Laws
  imports Web_Server Store_Props
begin

text \<open>
  What requests to the web administration do to the state: which of them can change the directory, what
  every request keeps, and when sessions begin and end.
\<close>

section \<open>Store operations leave the settings table alone\<close>

abbreviation same_settings :: "(string \<times> string) list \<Rightarrow> db \<Rightarrow> bool" where
  "same_settings kv \<equiv> (\<lambda>d. t_settings d = kv)"

definition frames :: "'a io \<Rightarrow> bool" where
  "frames m \<longleftrightarrow> (\<forall>kv. keeps (same_settings kv) m (\<lambda>_. True))"

named_theorems frames_intros \<open>operations that leave the settings table alone\<close>

lemma frames_bind [frames_intros]: "frames m \<Longrightarrow> (\<And>x. frames (k x)) \<Longrightarrow> frames (io_bind m k)"
  unfolding frames_def by (blast intro: keeps_bind)

lemma frames_basic [frames_intros]:
  "frames (io_return x)" "frames (io_fail e)" "frames (query f)" "frames (hash_password idkey p)" "frames now_of"
  unfolding frames_def
  by (auto intro: keeps_return keeps_fail keeps_any_query keeps_any [OF keeps_hash_password] keeps_now)

lemma frames_transaction [frames_intros]: "frames m \<Longrightarrow> frames (transaction m)"
  unfolding frames_def by (blast intro: keeps_transaction)

lemma frames_exec:
  "(\<And>d x d'. f d = Inr (x, d') \<Longrightarrow> t_settings d' = t_settings d) \<Longrightarrow> frames (exec f)"
  unfolding frames_def by (intro allI keeps_exec) auto

lemma frames_statements [frames_intros]:
  "frames (sql_insert_user a b c e f g)" "frames (sql_insert_group a b)" "frames (sql_insert_user_group i j)"
  "frames (sql_update_user i a b e f)" "frames (sql_update_group i a b)" "frames (sql_delete_user i)"
  "frames (sql_delete_group i)" "frames (sql_delete_user_groups i)"
  unfolding sql_insert_user_def sql_insert_group_def sql_insert_user_group_def sql_update_user_def
    sql_update_group_def sql_delete_user_def sql_delete_group_def sql_delete_user_groups_def
  by (rule frames_exec; auto split: if_splits)+

lemma frames_queries [frames_intros]:
  "frames (sql_user_by_id i)" "frames (sql_user_by_name n)" "frames (sql_group_by_id i)" "frames (sql_group_by_name n)"
  "frames sql_users" "frames sql_groups" "frames (userGroups i)" "frames (groupMembers i)" "frames driver_point"
  unfolding sql_user_by_id_def sql_user_by_name_def sql_group_by_id_def sql_group_by_name_def sql_users_def
    sql_groups_def userGroups_def sql_user_groups_def groupMembers_def sql_group_members_def driver_point_def
  by (intro frames_intros)+

lemma frames_scan [frames_intros]: "frames m \<Longrightarrow> frames (scanUser m)" "frames n \<Longrightarrow> frames (scanGroup n)"
  unfolding scanUser_def scanGroup_def by (intro frames_intros; assumption)+

lemma frames_get [frames_intros]:
  "frames (GetUserByID i)" "frames (GetUserByUsername n)" "frames (GetGroupByID i)" "frames (getUserTx i)"
  unfolding GetUserByID_def GetUserByUsername_def GetGroupByID_def getUserTx_def by (intro frames_intros)+

lemma frames_lists [frames_intros]: "frames ListUsers" "frames ListGroups"
proof -
  have "frames (add_user_groups us)" for us by (induction us) (auto intro!: frames_intros)
  then show "frames ListUsers" unfolding ListUsers_def by (auto intro!: frames_intros)
  have "frames (add_group_members gs)" for gs by (induction gs) (auto intro!: frames_intros)
  then show "frames ListGroups" unfolding ListGroups_def by (auto intro!: frames_intros)
qed

lemma frames_assign [frames_intros]: "frames (assign_names i names)"
proof (induction names)
  case (Cons n names)
  have "frames (\<lambda>w. case sql_group_by_name n w of
      (Inl e, w) \<Rightarrow> (Inl (GroupLookup n e), w) | (Inr r, w) \<Rightarrow> (Inr (gr_id r), w))"
    using frames_queries(4) [of n] unfolding frames_def keeps_def
    by (auto split: prod.splits sum.splits) (metis snd_conv)+
  then show ?case using Cons by (auto intro!: frames_intros)
qed (auto intro!: frames_intros)

lemma frames_changes:
  "frames (CreateUser idkey input)" "frames (UpdateUser idkey i input)" "frames (DeleteUser i)"
  "frames (CreateGroup g)" "frames (UpdateGroup i g)" "frames (DeleteGroup i)"
  unfolding CreateUser_def UpdateUser_def DeleteUser_def CreateGroup_def UpdateGroup_def DeleteGroup_def
    assignGroupsTx_def Let_def
  by (auto intro!: frames_intros)

section \<open>Reading changes nothing but the faults to come\<close>

definition same_but_faults :: "web \<Rightarrow> web \<Rightarrow> bool" where
  "same_but_faults s s' \<longleftrightarrow> (\<exists>w. s' = s\<lparr>wb_world := w\<rparr> \<and> w_db w = w_db (wb_world s))"

lemma same_refl [simp, intro]: "same_but_faults s s"
  unfolding same_but_faults_def by (rule exI [of _ "wb_world s"]) simp

lemma same_trans [trans]: "same_but_faults s s' \<Longrightarrow> same_but_faults s' s'' \<Longrightarrow> same_but_faults s s''"
  unfolding same_but_faults_def by auto

lemma same_fields:
  "same_but_faults s s' \<Longrightarrow> w_db (wb_world s') = w_db (wb_world s) \<and> wb_settings s' = wb_settings s \<and>
     wb_sessions s' = wb_sessions s \<and> wb_audit s' = wb_audit s"
  unfolding same_but_faults_def by auto

lemma run_store_fields:
  "run_store m s = (r, s') \<Longrightarrow> s' = s\<lparr>wb_world := snd (m (wb_world s))\<rparr> \<and> r = fst (m (wb_world s))"
  by (auto simp: run_store_def split: prod.splits)

lemma run_store_result: "run_store m s = (r, s') \<Longrightarrow> m (wb_world s) = (r, wb_world s')"
  by (auto simp: run_store_def split: prod.splits)

lemma run_store_same:
  "run_store m s = (r, s') \<Longrightarrow> w_db (snd (m (wb_world s))) = w_db (wb_world s) \<Longrightarrow> same_but_faults s s'"
  by (auto simp: same_but_faults_def dest!: run_store_fields)

lemma GetGroup_db: "w_db (snd (GetGroupByID i w)) = w_db w"
  using keepsD [OF keeps_GetGroup(1), of "\<lambda>d. d = w_db w" w] by simp

lemma reads_same:
  "run_store ListUsers s = (us, s') \<Longrightarrow> same_but_faults s s'"
  "run_store ListGroups s = (gs, s') \<Longrightarrow> same_but_faults s s'"
  "run_store (GetUserByID i) s = (r, s') \<Longrightarrow> same_but_faults s s'"
  "run_store (GetUserByUsername n) s = (r, s') \<Longrightarrow> same_but_faults s s'"
  "run_store (AuthenticateUser idkey n p) s = (r, s') \<Longrightarrow> same_but_faults s s'"
  "run_store (GetGroupByID i) s = (rg, s') \<Longrightarrow> same_but_faults s s'"
  by (erule run_store_same, simp only: Lists_db GetUser_db AuthenticateUser_db GetGroup_db)+

lemma or_nil_same: "or_nil ListUsers s = (us, s') \<Longrightarrow> same_but_faults s s'" "or_nil ListGroups s = (gs, s') \<Longrightarrow> same_but_faults s s'"
  by (auto simp: or_nil_def split: prod.splits sum.splits dest: reads_same)

lemma panels_same:
  "same_but_faults s (snd (renderUsersPanel r u st w s))" "same_but_faults s (snd (renderUsersPanelError r u msg st w s))"
  "same_but_faults s (snd (renderGroupsPanel r u st w s))" "same_but_faults s (snd (renderGroupsPanelError r u msg st w s))"
  "same_but_faults s (snd (renderPanelForView r u view msg st w s))"
proof -
  show u: "same_but_faults s (snd (renderUsersPanel r u st w s))" for w
    by (auto simp: renderUsersPanel_def split: prod.splits sum.splits dest: reads_same intro: same_trans)
  show e: "same_but_faults s (snd (renderUsersPanelError r u msg st w s))" for w
    by (auto simp: renderUsersPanelError_def Let_def split: prod.splits dest: or_nil_same intro: same_trans)
  show g: "same_but_faults s (snd (renderGroupsPanel r u st w s))" for w
    by (auto simp: renderGroupsPanel_def split: prod.splits sum.splits dest: reads_same)
  show ge: "same_but_faults s (snd (renderGroupsPanelError r u msg st w s))" for w
    by (auto simp: renderGroupsPanelError_def Let_def split: prod.splits dest: or_nil_same)
  show "same_but_faults s (snd (renderPanelForView r u view msg st w s))"
    using u e g ge by (simp add: renderPanelForView_def)
qed

lemma answered_simps [simp]: "snd (answered ws) = snd ws" "fst (answered ws) = Some (fst ws)"
  by (simp_all add: answered_def split: prod.splits)

section \<open>The invariant of the web server\<close>

definition stored_base :: "string \<Rightarrow> db \<Rightarrow> bool" where
  "stored_base b d \<longleftrightarrow> db_inv d \<and> map_of (t_settings d) ''base_dn'' = Some b"

definition web_inv :: "web \<Rightarrow> bool" where
  "web_inv s \<longleftrightarrow> stored_base (BaseDN (wb_settings s)) (w_db (wb_world s)) \<and> session_inv (wb_sessions s) \<and>
     settings_inv (wb_settings s)"

lemma keeps_stored: "keeps db_inv m Q \<Longrightarrow> frames m \<Longrightarrow> keeps (stored_base b) m (\<lambda>_. True)"
  unfolding keeps_def frames_def stored_base_def by fastforce

lemma web_inv_run:
  assumes "run_store m s = (r, s')" "keeps db_inv m Q" "frames m" "web_inv s"
  shows "web_inv s'"
  using run_store_fields [OF assms(1)] assms(4)
    keepsD [OF keeps_stored [OF assms(2,3)], of "BaseDN (wb_settings s)" "wb_world s"]
  by (simp add: web_inv_def)

lemma keeps_deletes: "keeps db_inv (DeleteUser i) (\<lambda>_. True)" "keeps db_inv (DeleteGroup i) (\<lambda>_. True)"
  unfolding DeleteUser_def DeleteGroup_def by (rule keeps_delete_user, rule keeps_delete_group)

lemma web_inv_changes:
  "run_store (CreateUser idkey input) s = (ru, s') \<Longrightarrow> web_inv s \<Longrightarrow> web_inv s'"
  "run_store (UpdateUser idkey i input) s = (ru, s') \<Longrightarrow> web_inv s \<Longrightarrow> web_inv s'"
  "run_store (DeleteUser i) s = (r, s') \<Longrightarrow> web_inv s \<Longrightarrow> web_inv s'"
  "run_store (CreateGroup g) s = (rg, s') \<Longrightarrow> web_inv s \<Longrightarrow> web_inv s'"
  "run_store (UpdateGroup i g) s = (rg, s') \<Longrightarrow> web_inv s \<Longrightarrow> web_inv s'"
  "run_store (DeleteGroup i) s = (r, s') \<Longrightarrow> web_inv s \<Longrightarrow> web_inv s'"
  by (erule web_inv_run [OF _ keeps_CreateUser frames_changes(1)] web_inv_run [OF _ keeps_UpdateUser frames_changes(2)]
      web_inv_run [OF _ keeps_deletes(1) frames_changes(3)] web_inv_run [OF _ keeps_group_ops(1) frames_changes(4)]
      web_inv_run [OF _ keeps_group_ops(2) frames_changes(5)] web_inv_run [OF _ keeps_deletes(2) frames_changes(6)],
      assumption)+

lemma web_inv_same: "same_but_faults s s' \<Longrightarrow> web_inv s' = web_inv s"
  by (auto simp: web_inv_def dest: same_fields)

lemma web_inv_panels [simp]:
  "web_inv (snd (renderUsersPanel r u st w s)) = web_inv s" "web_inv (snd (renderUsersPanelError r u msg st w s)) = web_inv s"
  "web_inv (snd (renderGroupsPanel r u st w s)) = web_inv s" "web_inv (snd (renderGroupsPanelError r u msg st w s)) = web_inv s"
  "web_inv (snd (renderPanelForView r u view msg st w s)) = web_inv s"
  by (rule web_inv_same, rule panels_same)+

lemma web_inv_sessions: "web_inv s \<Longrightarrow> session_inv ss \<Longrightarrow> web_inv (s\<lparr>wb_sessions := ss\<rparr>)"
  by (simp add: web_inv_def)

lemma session_ops_inv:
  assumes "session_inv ss"
  shows "session_inv (session_RevokeUser ss u)" "session_inv (session_Delete ss sid)"
    "session_inv (snd (session_Get ss n1 n2 sid))" "session_inv (snd (session_Create ss n1 tok n2 u))"
  using session_machine.step_inv [OF assms, of "RevokeUserOp u"] session_machine.step_inv [OF assms, of "DeleteOp sid"]
    session_machine.step_inv [OF assms, of "GetOp n1 n2 sid"] session_machine.step_inv [OF assms, of "CreateOp n1 tok n2 u"]
  by (simp_all add: session_step_def split: prod.splits)

lemma revoke_inv [simp]: "web_inv s \<Longrightarrow> web_inv (revoke u s)"
  unfolding revoke_def by (intro web_inv_sessions session_ops_inv) (simp_all add: web_inv_def)

lemma revoke_all_inv [simp]: "web_inv s \<Longrightarrow> web_inv (revoke_all us s)"
  by (induction us arbitrary: s) simp_all

lemma audit_login_inv [simp]: "web_inv (audit_login s r u result) = web_inv s"
  by (simp add: audit_login_def web_inv_def)

lemma SetBaseDN_run:
  assumes "run_store (store_SetBaseDN b) s = (r, s')" "normalized_base_dn b"
  shows "case r of Inl e \<Rightarrow> same_but_faults s s'
    | Inr u \<Rightarrow> \<exists>w. s' = s\<lparr>wb_world := w\<rparr> \<and>
        w_db w = (w_db (wb_world s))\<lparr>t_settings := AList.update ''base_dn'' b (t_settings (w_db (wb_world s)))\<rparr>"
proof -
  have m: "store_SetBaseDN b = sql_upsert_base_dn b"
    by (simp add: store_SetBaseDN_def normalize_base_def NormalizeBaseDN_canonical [OF assms(2)] fun_eq_iff
        io_bind_def io_lift_def)
  show ?thesis
    using run_store_fields [OF assms(1) [unfolded m]]
    unfolding sql_upsert_base_dn_def same_but_faults_def
    by (cases rule: exec_cases [of "\<lambda>d. Inr ((), d\<lparr>t_settings := AList.update ''base_dn'' b (t_settings d)\<rparr>)" "wb_world s"])
      auto
qed

lemma web_inv_base:
  assumes "web_inv s" "normalized_base_dn b"
    and "w_db w = (w_db (wb_world s))\<lparr>t_settings := AList.update ''base_dn'' b (t_settings (w_db (wb_world s)))\<rparr>"
  shows "web_inv (s\<lparr>wb_world := w, wb_settings := (wb_settings s)\<lparr>base_dn := b\<rparr>\<rparr>)"
  using assms settings_ok_update [OF _ assms(2)] NormalizeBaseDN_canonical [OF assms(2)]
  by (auto simp: web_inv_def stored_base_def SetBaseDN_def BaseDN_def settings_inv_def db_inv_def update_conv'
      memberships_ok_def)

section \<open>Every handler keeps the invariant\<close>

text \<open>The request carries the cookie of a live session, whose user exists and is enabled.\<close>

definition signed_in :: "request \<Rightarrow> web \<Rightarrow> user \<Rightarrow> bool" where
  "signed_in r s u \<longleftrightarrow> (\<exists>sid sess row. map_of (rq_cookies r) sessionCookieName = Some sid \<and>
     (sid, sess) \<in> set (sessions (wb_sessions s)) \<and> wb_now s \<le> ExpiresAt sess \<and>
     row \<in> set (t_users (w_db (wb_world s))) \<and> ur_username row = sess_Username sess \<and>
     u = load_user (w_db (wb_world s)) row \<and> ur_disabled row \<noteq> 1)"

lemma session_Get_Some:
  assumes "session_Get ss now now' sid = (Some sess, ss')"
  shows "\<exists>sess0. (sid, sess0) \<in> set (sessions ss) \<and> now \<le> ExpiresAt sess0 \<and> sess_Username sess0 = sess_Username sess"
proof -
  obtain sess0 where "map_of (sessions (cleanupLocked ss now)) sid = Some sess0"
    "sess = sess0\<lparr>LastSeen := now', ExpiresAt := now' + ss_timeout (cleanupLocked ss now)\<rparr>"
    using assms by (auto simp: session_Get_def Let_def split: option.splits)
  then show ?thesis
    by (intro exI [of _ sess0]) (auto simp: cleanupLocked_def not_less dest!: map_of_SomeD)
qed

lemma currentUser_result:
  assumes "currentUser r s = (c, s')"
  shows "w_db (wb_world s') = w_db (wb_world s)" "wb_settings s' = wb_settings s" "wb_audit s' = wb_audit s"
    "session_inv (wb_sessions s) \<Longrightarrow> session_inv (wb_sessions s')"
    "c = Some (u, sid) \<Longrightarrow> signed_in r s u"
proof -
  consider (none) "c = None" "s' = s"
    | (got) sid g ss where "map_of (rq_cookies r) sessionCookieName = Some sid"
        "session_Get (wb_sessions s) (wb_now s) (wb_now s) sid = (g, ss)"
        "g = None \<and> c = None \<and> s' = s\<lparr>wb_sessions := ss\<rparr> \<or>
         (\<exists>sess res s1. g = Some sess \<and> run_store (GetUserByUsername (sess_Username sess)) (s\<lparr>wb_sessions := ss\<rparr>) = (res, s1) \<and>
           (c = None \<and> s' = revoke (sess_Username sess) s1 \<or>
            (\<exists>v. res = Inr v \<and> \<not> u_Disabled v \<and> c = Some (v, sess_ID sess) \<and> s' = s1)))"
    using assms by (fastforce simp: currentUser_def split: option.splits prod.splits sum.splits if_splits)
  then have "w_db (wb_world s') = w_db (wb_world s) \<and> wb_settings s' = wb_settings s \<and> wb_audit s' = wb_audit s \<and>
    (session_inv (wb_sessions s) \<longrightarrow> session_inv (wb_sessions s')) \<and> (c = Some (u, sid) \<longrightarrow> signed_in r s u)"
  proof cases
    case got
    note inv = session_ops_inv(3) [of "wb_sessions s" "wb_now s" "wb_now s" sid, unfolded got(2), simplified]
    from got(3) show ?thesis
    proof (elim disjE conjE exE)
      fix sess res s1
      assume g: "g = Some sess" and q: "run_store (GetUserByUsername (sess_Username sess)) (s\<lparr>wb_sessions := ss\<rparr>) = (res, s1)"
      note f = same_fields [OF reads_same(4) [OF q]]
      show ?thesis if "c = None" "s' = revoke (sess_Username sess) s1"
        using that f inv session_ops_inv(1) by (simp add: revoke_def)
      fix v
      assume v: "res = Inr v" "\<not> u_Disabled v" "c = Some (v, sess_ID sess)" "s' = s1"
      obtain row where "row \<in> set (t_users (w_db (wb_world s)))" "ur_username row = sess_Username sess"
        "v = load_user (w_db (wb_world s)) row"
        using GetUserByUsername_Inr [OF run_store_result [OF q, unfolded v(1)]] by auto
      moreover have "ur_disabled row \<noteq> 1" using v(2) calculation by (simp add: load_user_def scanned_user_def)
      moreover obtain sess0 where "(sid, sess0) \<in> set (sessions (wb_sessions s))" "wb_now s \<le> ExpiresAt sess0"
        "sess_Username sess0 = sess_Username sess"
        using session_Get_Some got(2) g by blast
      ultimately have "signed_in r s v" using got(1) unfolding signed_in_def by metis
      then show ?thesis using v f inv by auto
    qed (use inv in simp)
  qed simp
  then show "w_db (wb_world s') = w_db (wb_world s)" "wb_settings s' = wb_settings s" "wb_audit s' = wb_audit s"
    "session_inv (wb_sessions s) \<Longrightarrow> session_inv (wb_sessions s')" "c = Some (u, sid) \<Longrightarrow> signed_in r s u" by auto
qed

lemma currentUser_inv: "web_inv s \<Longrightarrow> web_inv (snd (currentUser r s))"
  by (cases "currentUser r s") (simp add: web_inv_def currentUser_result)

lemma handler_inv_users:
  assumes "web_inv s"
  shows "web_inv (snd (handleLogout r u w s))" "web_inv (snd (handleUsersPage r u w s))"
    "web_inv (snd (handleCreateUser idkey et r u w s))" "web_inv (snd (handleUpdateUser idkey et i r u w s))"
    "web_inv (snd (handleDeleteUser et i r u w s))"
proof -
  have "web_inv (s\<lparr>wb_sessions := session_Delete (wb_sessions s) sid\<rparr>)" for sid
    using assms session_ops_inv(2) by (simp add: web_inv_def)
  then show "web_inv (snd (handleLogout r u w s))" using assms by (simp add: handleLogout_def Let_def split: option.splits)
  show "web_inv (snd (handleUsersPage r u w s))" using assms by (simp add: handleUsersPage_def)
  show "web_inv (snd (handleCreateUser idkey et r u w s))"
    using assms by (auto simp: handleCreateUser_def split: option.splits prod.splits sum.splits dest: web_inv_changes(1))
  show "web_inv (snd (handleUpdateUser idkey et i r u w s))"
    using assms by (auto simp: handleUpdateUser_def split: option.splits prod.splits sum.splits dest: web_inv_changes(2))
  show "web_inv (snd (handleDeleteUser et i r u w s))"
    using assms
    by (auto simp: handleDeleteUser_def web_inv_same [OF reads_same(3)] Let_def
        split: option.splits prod.splits sum.splits dest!: web_inv_changes(3))
qed

lemma handler_inv_groups:
  assumes "web_inv s"
  shows "web_inv (snd (handleGroupsPage r u w s))" "web_inv (snd (handleCreateGroup et r u w s))"
    "web_inv (snd (handleUpdateGroup et i r u w s))" "web_inv (snd (handleDeleteGroup et i r u w s))"
proof -
  show "web_inv (snd (handleGroupsPage r u w s))" using assms by (simp add: handleGroupsPage_def)
  show "web_inv (snd (handleCreateGroup et r u w s))"
    using assms by (auto simp: handleCreateGroup_def split: option.splits prod.splits sum.splits dest: web_inv_changes(4))
  show "web_inv (snd (handleUpdateGroup et i r u w s))"
    using assms by (auto simp: handleUpdateGroup_def split: option.splits prod.splits sum.splits dest: web_inv_changes(5))
  show "web_inv (snd (handleDeleteGroup et i r u w s))"
    using assms
    by (auto simp: handleDeleteGroup_def web_inv_same [OF reads_same(6)] Let_def
        split: option.splits prod.splits sum.splits dest!: web_inv_changes(6))
qed

lemma handleUpdateBaseDN_state:
  obtains (refused) "same_but_faults s (snd (handleUpdateBaseDN et r u w s))"
  | (changed) n v where "normalized_base_dn n"
      "w_db v = (w_db (wb_world s))\<lparr>t_settings := AList.update ''base_dn'' n (t_settings (w_db (wb_world s)))\<rparr>"
      "same_but_faults (s\<lparr>wb_world := v, wb_settings := (wb_settings s)\<lparr>base_dn := n\<rparr>\<rparr>) (snd (handleUpdateBaseDN et r u w s))"
proof (cases "rq_form r")
  case None
  then show ?thesis by (intro refused) (simp add: handleUpdateBaseDN_def)
next
  case (Some form)
  show ?thesis
  proof (cases "NormalizeBaseDN (Form_Get form ''base_dn'')")
    case (Inl e)
    then show ?thesis by (intro refused) (simp add: handleUpdateBaseDN_def Some Let_def panels_same)
  next
    case (Inr n)
    note n = NormalizeBaseDN_normalized [OF Inr]
    obtain res s1 where run: "run_store (store_SetBaseDN n) s = (res, s1)" by (cases "run_store (store_SetBaseDN n) s")
    have set: "SetBaseDN t n = (Inr (), t\<lparr>base_dn := n\<rparr>)" for t
      by (simp add: SetBaseDN_def NormalizeBaseDN_canonical [OF n])
    show ?thesis
    proof (cases res)
      case (Inl e)
      then have "same_but_faults s s1" using SetBaseDN_run [OF run n] by simp
      from same_trans [OF this panels_same(5)] show ?thesis
        by (intro refused) (simp add: handleUpdateBaseDN_def Some Inr Let_def run Inl)
    next
      case ok: (Inr _)
      then obtain v where "s1 = s\<lparr>wb_world := v\<rparr>"
        "w_db v = (w_db (wb_world s))\<lparr>t_settings := AList.update ''base_dn'' n (t_settings (w_db (wb_world s)))\<rparr>"
        using SetBaseDN_run [OF run n] by auto
      then show ?thesis
        by (intro changed [OF n]) (simp_all add: handleUpdateBaseDN_def Some Inr Let_def run ok set, rule panels_same)
    qed
  qed
qed

lemma handleUpdateBaseDN_inv:
  assumes "web_inv s"
  shows "web_inv (snd (handleUpdateBaseDN et r u w s))"
  by (cases rule: handleUpdateBaseDN_state [of s et r u w])
    (use assms web_inv_same web_inv_base [OF assms] in auto)

text \<open>The state after a login: the faults may be used up, a record is appended, and a session may be created.\<close>

lemma handleLogin_state:
  obtains (kept) s1 where "same_but_faults s s1" "snd (handleLogin idkey cfg r w s) = s1"
  | (refused) s1 form result where "rq_form r = Some form" "same_but_faults s s1"
      "snd (handleLogin idkey cfg r w s) = audit_login s1 r (trim_space (Form_Get form ''username'')) result"
  | (created) s1 form u token v created ss where "rq_form r = Some form" "same_but_faults s s1"
      "AuthenticateUser idkey (trim_space (Form_Get form ''username'')) (Form_Get form ''password'') (wb_world s)
         = (Inr u, wb_world s1)"
      "\<not> u_Disabled u" "IsMemberOf u [''admins'']" "take_random (wb_world s1) = (token, v)"
      "session_Create (wb_sessions s1) (wb_now s1) token (wb_now s1) (u_Username u) = (created, ss)"
      "snd (handleLogin idkey cfg r w s) =
         (let s2 = s1\<lparr>wb_world := (if created = Inl ErrSessionLimit then wb_world s1 else v), wb_sessions := ss\<rparr>
          in case created of
               Inl ErrSessionLimit \<Rightarrow> audit_login s2 r (trim_space (Form_Get form ''username'')) ''session_limit''
             | Inl RandFailed \<Rightarrow> s2
             | Inr _ \<Rightarrow> audit_login s2 r (trim_space (Form_Get form ''username'')) ''success'')"
proof (cases "rq_form r")
  case None
  then show ?thesis by (intro kept [of s]) (simp_all add: handleLogin_def)
next
  case (Some form)
  obtain res s1 where q: "run_store (AuthenticateUser idkey (trim_space (Form_Get form ''username'')) (Form_Get form ''password'')) s
      = (res, s1)" by (cases "run_store (AuthenticateUser idkey (trim_space (Form_Get form ''username''))
                                 (Form_Get form ''password'')) s")
  note same = reads_same(5) [OF q]
  show ?thesis
  proof (cases res)
    case (Inl e)
    show ?thesis
    proof (cases "e = AuthFailure Argon2Panic")
      case True
      then show ?thesis by (intro kept [OF same]) (simp add: handleLogin_def Some Let_def q Inl)
    next
      case False
      then show ?thesis by (intro refused [OF Some same]) (simp add: handleLogin_def Some Let_def q Inl)
    qed
  next
    case (Inr u)
    consider (disabled) "u_Disabled u" | (no) "\<not> u_Disabled u" "\<not> IsMemberOf u [''admins'']"
      | (yes) "\<not> u_Disabled u" "IsMemberOf u [''admins'']" by blast
    then show ?thesis
    proof cases
      case disabled
      then show ?thesis by (intro refused [OF Some same, of "''user_disabled''"]) (simp add: handleLogin_def Some Let_def q Inr)
    next
      case no
      then show ?thesis by (intro refused [OF Some same, of "''forbidden''"]) (simp add: handleLogin_def Some Let_def q Inr)
    next
      case yes
      obtain token v where t: "take_random (wb_world s1) = (token, v)" by (cases "take_random (wb_world s1)")
      obtain cr ss where c: "session_Create (wb_sessions s1) (wb_now s1) token (wb_now s1) (u_Username u) = (cr, ss)"
        by (cases "session_Create (wb_sessions s1) (wb_now s1) token (wb_now s1) (u_Username u)")
      show ?thesis
        by (rule created [OF Some same run_store_result [OF q [unfolded Inr]] yes t c])
          (cases cr; cases "projl cr"; simp add: handleLogin_def Some Let_def q Inr yes t c)
    qed
  qed
qed

lemma handleLogin_inv:
  assumes "web_inv s"
  shows "web_inv (snd (handleLogin idkey cfg r w s))"
proof (cases rule: handleLogin_state [of s idkey cfg r w])
  case (created s1 form u token v cr ss)
  have "w_db v = w_db (wb_world s1)" using take_random_frame [of "wb_world s1"] created(6) by simp
  moreover have "web_inv s1" using web_inv_same [OF created(2)] assms by simp
  ultimately have "web_inv (s1\<lparr>wb_world := (if cr = Inl ErrSessionLimit then wb_world s1 else v), wb_sessions := ss\<rparr>)"
    using session_ops_inv(4) [of "wb_sessions s1" "wb_now s1" token "wb_now s1" "u_Username u"] created(7)
    by (simp add: web_inv_def)
  then show ?thesis unfolding created(8) by (cases cr; cases "projl cr"; simp add: Let_def)
qed (use assms web_inv_same in simp_all)

text \<open>The handlers behind \<open>withAdminAuth\<close> that a request other than \<open>GET\<close> reaches, and those that only read.\<close>

inductive changing :: "idkey \<Rightarrow> error_texts \<Rightarrow> handler \<Rightarrow> bool" for idkey et where
  "changing idkey et handleLogout"
| "changing idkey et (handleCreateUser idkey et)"
| "changing idkey et (handleUpdateUser idkey et i)"
| "changing idkey et (handleDeleteUser et i)"
| "changing idkey et (handleCreateGroup et)"
| "changing idkey et (handleUpdateGroup et i)"
| "changing idkey et (handleDeleteGroup et i)"
| "changing idkey et (handleUpdateBaseDN et)"

inductive reading :: "handler \<Rightarrow> bool" where
  "reading handleUsersPage"
| "reading handleGroupsPage"
| "reading (\<lambda>r current w s. (Some (Redirect ''/users'' 303 w), s))"

text \<open>What the multiplexer does with a request.\<close>

inductive routed :: "idkey \<Rightarrow> error_texts \<Rightarrow> config \<Rightarrow> request \<Rightarrow> web \<Rightarrow> response option \<times> web \<Rightarrow> bool"
  for idkey et cfg r s where
  answer: "routed idkey et cfg r s (Some w, s)"
| login_page: "is_get r \<Longrightarrow> routed idkey et cfg r s (handleLoginPage r w s)"
| login: "rq_method r = ''POST'' \<Longrightarrow> rq_path r = ''/login'' \<Longrightarrow> routed idkey et cfg r s (handleLogin idkey cfg r w s)"
| read: "is_get r \<Longrightarrow> reading h \<Longrightarrow> routed idkey et cfg r s (withAdminAuth cfg h r w s)"
| change: "\<not> is_get r \<Longrightarrow> changing idkey et h \<Longrightarrow> routed idkey et cfg r s (withAdminAuth cfg h r w s)"

lemma routed_if:
  "(c \<Longrightarrow> routed idkey et cfg r s a) \<Longrightarrow> (\<not> c \<Longrightarrow> routed idkey et cfg r s b) \<Longrightarrow> routed idkey et cfg r s (if c then a else b)"
  by simp

lemma routed_option:
  "(\<And>i. routed idkey et cfg r s (f i)) \<Longrightarrow> routed idkey et cfg r s a \<Longrightarrow>
     routed idkey et cfg r s (case x of Some i \<Rightarrow> f i | None \<Rightarrow> a)"
  by (cases x) simp_all

lemma SecureMux_routed: "routed idkey et cfg r s (SecureMux idkey et cfg r s)"
  unfolding SecureMux_def Let_def
  by (rule routed_if routed_option answer | (rule login_page, assumption) | (rule login, assumption, assumption)
      | (rule read, assumption, rule reading.intros) | (rule change, assumption, rule changing.intros))+

end
