(* ===== verification/Web_Sessions.thy ===== *)
theory Web_Sessions
  imports Web_Laws
begin

text \<open>
  Sessions end with the rights they were created for: a request that changes or removes a user, or a
  group the user belongs to, leaves no session of that user. It holds as long as the driver reports no
  error during the request; \<open>quiet\<close> programs are those that do not report one by themselves.
\<close>

section \<open>Programs without driver errors\<close>

definition quiet :: "'a io \<Rightarrow> bool" where
  "quiet m \<longleftrightarrow> (\<forall>w. faults w = [] \<longrightarrow> faults (snd (m w)) = [] \<and> fst (m w) \<noteq> Inl DriverFault)"

named_theorems quiet_intros \<open>programs that report no driver error by themselves\<close>

lemma quietD: "quiet m \<Longrightarrow> faults w = [] \<Longrightarrow> m w = (r, w') \<Longrightarrow> faults w' = [] \<and> r \<noteq> Inl DriverFault"
  unfolding quiet_def by (metis fst_conv snd_conv)

lemma quiet_bind [quiet_intros]:
  assumes "quiet m" "\<And>x. quiet (k x)"
  shows "quiet (io_bind m k)"
  unfolding quiet_def
proof (intro allI impI)
  fix w :: world assume w: "faults w = []"
  obtain r w' where m: "m w = (r, w')" by (cases "m w")
  show "faults (snd (io_bind m k w)) = [] \<and> fst (io_bind m k w) \<noteq> Inl DriverFault"
    using quietD [OF assms(1) w m] assms(2) m by (cases r) (auto simp: io_bind_def quiet_def)
qed

lemma quiet_return [quiet_intros]: "quiet (io_return x)"
  by (simp add: quiet_def io_simps)

lemma quiet_fail [quiet_intros]: "e \<noteq> DriverFault \<Longrightarrow> quiet (io_fail e)"
  by (simp add: quiet_def io_simps)

lemma quiet_query: "(\<And>d. f d \<noteq> Inl DriverFault) \<Longrightarrow> quiet (query f)"
  by (simp add: quiet_def query_def fault_def)

lemma quiet_exec: "(\<And>d. f d \<noteq> Inl DriverFault) \<Longrightarrow> quiet (exec f)"
  by (fastforce simp: quiet_def exec_def fault_def split: sum.splits)

lemma first_row_quiet: "first_row P rows \<noteq> Inl DriverFault"
  by (simp add: first_row_def split: option.split)

lemma quiet_statements [quiet_intros]:
  "quiet (sql_update_user i a b e f)" "quiet (sql_update_group i a b)" "quiet (sql_delete_user i)"
  "quiet (sql_delete_group i)" "quiet (sql_delete_user_groups i)" "quiet (sql_insert_user_group i j)"
  "quiet (sql_user_by_id i)" "quiet (sql_group_by_id i)" "quiet (userGroups i)" "quiet (groupMembers i)" "quiet driver_point"
  unfolding sql_update_user_def sql_update_group_def sql_delete_user_def sql_delete_group_def sql_delete_user_groups_def
    sql_insert_user_group_def sql_user_by_id_def sql_group_by_id_def userGroups_def sql_user_groups_def groupMembers_def
    sql_group_members_def driver_point_def
  by (auto intro!: quiet_exec quiet_query quiet_bind quiet_return first_row_quiet split: if_splits)

lemma quiet_get [quiet_intros]: "quiet (GetUserByID i)" "quiet (GetGroupByID i)" "quiet (getUserTx i)"
  unfolding GetUserByID_def GetGroupByID_def getUserTx_def scanUser_def scanGroup_def by (intro quiet_intros)+

lemma quiet_transaction [quiet_intros]:
  assumes "quiet m"
  shows "quiet (transaction m)"
proof -
  have body: "quiet (io_bind m (\<lambda>x. io_bind driver_point (\<lambda>_. io_return x)))" by (intro quiet_intros assms)
  show ?thesis
    unfolding quiet_def
  proof (intro allI impI)
    fix w :: world assume "faults w = []"
    moreover have "driver_point w = (Inr (), w)" if "faults w = []" for w
      using that by (simp add: driver_point_def query_def fault_def)
    ultimately show "faults (snd (transaction m w)) = [] \<and> fst (transaction m w) \<noteq> Inl DriverFault"
      using body by (auto simp: transaction_def quiet_def split: prod.splits sum.splits)
  qed
qed

lemma quiet_assign [quiet_intros]: "quiet (assign_names i names)"
proof (induction names)
  case (Cons n names)
  have "quiet (sql_group_by_name n)" unfolding sql_group_by_name_def by (rule quiet_query) (rule first_row_quiet)
  then have "quiet (\<lambda>w. case sql_group_by_name n w of
      (Inl e, w) \<Rightarrow> (Inl (GroupLookup n e), w) | (Inr r, w) \<Rightarrow> (Inr (gr_id r), w))"
    unfolding quiet_def by (auto split: prod.splits sum.splits)
  then show ?case using Cons by (auto intro!: quiet_intros)
qed (auto intro: quiet_intros)

lemma quiet_updates [quiet_intros]:
  "quiet (UpdateUser idkey i input)" "quiet (UpdateGroup i g)" "quiet (DeleteUser i)" "quiet (DeleteGroup i)"
proof -
  have "quiet now_of" by (simp add: quiet_def now_of_def)
  moreover have "quiet (hash_password idkey p)" for p
    by (auto simp: quiet_def hash_password_def take_random_def split: list.splits prod.splits sum.splits)
  ultimately show "quiet (UpdateUser idkey i input)"
    unfolding UpdateUser_def assignGroupsTx_def Let_def by (auto intro!: quiet_intros)
  show "quiet (UpdateGroup i g)" unfolding UpdateGroup_def by (auto intro!: quiet_intros)
  show "quiet (DeleteUser i)" "quiet (DeleteGroup i)" unfolding DeleteUser_def DeleteGroup_def by (rule quiet_intros)+
qed

section \<open>What the operations leave of a user\<close>

text \<open>The user of this row is there with the same data and the same groups.\<close>

definition user_kept :: "db \<Rightarrow> db \<Rightarrow> user_row \<Rightarrow> bool" where
  "user_kept d d' row \<longleftrightarrow> row \<in> set (t_users d') \<and> groups_of d' (ur_id row) = groups_of d (ur_id row)"

lemma user_kept_refl [simp]: "row \<in> set (t_users d) \<Longrightarrow> user_kept d d row"
  by (simp add: user_kept_def)

lemma new_user_id: "db_inv d \<Longrightarrow> row \<in> set (t_users d) \<Longrightarrow> ur_id row \<noteq> users_seq d + 1"
  by (auto simp: db_inv_def users_ok_def user_row_ok_def)

lemma CreateUser_keeps:
  assumes "CreateUser idkey input w = (r, w')" "db_inv (w_db w)" "row \<in> set (t_users (w_db w))"
  shows "user_kept (w_db w) (w_db w') row"
  using assms(1)
proof (cases rule: CreateUser_cases)
  case (created phc salt gids)
  then show ?thesis
    using new_user_id [OF assms(2,3)] assms(3)
    by (auto simp: user_kept_def db_with_user_def groups_of_def new_user_row_def image_iff intro!: arg_cong [where f = "sort_key gr_name"]
        filter_cong)
qed (simp add: assms)

lemma CreateGroup_keeps:
  assumes "CreateGroup input w = (r, w')" "db_inv (w_db w)" "row \<in> set (t_users (w_db w))"
  shows "user_kept (w_db w) (w_db w') row"
proof (cases "trim_space (in_Name input) = []")
  case False
  let ?ins = "sql_insert_group (trim_space (in_Name input)) (trim_space (in_Description input))"
  obtain ri w1 where ins: "?ins w = (ri, w1)" by (cases "?ins w")
  have rest: "w_db w' = w_db w1"
  proof (cases ri)
    case (Inr i)
    have "w_db (snd (io_bind driver_point (\<lambda>_. GetGroupByID i) w1)) = w_db w1"
      using keepsD [OF keeps_bind [OF keeps_driver_point keeps_GetGroup(1)], of "\<lambda>d. d = w_db w1" w1] by simp
    then show ?thesis using assms(1) False ins Inr by (simp add: CreateGroup_def io_bind_def)
  qed (use assms(1) False ins in \<open>simp add: CreateGroup_def io_bind_def\<close>)
  have "groups_seq (w_db w) + 1 \<notin> gr_id ` set (t_groups (w_db w))"
    using assms(2) by (auto simp: db_inv_def groups_ok_def)
  then have "(u, groups_seq (w_db w) + 1) \<notin> set (t_user_groups (w_db w))" for u
    using assms(2) by (force simp: db_inv_def memberships_ok_def)
  then have "user_kept (w_db w) (w_db w1) row"
    using ins assms(3) unfolding sql_insert_group_def
    by (cases rule: exec_cases [of "\<lambda>d. if trim_space (in_Name input) \<in> gr_name ` set (t_groups d) then Inl UniqueViolation
       else if groups_seq d \<ge> max_rowid then Inl DatabaseFull
       else Inr (groups_seq d + 1,
         d\<lparr>t_groups := t_groups d @ [\<lparr>gr_id = groups_seq d + 1, gr_name = trim_space (in_Name input),
             gr_description = trim_space (in_Description input)\<rparr>],
           groups_seq := groups_seq d + 1\<rparr>)" w])
      (auto simp: user_kept_def groups_of_def split: if_splits)
  then show ?thesis using rest by simp
qed (use assms in \<open>simp add: CreateGroup_def io_simps\<close>)

text \<open>The rows of other users, when the row of one user is updated or deleted.\<close>

lemma UpdateUser_keeps:
  assumes "UpdateUser idkey i input w = (r, w')" "db_inv (w_db w)" "faults w = []" "row \<in> set (t_users (w_db w))"
  shows "user_kept (w_db w) (w_db w') row \<or> (\<exists>u. r = Inr u \<and> u_Username u = ur_username row)"
  using assms(1)
proof (cases rule: UpdateUser_cases)
  case (updated row0 phc gids)
  show ?thesis
  proof (cases "ur_id row = i")
    case True
    then have "row = row0" using row_by_id [OF assms(2,4) updated(1)] updated(2) by simp
    have inv': "db_inv (w_db w')" using keepsD [OF keeps_UpdateUser, of w idkey i input] assms(1,2) by simp
    let ?row = "updated_row i (next_display input row0) phc (boolInt (in_Disabled input)) (w_now w) row0"
    have row: "?row \<in> set (t_users (w_db w'))" "ur_id ?row = i" "ur_username ?row = ur_username row"
      using updated(1,2,5) \<open>row = row0\<close> by (auto simp: db_with_update_def updated_row_def)
    obtain w1 where w1: "w_db w1 = w_db w'" "GetUserByID i w1 = (r, w')" using updated(6) by blast
    have "case r of Inl e \<Rightarrow> e = DriverFault | Inr u \<Rightarrow> u = load_user (w_db w') ?row"
      using GetUserByID_present [OF w1(2), unfolded w1(1), OF inv' row(1,2)] .
    moreover have "r \<noteq> Inl DriverFault" using quietD [OF quiet_updates(1) assms(3,1)] by simp
    ultimately show ?thesis using row(3) by (cases r) (auto simp: load_user_def scanned_user_def)
  next
    case False
    then show ?thesis
      using updated(5) assms(4)
      by (auto simp: user_kept_def db_with_update_def groups_of_def updated_row_def image_iff intro!: rev_bexI [of row]
          arg_cong [where f = "sort_key gr_name"] filter_cong)
  qed
qed (simp add: assms)

lemma GetUserByID_quiet:
  assumes "GetUserByID i w = (r, w')" "db_inv (w_db w)" "faults w = []" "row \<in> set (t_users (w_db w))" "ur_id row = i"
  shows "\<exists>u. r = Inr u \<and> u_Username u = ur_username row"
  using GetUserByID_present [OF assms(1,2,4,5)] quietD [OF quiet_get(1) assms(3,1)]
  by (cases r) (auto simp: load_user_def scanned_user_def)

lemma DeleteUser_db:
  assumes "DeleteUser i w = (r, w')" "foreign_keys (w_db w)"
  shows "w_db w' = w_db w \<or> w_db w' = (w_db w)\<lparr>t_users := filter (\<lambda>r. ur_id r \<noteq> i) (t_users (w_db w)),
    t_user_groups := filter (\<lambda>(u, g). u \<noteq> i) (t_user_groups (w_db w))\<rparr>"
  using assms unfolding DeleteUser_def sql_delete_user_def
  by (cases rule: exec_cases [of "\<lambda>d. Inr ((), d\<lparr>t_users := filter (\<lambda>r. ur_id r \<noteq> i) (t_users d),
       t_user_groups := (if foreign_keys d then filter (\<lambda>(u, g). u \<noteq> i) (t_user_groups d) else t_user_groups d)\<rparr>)" w]) auto

lemma DeleteGroup_db:
  assumes "DeleteGroup i w = (r, w')" "foreign_keys (w_db w)"
  shows "w_db w' = w_db w \<or> w_db w' = (w_db w)\<lparr>t_groups := filter (\<lambda>r. gr_id r \<noteq> i) (t_groups (w_db w)),
    t_user_groups := filter (\<lambda>(u, g). g \<noteq> i) (t_user_groups (w_db w))\<rparr>"
  using assms unfolding DeleteGroup_def sql_delete_group_def
  by (cases rule: exec_cases [of "\<lambda>d. Inr ((), d\<lparr>t_groups := filter (\<lambda>r. gr_id r \<noteq> i) (t_groups d),
       t_user_groups := (if foreign_keys d then filter (\<lambda>(u, g). g \<noteq> i) (t_user_groups d) else t_user_groups d)\<rparr>)" w]) auto

lemma exec_Inl: "exec f w = (Inl e, w') \<Longrightarrow> w_db w' = w_db w"
  by (cases rule: exec_cases [of f w]) auto

lemma UpdateGroup_db:
  assumes "UpdateGroup i input w = (r, w')"
  shows "w_db w' = w_db w \<or> w_db w' = (w_db w)\<lparr>t_groups := map (\<lambda>r. if gr_id r = i
      then r\<lparr>gr_name := trim_space (in_Name input), gr_description := trim_space (in_Description input)\<rparr> else r)
      (t_groups (w_db w))\<rparr> \<and> (\<exists>w1. w_db w1 = w_db w' \<and> (faults w = [] \<longrightarrow> faults w1 = []) \<and> GetGroupByID i w1 = (r, w'))"
proof (cases "trim_space (in_Name input) = []")
  case False
  let ?upd = "sql_update_group i (trim_space (in_Name input)) (trim_space (in_Description input))"
  obtain ru w1 where upd: "?upd w = (ru, w1)" by (cases "?upd w")
  show ?thesis
  proof (cases ru)
    case (Inl e)
    then have "w_db w1 = w_db w" using exec_Inl upd unfolding sql_update_group_def by blast
    moreover have "w' = w1" using assms False upd Inl by (simp add: UpdateGroup_def io_bind_def)
    ultimately show ?thesis by simp
  next
    case (Inr u)
    have get: "GetGroupByID i w1 = (r, w')" using assms False upd Inr by (simp add: UpdateGroup_def io_bind_def)
    then have "w_db w' = w_db w1" using GetGroup_db [of i w1] by simp
    then show ?thesis
      using exec_Inr [OF upd [unfolded Inr sql_update_group_def]] get quietD [OF quiet_statements(2) _ upd]
      by (auto split: if_splits)
  qed
qed (use assms in \<open>simp add: UpdateGroup_def io_simps\<close>)

lemma GetGroupByID_quiet:
  assumes "GetGroupByID i w = (r, w')" "faults w = []" "i \<in> gr_id ` set (t_groups (w_db w))"
  shows "\<exists>g. r = Inr g \<and> g_MemberUIDs g = members_of (w_db w) i"
proof -
  obtain row where "first_row (\<lambda>r. gr_id r = i) (t_groups (w_db w)) = Inr row"
    using assms(3) by (cases "first_row (\<lambda>r. gr_id r = i) (t_groups (w_db w))") (auto simp: first_row_Inl)
  moreover from this have "gr_id row = i" by (auto dest: first_row_Inr)
  ultimately show ?thesis
    using assms(1,2)
    by (auto simp: GetGroupByID_def scanGroup_def sql_group_by_id_def groupMembers_def sql_group_members_def io_bind_def
        query_def fault_def io_return_def)
qed

lemma member_name: "row \<in> set (t_users d) \<Longrightarrow> (ur_id row, i) \<in> set (t_user_groups d) \<Longrightarrow> ur_username row \<in> set (members_of d i)"
  by (simp add: members_of_def)

lemma member_group: "db_inv d \<Longrightarrow> (u, i) \<in> set (t_user_groups d) \<Longrightarrow> i \<in> gr_id ` set (t_groups d)"
  unfolding db_inv_def memberships_ok_def by blast

lemma other_groups_kept:
  assumes "row \<in> set (t_users d)" "(ur_id row, i) \<notin> set (t_user_groups d)"
  shows "(\<And>g. gr_id (f g) = gr_id g) \<Longrightarrow>
      user_kept d (d\<lparr>t_groups := map (\<lambda>g. if gr_id g = i then f g else g) (t_groups d)\<rparr>) row"
    "user_kept d (d\<lparr>t_groups := filter (\<lambda>r. gr_id r \<noteq> i) (t_groups d),
       t_user_groups := filter (\<lambda>(u, g). g \<noteq> i) (t_user_groups d)\<rparr>) row"
proof -
  assume "\<And>g. gr_id (f g) = gr_id g"
  then have "filter (\<lambda>g. (ur_id row, gr_id g) \<in> set (t_user_groups d)) (map (\<lambda>g. if gr_id g = i then f g else g) gs)
      = filter (\<lambda>g. (ur_id row, gr_id g) \<in> set (t_user_groups d)) gs" for gs
    using assms(2) by (induction gs) auto
  then show "user_kept d (d\<lparr>t_groups := map (\<lambda>g. if gr_id g = i then f g else g) (t_groups d)\<rparr>) row"
    using assms(1) by (auto simp: user_kept_def groups_of_def)
next
  show "user_kept d (d\<lparr>t_groups := filter (\<lambda>r. gr_id r \<noteq> i) (t_groups d),
       t_user_groups := filter (\<lambda>(u, g). g \<noteq> i) (t_user_groups d)\<rparr>) row"
    using assms by (auto simp: user_kept_def groups_of_def intro!: arg_cong [where f = "sort_key gr_name"] filter_cong)
qed

section \<open>Requests\<close>

definition ended :: "web \<Rightarrow> web \<Rightarrow> user_row \<Rightarrow> bool" where
  "ended s s' row \<longleftrightarrow> user_kept (w_db (wb_world s)) (w_db (wb_world s')) row \<or> no_session_of (ur_username row) (wb_sessions s')"

lemma ended_same: "same_but_faults s1 s2 \<Longrightarrow> ended s s1 row \<Longrightarrow> ended s s2 row"
  by (auto simp: ended_def dest: same_fields)

lemma ended_panels [simp]:
  assumes "ended s s1 row"
  shows "ended s (snd (renderUsersPanel r u st w s1)) row" "ended s (snd (renderUsersPanelError r u msg st w s1)) row"
    "ended s (snd (renderGroupsPanel r u st w s1)) row" "ended s (snd (renderGroupsPanelError r u msg st w s1)) row"
    "ended s (snd (renderPanelForView r u view msg st w s1)) row"
  by (rule ended_same [OF _ assms], rule panels_same)+

lemma ended_kept: "user_kept (w_db (wb_world s)) (w_db (wb_world s')) row \<Longrightarrow> ended s s' row"
  by (simp add: ended_def)

lemma ended_start: "row \<in> set (t_users (w_db (wb_world s))) \<Longrightarrow> ended s s row"
  by (simp add: ended_def)

lemma revoke_frame [simp]: "wb_world (revoke u s) = wb_world s" "wb_settings (revoke u s) = wb_settings s"
  by (simp_all add: revoke_def)

lemma revoke_all_frame [simp]: "wb_world (revoke_all us s) = wb_world s"
  by (induction us arbitrary: s) simp_all

lemma revoke_ends [simp]: "no_session_of u (wb_sessions (revoke u s))"
  by (auto simp: no_session_of_def revoke_def session_RevokeUser_def)

lemma revoke_keeps_ended: "no_session_of u (wb_sessions s) \<Longrightarrow> no_session_of u (wb_sessions (revoke v s))"
  by (auto simp: no_session_of_def revoke_def session_RevokeUser_def)

lemma revoke_all_keeps_ended: "no_session_of u (wb_sessions s) \<Longrightarrow> no_session_of u (wb_sessions (revoke_all us s))"
  by (induction us arbitrary: s) (simp_all add: revoke_keeps_ended)

lemma revoke_all_ends: "u \<in> set us \<Longrightarrow> no_session_of u (wb_sessions (revoke_all us s))"
  by (induction us arbitrary: s) (auto intro: revoke_all_keeps_ended)

lemma run_store_frame: "run_store m s = (r, s') \<Longrightarrow> wb_sessions s' = wb_sessions s"
  by (auto dest: run_store_fields)

text \<open>Preconditions of a request that are used throughout.\<close>

definition undisturbed :: "web \<Rightarrow> user_row \<Rightarrow> bool" where
  "undisturbed s row \<longleftrightarrow> db_inv (w_db (wb_world s)) \<and> faults (wb_world s) = [] \<and> row \<in> set (t_users (w_db (wb_world s)))"

lemma user_handlers_end:
  assumes "undisturbed s row"
  shows "ended s (snd (handleLogout r u w s)) row" "ended s (snd (handleCreateUser idkey et r u w s)) row"
    "ended s (snd (handleUpdateUser idkey et i r u w s)) row"
proof -
  note pre = assms [unfolded undisturbed_def]
  note start = ended_start [of row s]
  show "ended s (snd (handleLogout r u w s)) row"
    using pre by (auto simp: handleLogout_def Let_def intro!: ended_kept split: option.split)
  have create: "ended s s1 row" if "run_store (CreateUser idkey input) s = (res, s1)" for input res s1
    using CreateUser_keeps [OF run_store_result [OF that]] pre by (simp add: ended_def)
  show "ended s (snd (handleCreateUser idkey et r u w s)) row"
    using pre by (auto simp: handleCreateUser_def start dest: create split: option.split prod.split sum.split)
  have upd: "ended s (case res of Inl _ \<Rightarrow> s1 | Inr v \<Rightarrow> revoke (u_Username v) s1) row"
    if "run_store (UpdateUser idkey j input) s = (res, s1)" for j input res s1
    using UpdateUser_keeps [OF run_store_result [OF that]] pre
    by (cases res) (auto simp: ended_def, metis revoke_ends)
  show "ended s (snd (handleUpdateUser idkey et i r u w s)) row"
    using pre by (auto simp: handleUpdateUser_def start dest: upd split: option.split prod.split sum.split)
qed

lemma handleDeleteUser_ends:
  assumes "undisturbed s row"
  shows "ended s (snd (handleDeleteUser et i r u w s)) row"
proof (cases "parse_id i")
  case (Some j)
  note pre = assms [unfolded undisturbed_def]
  obtain rg s1 where get: "run_store (GetUserByID j) s = (rg, s1)" by (cases "run_store (GetUserByID j) s")
  note same = same_fields [OF reads_same(3) [OF get]]
  let ?s = "case (rg, s1) of (Inr user, s) \<Rightarrow> revoke (u_Username user) s | (Inl _, s) \<Rightarrow> s"
  obtain rd s2 where del: "run_store (DeleteUser j) ?s = (rd, s2)" by (cases "run_store (DeleteUser j) ?s")
  have "ended s s2 row"
  proof (cases "ur_id row = j")
    case True
    then obtain user where "rg = Inr user" "u_Username user = ur_username row"
      using GetUserByID_quiet [OF run_store_result [OF get]] pre by blast
    moreover have "wb_sessions s2 = wb_sessions ?s" using run_store_frame [OF del] .
    ultimately show ?thesis unfolding ended_def by (metis (no_types, lifting) case_prod_conv revoke_ends sum.case(2))
  next
    case False
    have "w_db (wb_world ?s) = w_db (wb_world s)" using same by (simp split: sum.split)
    then show ?thesis
      using DeleteUser_db [OF run_store_result [OF del]] pre False
      by (auto simp: ended_def user_kept_def groups_of_def db_inv_def intro!: arg_cong [where f = "sort_key gr_name"] filter_cong)
  qed
  then show ?thesis
    using get del by (simp add: handleDeleteUser_def Some Let_def split: sum.split)
qed (use assms in \<open>simp add: handleDeleteUser_def ended_start undisturbed_def\<close>)

lemma group_handlers_end:
  assumes "undisturbed s row"
  shows "ended s (snd (handleCreateGroup et r u w s)) row" "ended s (snd (handleUpdateGroup et i r u w s)) row"
proof -
  note pre = assms [unfolded undisturbed_def]
  note start = ended_start [of row s]
  have create: "ended s s1 row" if "run_store (CreateGroup input) s = (res, s1)" for input res s1
    using CreateGroup_keeps [OF run_store_result [OF that]] pre by (simp add: ended_def)
  show "ended s (snd (handleCreateGroup et r u w s)) row"
    using pre by (auto simp: handleCreateGroup_def start dest: create split: option.split prod.split sum.split)
  have upd: "ended s (case res of Inl _ \<Rightarrow> s1 | Inr g \<Rightarrow> revoke_all (g_MemberUIDs g) s1) row"
    if run: "run_store (UpdateGroup j input) s = (res, s1)" for j input res s1
  proof -
    note res = run_store_result [OF run]
    show ?thesis
    proof (cases "(ur_id row, j) \<in> set (t_user_groups (w_db (wb_world s)))")
      case False
      then have "user_kept (w_db (wb_world s)) (w_db (wb_world s1)) row"
        using UpdateGroup_db [OF res] other_groups_kept(1) [of row _ j] pre by fastforce
      then show ?thesis by (auto intro!: ended_kept split: sum.split)
    next
      case True
      from UpdateGroup_db [OF res] show ?thesis
      proof (elim disjE conjE exE)
        assume "w_db (wb_world s1) = w_db (wb_world s)"
        then show ?thesis using pre by (auto intro!: ended_kept split: sum.split)
      next
        fix w1
        assume d: "w_db (wb_world s1) = (w_db (wb_world s))\<lparr>t_groups := map (\<lambda>r. if gr_id r = j
            then r\<lparr>gr_name := trim_space (in_Name input), gr_description := trim_space (in_Description input)\<rparr> else r)
            (t_groups (w_db (wb_world s)))\<rparr>"
          and w1: "w_db w1 = w_db (wb_world s1)" "faults (wb_world s) = [] \<longrightarrow> faults w1 = []" "GetGroupByID j w1 = (res, wb_world s1)"
        have "gr_id ` set (map (\<lambda>r. if gr_id r = j then r\<lparr>gr_name := a, gr_description := b\<rparr> else r) gs) = gr_id ` set gs"
          for a b gs by (induction gs) auto
        from this [of "trim_space (in_Description input)" "trim_space (in_Name input)" "t_groups (w_db (wb_world s))"]
        have "gr_id ` set (t_groups (w_db w1)) = gr_id ` set (t_groups (w_db (wb_world s)))"
          unfolding w1(1) d by simp
        then have "j \<in> gr_id ` set (t_groups (w_db w1))" using member_group [OF _ True] pre by simp
        then obtain g where "res = Inr g \<and> g_MemberUIDs g = members_of (w_db w1) j"
          using GetGroupByID_quiet [OF w1(3)] w1(2) pre by blast
        moreover have "ur_username row \<in> set (members_of (w_db w1) j)"
          using member_name True pre d w1(1) by simp
        ultimately show ?thesis by (simp add: ended_def revoke_all_ends)
      qed
    qed
  qed
  show "ended s (snd (handleUpdateGroup et i r u w s)) row"
    using pre by (auto simp: handleUpdateGroup_def start dest: upd split: option.split prod.split sum.split)
qed

lemma handleDeleteGroup_ends:
  assumes "undisturbed s row"
  shows "ended s (snd (handleDeleteGroup et i r u w s)) row"
proof (cases "parse_id i")
  case (Some j)
  note pre = assms [unfolded undisturbed_def]
  obtain rg s1 where get: "run_store (GetGroupByID j) s = (rg, s1)" by (cases "run_store (GetGroupByID j) s")
  note same = same_fields [OF reads_same(6) [OF get]]
  let ?s = "case (rg, s1) of (Inr g, s) \<Rightarrow> revoke_all (g_MemberUIDs g) s | (Inl _, s) \<Rightarrow> s"
  obtain rd s2 where del: "run_store (DeleteGroup j) ?s = (rd, s2)" by (cases "run_store (DeleteGroup j) ?s")
  have "ended s s2 row"
  proof (cases "(ur_id row, j) \<in> set (t_user_groups (w_db (wb_world s)))")
    case True
    then obtain g where g: "rg = Inr g" "g_MemberUIDs g = members_of (w_db (wb_world s)) j"
      using GetGroupByID_quiet [OF run_store_result [OF get]] member_group [OF _ True] pre by blast
    then have "no_session_of (ur_username row) (wb_sessions ?s)"
      using member_name True pre by (simp add: revoke_all_ends)
    then show ?thesis using run_store_frame [OF del] by (simp add: ended_def)
  next
    case False
    have "w_db (wb_world ?s) = w_db (wb_world s)" using same by (simp split: sum.split)
    then show ?thesis
      using DeleteGroup_db [OF run_store_result [OF del]] other_groups_kept(2) [of row _ j] pre False
      by (auto simp: ended_def db_inv_def)
  qed
  then show ?thesis
    using get del by (simp add: handleDeleteGroup_def Some Let_def split: sum.split)
qed (use assms in \<open>simp add: handleDeleteGroup_def ended_start undisturbed_def\<close>)

lemma handleUpdateBaseDN_ends:
  assumes "undisturbed s row"
  shows "ended s (snd (handleUpdateBaseDN et r u w s)) row"
proof (cases rule: handleUpdateBaseDN_state [of s et r u w])
  case refused
  then show ?thesis using assms by (intro ended_same [OF refused] ended_start) (simp add: undisturbed_def)
next
  case (changed n v)
  show ?thesis
    by (rule ended_same [OF changed(3)])
      (use assms in \<open>simp add: ended_def user_kept_def changed(2) undisturbed_def groups_of_def\<close>)
qed

end
