(* ===== verification/Web_Access.thy ===== *)
theory Web_Access
  imports Web_Sessions
begin

text \<open>
  The guard \<open>withAdminAuth\<close> and the handlers behind it. The guard is given a handler; what it relies on is the
  contract \<open>admin_handler\<close>, which every handler of the web server meets, and \<open>reading_handler\<close> for those that
  only show pages. The consequences for a whole request follow.
\<close>

section \<open>The audit log and the limits\<close>

definition audit_extends :: "audit_logger option \<Rightarrow> audit_logger option \<Rightarrow> bool" where
  "audit_extends l l' \<longleftrightarrow> (l = None \<longleftrightarrow> l' = None) \<and> (\<exists>rs. records_of l' = records_of l @ rs)"

lemma audit_extends_refl [simp]: "audit_extends l l"
  by (simp add: audit_extends_def)

lemma audit_extends_login: "audit_extends l (WebLogin l now ip u r)"
  by (cases l) (simp_all add: WebLogin_record append_record_def audit_extends_def records_of_def)

text \<open>What only a login and nothing else touches: the audit log; and what nothing touches: the limits of the
  session store.\<close>

definition books :: "web \<Rightarrow> audit_logger option \<times> duration \<times> int" where
  "books s = (wb_audit s, ss_timeout (wb_sessions s), ss_max (wb_sessions s))"

lemma session_op_limits [simp]:
  "ss_timeout (session_RevokeUser ss u) = ss_timeout ss" "ss_max (session_RevokeUser ss u) = ss_max ss"
  "ss_timeout (session_Delete ss sid) = ss_timeout ss" "ss_max (session_Delete ss sid) = ss_max ss"
  "ss_timeout (snd (session_Get ss n1 n2 sid)) = ss_timeout ss" "ss_max (snd (session_Get ss n1 n2 sid)) = ss_max ss"
  "ss_timeout (snd (session_Create ss n1 tok n2 u)) = ss_timeout ss" "ss_max (snd (session_Create ss n1 tok n2 u)) = ss_max ss"
  by (simp_all add: session_RevokeUser_def session_Delete_def session_Get_def session_Create_def
      cleanupLocked_def Let_def split: option.split)

lemma books_same: "same_but_faults s s' \<Longrightarrow> books s' = books s"
  by (simp add: books_def same_fields)

lemma books_panels [simp]:
  "books (snd (renderUsersPanel r u st w s)) = books s" "books (snd (renderUsersPanelError r u msg st w s)) = books s"
  "books (snd (renderGroupsPanel r u st w s)) = books s" "books (snd (renderGroupsPanelError r u msg st w s)) = books s"
  "books (snd (renderPanelForView r u view msg st w s)) = books s"
  by (rule books_same, rule panels_same)+

lemma books_run_store: "run_store m s = (r, s') \<Longrightarrow> books s' = books s"
  by (auto simp: books_def dest: run_store_fields)

lemma books_revoke [simp]: "books (revoke u s) = books s" "books (revoke_all us s) = books s"
proof -
  show r: "books (revoke u s) = books s" for u s by (simp add: revoke_def books_def)
  show "books (revoke_all us s) = books s" by (induction us arbitrary: s) (simp_all add: r)
qed

lemma handler_books:
  "books (snd (handleLogout r u w s)) = books s" "books (snd (handleCreateUser idkey et r u w s)) = books s"
  "books (snd (handleUpdateUser idkey et i r u w s)) = books s" "books (snd (handleDeleteUser et i r u w s)) = books s"
  "books (snd (handleCreateGroup et r u w s)) = books s" "books (snd (handleUpdateGroup et i r u w s)) = books s"
  "books (snd (handleDeleteGroup et i r u w s)) = books s"
  by (auto simp: handleLogout_def handleCreateUser_def handleUpdateUser_def handleDeleteUser_def handleCreateGroup_def
      handleUpdateGroup_def handleDeleteGroup_def Let_def dest!: books_run_store split: option.split prod.splits sum.splits)
    (simp add: books_def)

lemma handleUpdateBaseDN_books: "books (snd (handleUpdateBaseDN et r u w s)) = books s"
proof (cases rule: handleUpdateBaseDN_state [of s et r u w])
  case (changed n v)
  then show ?thesis using books_same [OF changed(3)] by (simp add: books_def)
qed (rule books_same)

section \<open>The current user\<close>

definition directory :: "web \<Rightarrow> db \<times> dir_settings" where
  "directory s = (w_db (wb_world s), wb_settings s)"

lemma directory_same: "same_but_faults s s' \<Longrightarrow> directory s' = directory s"
  by (auto simp: directory_def dest: same_fields)

lemma currentUser_directory: "directory (snd (currentUser r s)) = directory s"
  by (cases "currentUser r s") (simp add: directory_def currentUser_result)

lemma quiet_GetUserByUsername: "quiet (GetUserByUsername n)"
  unfolding GetUserByUsername_def scanUser_def sql_user_by_name_def
  by (intro quiet_intros quiet_query first_row_quiet)

lemma currentUser_quiet: "faults (wb_world s) = [] \<Longrightarrow> faults (wb_world (snd (currentUser r s))) = []"
  by (auto simp: currentUser_def revoke_def split: option.split prod.split sum.split
      dest!: run_store_result dest: quietD [OF quiet_GetUserByUsername])

lemma currentUser_books: "books (snd (currentUser r s)) = books s"
proof -
  have "ss_timeout ss = ss_timeout (wb_sessions s) \<and> ss_max ss = ss_max (wb_sessions s)"
    if "session_Get (wb_sessions s) n1 n2 sid = (g, ss)" for n1 n2 sid g ss
    using that session_op_limits(5,6) [of "wb_sessions s" n1 n2 sid] by simp
  then have "books (s\<lparr>wb_sessions := ss\<rparr>) = books s" if "session_Get (wb_sessions s) n1 n2 sid = (g, ss)" for n1 n2 sid g ss
    using that by (simp add: books_def)
  then show ?thesis
    by (auto simp: currentUser_def dest!: books_run_store split: option.split prod.split sum.split)
qed

text \<open>The guard refuses, or calls the handler for a signed-in administrator.\<close>

lemma withAdminAuth_cases:
  obtains (refused) resp where "withAdminAuth cfg h r w s = (Some resp, snd (currentUser r s))"
  | (admin) u sid s1 where "currentUser r s = (Some (u, sid), s1)" "signed_in r s u" "IsMemberOf u [''admins'']"
      "withAdminAuth cfg h r w s = h r u (setSessionCookie cfg s1 r sid w) s1"
proof -
  obtain c s1 where cu: "currentUser r s = (c, s1)" by (cases "currentUser r s")
  show ?thesis
  proof (cases c)
    case None
    then show ?thesis using cu by (intro refused) (simp add: withAdminAuth_def)
  next
    case (Some us)
    obtain u sid where us: "us = (u, sid)" by (cases us)
    show ?thesis
    proof (cases "IsMemberOf u [''admins'']")
      case True
      show ?thesis
        by (rule admin [OF _ _ True])
          (use cu Some us True currentUser_result(5) [OF cu] in \<open>simp_all add: withAdminAuth_def\<close>)
    next
      case False
      then show ?thesis using cu Some us by (intro refused) (simp add: withAdminAuth_def)
    qed
  qed
qed

section \<open>The contract of a handler\<close>

locale admin_handler =
  fixes h :: handler
  assumes keeps_inv: "web_inv s \<Longrightarrow> web_inv (snd (h r u w s))"
    and keeps_books: "books (snd (h r u w s)) = books s"
    and ends_sessions: "undisturbed s row \<Longrightarrow> ended s (snd (h r u w s)) row"
begin

lemma guarded_inv: "web_inv s \<Longrightarrow> web_inv (snd (withAdminAuth cfg h r w s))"
  using currentUser_inv [of s r] keeps_inv by (cases rule: withAdminAuth_cases [of cfg h r w s]) auto

lemma guarded_books: "books (snd (withAdminAuth cfg h r w s)) = books s"
  using currentUser_books [of r s] keeps_books by (cases rule: withAdminAuth_cases [of cfg h r w s]) auto

lemma guarded_ends:
  assumes "undisturbed s row"
  shows "ended s (snd (withAdminAuth cfg h r w s)) row"
proof -
  note dir = currentUser_directory [of r s, unfolded directory_def]
  show ?thesis
  proof (cases rule: withAdminAuth_cases [of cfg h r w s])
    case (refused resp)
    then show ?thesis using assms dir by (simp add: ended_def undisturbed_def)
  next
    case (admin u sid s1)
    have "undisturbed s1 row"
      using assms dir admin(1) currentUser_quiet [of s r] by (simp add: undisturbed_def)
    from ends_sessions [OF this] show ?thesis using dir admin(1) unfolding admin(4) by (simp add: ended_def)
  qed
qed

end

text \<open>A handler that only reads meets the contract and leaves the directory alone.\<close>

locale reading_handler =
  fixes h :: handler
  assumes only_reads: "same_but_faults s (snd (h r u w s))"
begin

lemma guarded_directory: "directory (snd (withAdminAuth cfg h r w s)) = directory s"
proof (cases rule: withAdminAuth_cases [of cfg h r w s])
  case (admin u sid s1)
  then show ?thesis
    using directory_same [OF only_reads] currentUser_directory [of r s] by simp
qed (simp add: currentUser_directory)

end

sublocale reading_handler \<subseteq> admin_handler h
proof unfold_locales
  fix r u w s row
  show "web_inv s \<Longrightarrow> web_inv (snd (h r u w s))" using web_inv_same [OF only_reads] by simp
  show "books (snd (h r u w s)) = books s" by (rule books_same) (rule only_reads)
  show "undisturbed s row \<Longrightarrow> ended s (snd (h r u w s)) row"
    by (rule ended_same [OF only_reads]) (rule ended_start, simp add: undisturbed_def)
qed

context reading_handler
begin

lemma contract: "admin_handler h"
  by (rule admin_handler_axioms)

end

lemmas contract_facts = handler_inv_users handler_inv_groups handleUpdateBaseDN_inv handler_books handleUpdateBaseDN_books
  user_handlers_end handleDeleteUser_ends group_handlers_end handleDeleteGroup_ends handleUpdateBaseDN_ends

interpretation logout: admin_handler handleLogout
  by unfold_locales (simp_all add: contract_facts)

interpretation create_user: admin_handler "handleCreateUser idkey et"
  by unfold_locales (simp_all add: contract_facts)

interpretation update_user: admin_handler "handleUpdateUser idkey et i"
  by unfold_locales (simp_all add: contract_facts)

interpretation delete_user: admin_handler "handleDeleteUser et i"
  by unfold_locales (simp_all add: contract_facts)

interpretation create_group: admin_handler "handleCreateGroup et"
  by unfold_locales (simp_all add: contract_facts)

interpretation update_group: admin_handler "handleUpdateGroup et i"
  by unfold_locales (simp_all add: contract_facts)

interpretation delete_group: admin_handler "handleDeleteGroup et i"
  by unfold_locales (simp_all add: contract_facts)

interpretation update_base_dn: admin_handler "handleUpdateBaseDN et"
  by unfold_locales (simp_all add: contract_facts)

interpretation users_page: reading_handler handleUsersPage
  by unfold_locales (simp add: handleUsersPage_def panels_same)

interpretation groups_page: reading_handler handleGroupsPage
  by unfold_locales (simp add: handleGroupsPage_def panels_same)

interpretation start_page: reading_handler "\<lambda>r current w s. (Some (Redirect ''/users'' 303 w), s)"
  by unfold_locales simp

lemma changing_handler: "changing idkey et h \<Longrightarrow> admin_handler h"
  by (induction rule: changing.induct)
    (rule logout.admin_handler_axioms create_user.admin_handler_axioms update_user.admin_handler_axioms
      delete_user.admin_handler_axioms create_group.admin_handler_axioms update_group.admin_handler_axioms
      delete_group.admin_handler_axioms update_base_dn.admin_handler_axioms)+

lemma reading_handlers: "reading h \<Longrightarrow> reading_handler h"
  by (induction rule: reading.induct)
    (rule users_page.reading_handler_axioms groups_page.reading_handler_axioms start_page.reading_handler_axioms)+

section \<open>Requests\<close>

lemma handleLogin_directory: "directory (snd (handleLogin idkey cfg r w s)) = directory s"
proof (cases rule: handleLogin_state [of s idkey cfg r w])
  case (created s1 form u token v cr ss)
  have "w_db v = w_db (wb_world s1)" using take_random_frame [of "wb_world s1"] created(6) by simp
  then show ?thesis
    using directory_same [OF created(2)] unfolding created(8)
    by (cases cr; cases "projl cr"; simp add: directory_def audit_login_def Let_def)
qed (simp_all add: directory_same directory_def audit_login_def same_fields)

lemma handleLogin_books:
  "audit_extends (wb_audit s) (wb_audit (snd (handleLogin idkey cfg r w s))) \<and>
   snd (books (snd (handleLogin idkey cfg r w s))) = snd (books s)"
proof (cases rule: handleLogin_state [of s idkey cfg r w])
  case (created s1 form u token v cr ss)
  have "ss_timeout ss = ss_timeout (wb_sessions s1) \<and> ss_max ss = ss_max (wb_sessions s1)"
    using session_op_limits(7,8) [of "wb_sessions s1" "wb_now s1" token "wb_now s1" "u_Username u"] created(7) by simp
  then show ?thesis
    using same_fields [OF created(2)] unfolding created(8)
    by (cases cr; cases "projl cr"; simp add: audit_login_def Let_def audit_extends_login books_def)
qed (auto simp: audit_login_def audit_extends_login books_def dest: same_fields)

text \<open>What the guard guarantees for the handlers behind it, in one place.\<close>

lemma guarded:
  assumes "changing idkey et h \<or> reading h"
  shows "web_inv s \<Longrightarrow> web_inv (snd (withAdminAuth cfg h r w s))" "books (snd (withAdminAuth cfg h r w s)) = books s"
    "undisturbed s row \<Longrightarrow> ended s (snd (withAdminAuth cfg h r w s)) row"
proof -
  have c: "admin_handler h" using assms changing_handler reading_handler.contract [OF reading_handlers] by blast
  show "web_inv s \<Longrightarrow> web_inv (snd (withAdminAuth cfg h r w s))" by (rule admin_handler.guarded_inv [OF c])
  show "books (snd (withAdminAuth cfg h r w s)) = books s" by (rule admin_handler.guarded_books [OF c])
  show "undisturbed s row \<Longrightarrow> ended s (snd (withAdminAuth cfg h r w s)) row" by (rule admin_handler.guarded_ends [OF c])
qed

lemma reading_directory: "reading h \<Longrightarrow> directory (snd (withAdminAuth cfg h r w s)) = directory s"
  by (rule reading_handler.guarded_directory [OF reading_handlers])

lemma login_page_state: "snd (handleLoginPage r w s) = snd (currentUser r s)"
  by (simp add: handleLoginPage_def split: option.split prod.split)

lemma SecureMux_inv: "web_inv s \<Longrightarrow> web_inv (snd (SecureMux idkey et cfg r s))"
  using SecureMux_routed [of idkey et cfg r s]
  by (cases rule: routed.cases) (auto simp: login_page_state currentUser_inv handleLogin_inv intro: guarded(1))

lemma SecureMux_books:
  "audit_extends (wb_audit s) (wb_audit (snd (SecureMux idkey et cfg r s))) \<and>
   snd (books (snd (SecureMux idkey et cfg r s))) = snd (books s)"
proof -
  have "audit_extends (wb_audit s) (wb_audit s') \<and> snd (books s') = snd (books s)" if "books s' = books s" for s'
    using that by (simp add: books_def)
  note same = this
  show ?thesis
    using SecureMux_routed [of idkey et cfg r s]
  proof (cases rule: routed.cases)
    case (login_page w)
    show ?thesis by (rule same) (simp add: login_page login_page_state currentUser_books)
  next
    case (read h w)
    show ?thesis by (rule same) (simp add: read(1) guarded(2) [OF disjI2 [OF read(3)]])
  next
    case (change h w)
    show ?thesis by (rule same) (simp add: change(1) guarded(2) [OF disjI1 [OF change(3)]])
  qed (simp_all add: handleLogin_books)
qed

lemma SecureMux_ended:
  assumes "undisturbed s row"
  shows "ended s (snd (SecureMux idkey et cfg r s)) row"
proof -
  have kept: "ended s s' row" if "directory s' = directory s" for s'
    using that assms by (simp add: directory_def ended_def undisturbed_def)
  show ?thesis
    using SecureMux_routed [of idkey et cfg r s]
  proof (cases rule: routed.cases)
    case (read h w)
    then show ?thesis using guarded(3) [OF disjI2 assms] by simp
  next
    case (change h w)
    then show ?thesis using guarded(3) [OF disjI1 assms] by simp
  qed (simp_all add: kept login_page_state currentUser_directory handleLogin_directory)
qed

lemma SecureMux_directory:
  assumes "directory (snd (SecureMux idkey et cfg r s)) \<noteq> directory s"
  shows "\<not> is_get r \<and> (\<exists>u. signed_in r s u \<and> IsMemberOf u [''admins''])"
  using SecureMux_routed [of idkey et cfg r s]
proof (cases rule: routed.cases)
  case (change h w)
  show ?thesis
  proof (cases rule: withAdminAuth_cases [of cfg h r w s])
    case (refused resp)
    then show ?thesis using assms change(1) currentUser_directory by simp
  qed (use change(2) in blast)
qed (use assms in \<open>simp_all add: reading_directory login_page_state currentUser_directory handleLogin_directory\<close>)

end
