(* ===== verification/Web_Props.thy ===== *)
theory Web_Props
  imports Web_Access
begin

text \<open>
  The properties of the web administration: who can change what, when a login opens a session, when
  sessions end, and that the effective base DN is always the stored one.
\<close>

section \<open>A small web server for the witnesses\<close>

definition web_db :: db where
  "web_db = \<lparr>t_users = [\<lparr>ur_id = 1, ur_username = ''ann'', ur_password_hash = ''$argon2id$v=19$m=65536,t=1,p=4$$'',
       ur_display_name = ''Ann'', ur_disabled = 0, ur_created_at = 0, ur_updated_at = 0\<rparr>],
     t_groups = [\<lparr>gr_id = 1, gr_name = ''admins'', gr_description = []\<rparr>], t_user_groups = [(1, 1)],
     t_settings = [(''base_dn'', ''dc=a'')], users_seq = 1, groups_seq = 1, schema = [], foreign_keys = True\<rparr>"

definition web_demo :: web where
  "web_demo = \<lparr>wb_world = \<lparr>w_db = web_db, faults = [], entropy = [Some [171]], w_now = 7\<rparr>,
     wb_settings = \<lparr>base_dn = ''dc=a''\<rparr>, wb_sessions = new_session_store 10 3, wb_audit = Some \<lparr>au_records = []\<rparr>\<rparr>"

definition web_config :: config where
  "web_config = (env_config (\<lambda>_. []))\<lparr>SessionIdleTimeout := 10\<rparr>"

definition web_idkey :: idkey where
  "web_idkey = (\<lambda>p s t m k l. Some p)"

definition web_request :: "string \<Rightarrow> string \<Rightarrow> (string \<times> string) list \<Rightarrow> (string \<times> string list) list \<Rightarrow> request" where
  "web_request verb path cookies form = \<lparr>rq_method = verb, rq_path = path, rq_cookies = cookies, rq_form = Some form,
     rq_RemoteAddr = ''10.0.0.1:4711'', rq_tls = True, rq_hx = []\<rparr>"

definition login_request :: request where
  "login_request = web_request ''POST'' ''/login'' [] [(''username'', [''ann'']), (''password'', [[]])]"

text \<open>The server after Ann has logged in.\<close>

definition web_session :: session where
  "web_session = \<lparr>sess_ID = ''ab'', sess_Username = ''ann'', ExpiresAt = 17, LastSeen = 7\<rparr>"

definition web_demo_in :: web where
  "web_demo_in = web_demo\<lparr>wb_sessions := (new_session_store 10 3)\<lparr>sessions := [(''ab'', web_session)]\<rparr>\<rparr>"

lemma web_db_inv: "db_inv web_db"
proof -
  have "trimmed ''ann''" "trimmed ''Ann''" "trimmed ''admins''" "dc_value ''a''" by code_simp+
  moreover have "''$argon2id$v=19$m=65536,t=1,p=4$$'' = format_phc [] []"
    unfolding format_phc_eq by code_simp
  then have "stored_hash ''$argon2id$v=19$m=65536,t=1,p=4$$''" unfolding stored_hash_def by blast
  moreover have "normalized_base_dn ''dc=a''"
    using \<open>dc_value ''a''\<close> by (auto simp: normalized_base_dn_def intro!: exI [of _ "[''a'']"])
  ultimately show ?thesis
    by (simp add: web_db_def db_inv_def users_ok_def groups_ok_def memberships_ok_def settings_ok_def user_row_ok_def)
qed

lemma web_demo_inv: "web_inv web_demo" "web_inv web_demo_in"
proof -
  have "normalized_base_dn ''dc=a''" using web_db_inv by (simp add: db_inv_def settings_ok_def web_db_def)
  then show "web_inv web_demo" "web_inv web_demo_in"
    using web_db_inv
    by (simp_all add: web_inv_def stored_base_def web_demo_def web_demo_in_def settings_inv_def BaseDN_def session_inv_def
        new_session_store_def web_session_def)
      (simp_all add: web_db_def)
qed

section \<open>Changes\<close>

text \<open>C7: users, groups, memberships, the stored and the effective base DN change only by a request that is
  not \<open>GET\<close> or \<open>HEAD\<close> and that carries the cookie of a session that has not expired, of a user who exists, is
  enabled and is a member of \<open>admins\<close> at that moment.\<close>

theorem changes_need_admin:
  assumes "directory (snd (SecureMux idkey et cfg r s)) \<noteq> directory s"
  shows "\<not> is_get r \<and> (\<exists>u. signed_in r s u \<and> IsMemberOf u [''admins''])"
  by (rule SecureMux_directory [OF assms])

theorem changes_need_admin_witness:
  "\<not> is_get (web_request ''PUT'' ''/settings/base-dn'' [(''nanoldap_session'', ''ab'')] [(''base_dn'', [''dc=b''])]) \<and>
    (\<exists>u. signed_in (web_request ''PUT'' ''/settings/base-dn'' [(''nanoldap_session'', ''ab'')] [(''base_dn'', [''dc=b''])])
       web_demo_in u \<and> IsMemberOf u [''admins''])"
proof (rule changes_need_admin)
  show "directory (snd (SecureMux web_idkey (\<lambda>_. []) web_config
      (web_request ''PUT'' ''/settings/base-dn'' [(''nanoldap_session'', ''ab'')] [(''base_dn'', [''dc=b''])]) web_demo_in))
    \<noteq> directory web_demo_in" by code_simp
qed

section \<open>Sessions end with changes\<close>

text \<open>C8: a request that changes or removes a user, or a group of the user (its name, its description or its
  existence), leaves no session of that user, provided the database driver reports no error during the
  request. So a session never outlives the rights it was opened with.\<close>

theorem changed_users_lose_sessions:
  assumes "db_inv (w_db (wb_world s))" "faults (wb_world s) = []" "row \<in> set (t_users (w_db (wb_world s)))"
    and "SecureMux idkey et cfg r s = (resp, s')"
  shows "row \<in> set (t_users (w_db (wb_world s'))) \<and>
      groups_of (w_db (wb_world s')) (ur_id row) = groups_of (w_db (wb_world s)) (ur_id row) \<or>
    no_session_of (ur_username row) (wb_sessions s')"
  using SecureMux_ended [of s row idkey et cfg r] assms by (simp add: undisturbed_def ended_def user_kept_def)

definition delete_request :: request where
  "delete_request = web_request ''DELETE'' ''/users/1'' [(''nanoldap_session'', ''ab'')] []"

theorem changed_users_lose_sessions_witness:
  "case SecureMux web_idkey (\<lambda>_. []) web_config delete_request web_demo_in of (resp, s') \<Rightarrow>
     hd (t_users web_db) \<in> set (t_users (w_db (wb_world s'))) \<and>
       groups_of (w_db (wb_world s')) (ur_id (hd (t_users web_db)))
         = groups_of (w_db (wb_world web_demo_in)) (ur_id (hd (t_users web_db))) \<or>
     no_session_of (ur_username (hd (t_users web_db))) (wb_sessions s')"
proof (cases "SecureMux web_idkey (\<lambda>_. []) web_config delete_request web_demo_in", simp only: prod.case,
    rule changed_users_lose_sessions)
  show "db_inv (w_db (wb_world web_demo_in))" using web_db_inv by (simp add: web_demo_in_def web_demo_def)
qed (simp_all add: web_demo_in_def web_demo_def web_db_def)

section \<open>Logging in\<close>

text \<open>The row of the user that the credentials of the form belong to, if that user may use the web interface.\<close>

definition may_log_in :: "idkey \<Rightarrow> db \<Rightarrow> (string \<times> string list) list \<Rightarrow> user_row \<Rightarrow> bool" where
  "may_log_in idkey d form row \<longleftrightarrow> row \<in> set (t_users d) \<and> ur_username row = trim_space (Form_Get form ''username'') \<and>
     VerifyPassword idkey (ur_password_hash row) (Form_Get form ''password'') = Inr True \<and>
     ur_disabled row \<noteq> 1 \<and> IsMemberOf (load_user d row) [''admins'']"

text \<open>The sessions that have not expired are fewer than the maximum.\<close>

definition session_room :: "session_store \<Rightarrow> time \<Rightarrow> bool" where
  "session_room ss now \<longleftrightarrow> int (length (alive_sessions now (sessions ss))) < ss_max ss"

definition opened_session :: "session_store \<Rightarrow> time \<Rightarrow> bytes \<Rightarrow> string \<Rightarrow> session" where
  "opened_session ss now token name = \<lparr>sess_ID = hex_encode token, sess_Username = name,
     ExpiresAt = now + ss_timeout ss, LastSeen = now\<rparr>"

lemma session_Create_room:
  "session_room ss now \<Longrightarrow> session_Create ss now (Some token) now name =
     (Inr (opened_session ss now token name), ss\<lparr>sessions := AList.update (hex_encode token)
        (opened_session ss now token name) (alive_sessions now (sessions ss))\<rparr>)"
  by (simp add: session_Create_def session_room_def Let_def cleanupLocked_def alive_sessions_def alive_def not_less
      opened_session_def)

lemma session_Create_error:
  "session_Create ss now token now' name = (Inl e, ss') \<Longrightarrow> set (sessions ss') \<subseteq> set (sessions ss)"
  by (auto simp: session_Create_def Let_def cleanupLocked_def split: if_splits option.splits)

lemma session_Create_ok:
  "session_Create ss now token now' name = (Inr sess, ss') \<Longrightarrow> session_room ss now \<and> token \<noteq> None"
  by (auto simp: session_Create_def Let_def session_room_def cleanup_alive cleanup_frame split: if_splits option.splits)

lemma sess_ID_opened [simp]: "sess_ID (opened_session ss now token name) = hex_encode token"
  by (simp add: opened_session_def)

lemma login_succeeds:
  assumes "db_inv (w_db (wb_world s))" "faults (wb_world s) = []" "rq_form r = Some form"
    and "entropy (wb_world s) = Some token # rest" "may_log_in idkey (w_db (wb_world s)) form row"
    and "session_room (wb_sessions s) (wb_now s)" "name = trim_space (Form_Get form ''username'')"
  shows "handleLogin idkey cfg r w s =
    (let sess = opened_session (wb_sessions s) (wb_now s) token name
     in (Some (Redirect ''/users'' 303 (setSessionCookie cfg s r (hex_encode token) w)),
         audit_login (s\<lparr>wb_world := (wb_world s)\<lparr>entropy := rest\<rparr>,
           wb_sessions := (wb_sessions s)\<lparr>sessions := AList.update (hex_encode token) sess
             (alive_sessions (wb_now s) (sessions (wb_sessions s)))\<rparr>\<rparr>) r name ''success''))"
proof -
  let ?u = "load_user (w_db (wb_world s)) row"
  note row = assms(5) [unfolded may_log_in_def]
  have auth: "run_store (AuthenticateUser idkey name (Form_Get form ''password'')) s = (Inr ?u, s)"
    using AuthenticateUser_ok [OF assms(1,2), of row name idkey] row assms(7) by (simp add: run_store_def)
  have u: "\<not> u_Disabled ?u" "u_Username ?u = name" "IsMemberOf ?u [''admins'']"
    using row assms(7) by simp_all (simp_all add: load_user_def scanned_user_def)
  have rnd: "take_random (wb_world s) = (Some token, (wb_world s)\<lparr>entropy := rest\<rparr>)"
    using assms(4) by (simp add: take_random_def)
  have cookie: "setSessionCookie cfg (audit_login (s\<lparr>wb_world := (wb_world s)\<lparr>entropy := rest\<rparr>, wb_sessions := x\<rparr>) a b c) r v w
      = setSessionCookie cfg s r v w" for x a b c v
    by (simp add: setSessionCookie_def wb_now_def audit_login_def)
  show ?thesis
    by (simp add: handleLogin_def Let_def auth rnd session_Create_room [OF assms(6)] assms(3) u cookie assms(7) [symmetric])
qed

text \<open>C9: with entropy left and no failing statement, a login opens a session exactly when the credentials
  belong to an enabled member of \<open>admins\<close> and fewer sessions than the maximum are alive; then the new session
  belongs to that user and ends after the idle timeout, the answer sets its cookie and leads to the user
  list, and the login is audited as a success. Otherwise no session is added.\<close>

theorem login_opens_session:
  assumes "db_inv (w_db (wb_world s))" "faults (wb_world s) = []" "rq_form r = Some form"
    and "entropy (wb_world s) = Some token # rest" "handleLogin idkey cfg r w s = (resp, s')"
  shows "if (\<exists>row. may_log_in idkey (w_db (wb_world s)) form row) \<and> session_room (wb_sessions s) (wb_now s)
    then let name = trim_space (Form_Get form ''username'');
             sess = opened_session (wb_sessions s) (wb_now s) token name
         in map_of (sessions (wb_sessions s')) (hex_encode token) = Some sess \<and>
            resp = Some (Redirect ''/users'' 303 (setSessionCookie cfg s r (hex_encode token) w)) \<and>
            wb_audit s' = WebLogin (wb_audit s) (wb_now s) (remoteIP (rq_RemoteAddr r)) name ''success''
    else set (sessions (wb_sessions s')) \<subseteq> set (sessions (wb_sessions s))"
proof (cases "(\<exists>row. may_log_in idkey (w_db (wb_world s)) form row) \<and> session_room (wb_sessions s) (wb_now s)")
  case True
  then obtain row where row: "may_log_in idkey (w_db (wb_world s)) form row" and room: "session_room (wb_sessions s) (wb_now s)"
    by blast
  show ?thesis
    unfolding if_P [OF True] using login_succeeds [OF assms(1-4) row room refl, of cfg w] assms(5)
    by (auto simp: Let_def audit_login_def update_conv' wb_now_def)
next
  case False
  have "set (sessions (wb_sessions (snd (handleLogin idkey cfg r w s)))) \<subseteq> set (sessions (wb_sessions s))"
  proof (cases rule: handleLogin_state [of s idkey cfg r w])
    case (created s1 form' u tok v cr ss)
    note same = same_fields [OF created(2)]
    obtain row where row: "row \<in> set (t_users (w_db (wb_world s)))" "u = load_user (w_db (wb_world s)) row"
      "ur_username row = trim_space (Form_Get form' ''username'')"
      "VerifyPassword idkey (ur_password_hash row) (Form_Get form' ''password'') = Inr True"
      using AuthenticateUser_Inr [OF created(3)] by blast
    have now: "wb_now s1 = wb_now s"
      using created(3) AuthenticateUser_ok [OF assms(1,2) row(1,3,4)] by (simp add: wb_now_def)
    have "form' = form" using created(1) assms(3) by simp
    then have "may_log_in idkey (w_db (wb_world s)) form row"
      using row created(4,5) by (simp add: may_log_in_def) (simp add: load_user_def scanned_user_def)
    then have "\<not> session_room (wb_sessions s) (wb_now s)" using False by blast
    then obtain e where "cr = Inl e"
      using session_Create_ok [of "wb_sessions s1" "wb_now s1" tok "wb_now s1" "u_Username u"] created(7) same now
      by (cases cr) auto
    then have "set (sessions ss) \<subseteq> set (sessions (wb_sessions s))"
      using session_Create_error created(7) same by metis
    then show ?thesis
      unfolding created(8) using same
      by (cases cr; cases "projl cr"; simp add: Let_def audit_login_def)
  qed (auto simp: audit_login_def dest: same_fields)
  then show ?thesis using assms(5) False by auto
qed

theorem login_opens_session_witness:
  "case handleLogin web_idkey web_config login_request empty_response web_demo of (resp, s') \<Rightarrow>
    if (\<exists>row. may_log_in web_idkey (w_db (wb_world web_demo)) [(''username'', [''ann'']), (''password'', [[]])] row) \<and>
       session_room (wb_sessions web_demo) (wb_now web_demo)
    then let name = trim_space (Form_Get [(''username'', [''ann'']), (''password'', [[]])] ''username'');
             sess = opened_session (wb_sessions web_demo) (wb_now web_demo) [171] name
         in map_of (sessions (wb_sessions s')) (hex_encode [171]) = Some sess \<and>
            resp = Some (Redirect ''/users'' 303 (setSessionCookie web_config web_demo login_request (hex_encode [171]) empty_response)) \<and>
            wb_audit s' = WebLogin (wb_audit web_demo) (wb_now web_demo) (remoteIP (rq_RemoteAddr login_request)) name ''success''
    else set (sessions (wb_sessions s')) \<subseteq> set (sessions (wb_sessions web_demo))"
proof (cases "handleLogin web_idkey web_config login_request empty_response web_demo", simp only: prod.case,
    rule login_opens_session)
  show "db_inv (w_db (wb_world web_demo))" using web_db_inv by (simp add: web_demo_def)
  show "entropy (wb_world web_demo) = Some [171] # []" by (simp add: web_demo_def)
  show "rq_form login_request = Some [(''username'', [''ann'']), (''password'', [[]])]"
    by (simp add: login_request_def web_request_def)
qed (simp_all add: web_demo_def)

section \<open>The server over time\<close>

datatype web_event = Arrives request | Environs "bool list" "bytes option list" time

text \<open>Requests one after the other; between them the faults, the randomness and the time to come change.\<close>

definition web_step :: "idkey \<Rightarrow> error_texts \<Rightarrow> config \<Rightarrow> web \<Rightarrow> web_event \<Rightarrow> response option \<times> web" where
  "web_step idkey et cfg s e = (case e of
       Arrives r \<Rightarrow> SecureMux idkey et cfg r s
     | Environs fs rnd now \<Rightarrow>
         (None, s\<lparr>wb_world := (wb_world s)\<lparr>faults := fs, entropy := rnd, w_now := now\<rparr>\<rparr>))"

interpretation web_machine: invariant_machine "web_step idkey et cfg" web_inv
proof unfold_locales
  fix s e assume "web_inv s"
  then show "web_inv (snd (web_step idkey et cfg s e))"
    by (cases e) (simp_all add: web_step_def SecureMux_inv, simp add: web_inv_def)
qed

text \<open>whatever requests arrive and whichever statements fail, the base DN that LDAP and the pages use is the
  one stored in the database, the tables and the sessions satisfy their invariants, and there are never
  more sessions than the maximum.\<close>

theorem web_settings_match_database:
  assumes "web_inv s"
  shows "case final_state (web_step idkey et cfg) s es of s' \<Rightarrow>
    map_of (t_settings (w_db (wb_world s'))) ''base_dn'' = Some (BaseDN (wb_settings s')) \<and>
    db_inv (w_db (wb_world s')) \<and> normalized_base_dn (BaseDN (wb_settings s')) \<and> session_inv (wb_sessions s')"
  using web_machine.run_inv [OF assms, of idkey et cfg es]
  by (simp add: web_inv_def stored_base_def settings_inv_def)

theorem web_settings_match_database_witness:
  "case final_state (web_step web_idkey (\<lambda>_. []) web_config) web_demo
      [Arrives login_request, Environs [True] [] 9, Arrives delete_request] of s' \<Rightarrow>
    map_of (t_settings (w_db (wb_world s'))) ''base_dn'' = Some (BaseDN (wb_settings s')) \<and>
    db_inv (w_db (wb_world s')) \<and> normalized_base_dn (BaseDN (wb_settings s')) \<and> session_inv (wb_sessions s')"
  by (rule web_settings_match_database) (rule web_demo_inv)

end
