(* ===== verification/Ber.thy ===== *)
theory Ber
  imports Go_Strings
begin

unbundle bit_operations_syntax

text \<open>
  The BER codec (\<open>internal/ldapserver/ber.go\<close>). A reader is the list of bytes still to come; a
  function that reads returns what it read and the rest. Decoding recurses into the content of
  constructed packets exactly as \<open>decodePacket\<close> does, and the encoders build byte lists.
\<close>

datatype ber_error =
    EOF | UnexpectedEOF
  | HighTagNumber | IndefiniteLength | LengthTooLarge | MessageTooLarge
  | EmptyInteger | MissingChildren nat nat

datatype packet =
  Packet (pclass: nat) (ptag: nat) (constructed: bool) (content: bytes) (children: "packet list")

definition classUniversal :: nat where "classUniversal = 0"
definition classApplication :: nat where "classApplication = 1"
definition classContext :: nat where "classContext = 2"

lemmas class_defs = classUniversal_def classApplication_def classContext_def

definition maxPacketLength :: nat where
  "maxPacketLength = 4 * 1024 * 1024"

section \<open>Decoding\<close>

text \<open>\<open>io.ReadFull\<close> on a buffer of \<open>n\<close> bytes.\<close>

definition read_full :: "nat \<Rightarrow> bytes \<Rightarrow> ber_error + (bytes \<times> bytes)" where
  "read_full n bs =
     (if n \<le> length bs then Inr (take n bs, drop n bs)
      else Inl (if bs = [] then EOF else UnexpectedEOF))"

definition readLength :: "bytes \<Rightarrow> ber_error + (nat \<times> bytes)" where
  "readLength r =
     and_then (read_full 1 r) (\<lambda>(first, r).
       if first ! 0 AND 0x80 = 0 then Inr (unat (first ! 0), r)
       else
         let count = unat (first ! 0 AND 0x7f)
         in if count = 0 then Inl IndefiniteLength
            else if count > 4 then Inl LengthTooLarge
            else and_then (read_full count r) (\<lambda>(buf, r).
              let len = foldl (\<lambda>len b. len * 256 + unat b) 0 buf
              in if len > maxPacketLength then Inl MessageTooLarge else Inr (len, r)))"

text \<open>The part of \<open>readPacket\<close> before the call of \<open>decodePacket\<close>: tag byte, length, content.\<close>

definition read_frame :: "bytes \<Rightarrow> ber_error + (byte \<times> bytes \<times> bytes)" where
  "read_frame r =
     and_then (read_full 1 r) (\<lambda>(tagByte, r).
     and_then (readLength r) (\<lambda>(len, r).
     and_then (read_full len r) (\<lambda>(content, r).
       Inr (tagByte ! 0, content, r))))"

lemma read_full_Inr:
  "read_full n bs = Inr (a, r) \<longleftrightarrow> n \<le> length bs \<and> a = take n bs \<and> r = drop n bs"
  by (auto simp: read_full_def)

lemma readLength_shorter: "readLength r = Inr (n, r') \<Longrightarrow> length r' < length r"
  by (auto simp: readLength_def and_then_Inr_iff read_full_Inr Let_def split: if_splits)

lemma read_frame_shorter:
  "read_frame r = Inr (t, c, rest) \<Longrightarrow> length c + length rest + 1 < length r"
  by (auto simp: read_frame_def and_then_Inr_iff read_full_Inr dest!: readLength_shorter)

function decodePacket :: "byte \<Rightarrow> bytes \<Rightarrow> ber_error + packet"
  and decode_children :: "bytes \<Rightarrow> ber_error + packet list" where
  "decodePacket tagByte body =
     (let cls = unat (drop_bit 6 tagByte);
          tag = unat (tagByte AND 0x1f);
          con = (tagByte AND 0x20 \<noteq> 0)
      in if tag = 0x1f then Inl HighTagNumber
         else if \<not> con then Inr (Packet cls tag con body [])
         else and_then (decode_children body) (\<lambda>cs. Inr (Packet cls tag con body cs)))"
| "decode_children body =
     (if body = [] then Inr []
      else and_then (read_frame body) (\<lambda>(tagByte, child, rest).
           and_then (decodePacket tagByte child) (\<lambda>p.
           and_then (decode_children rest) (\<lambda>ps. Inr (p # ps)))))"
  by pat_completeness auto
termination
  by (relation "measure (\<lambda>x. case x of Inl (t, c) \<Rightarrow> 2 * length c + 1 | Inr c \<Rightarrow> 2 * length c)")
    (auto dest: read_frame_shorter)

definition readPacket :: "bytes \<Rightarrow> ber_error + (packet \<times> bytes)" where
  "readPacket r =
     and_then (read_frame r) (\<lambda>(tagByte, content, r).
     and_then (decodePacket tagByte content) (\<lambda>p. Inr (p, r)))"

declare decodePacket.simps [simp del] decode_children.simps [simp del]

text \<open>The loop of \<open>decodePacket\<close> as the code has it: \<open>readPacket\<close> until the content is used up.\<close>

lemma decode_children_loop:
  "decode_children bs =
     (if bs = [] then Inr []
      else and_then (readPacket bs) (\<lambda>(p, rest). and_then (decode_children rest) (\<lambda>ps. Inr (p # ps))))"
proof (cases "bs = []")
  case False
  then show ?thesis
    by (subst decode_children.simps) (auto simp: readPacket_def and_then_def split: sum.splits prod.splits)
qed (simp add: decode_children.simps)

text \<open>\<open>packet.int\<close>: two's complement in a 64-bit \<open>int\<close>, longer contents wrap.\<close>

definition packet_int :: "packet \<Rightarrow> ber_error + int" where
  "packet_int p =
     (case content p of
        [] \<Rightarrow> Inl EmptyInteger
      | b # bs \<Rightarrow>
          Inr (sint (foldl (\<lambda>value c. push_bit 8 value OR ucast c) (scast b :: 64 word) bs)))"

definition packet_str :: "packet \<Rightarrow> string" where
  "packet_str p = string_of_bytes (content p)"

definition packet_boolean :: "packet \<Rightarrow> bool" where
  "packet_boolean p \<longleftrightarrow> length (content p) > 0 \<and> content p ! 0 \<noteq> 0"

definition expectChildren :: "packet \<Rightarrow> nat \<Rightarrow> ber_error + unit" where
  "expectChildren pkt count =
     (if length (children pkt) < count then Inl (MissingChildren count (length (children pkt)))
      else Inr ())"

section \<open>Encoding\<close>

definition appendLength :: "bytes \<Rightarrow> bytes" where
  "appendLength body =
     (let len = length body
      in if len < 0x80 then word_of_nat len # body
         else if len \<le> 0xff then 0x81 # word_of_nat len # body
         else 0x82 # word_of_nat (len div 256) # word_of_nat len # body)"

definition berSequence :: "bytes list \<Rightarrow> bytes" where
  "berSequence cs = 0x30 # appendLength (concat cs)"

definition berSet :: "bytes list \<Rightarrow> bytes" where
  "berSet cs = 0x31 # appendLength (concat cs)"

definition berOctetString :: "string \<Rightarrow> bytes" where
  "berOctetString s = 0x04 # appendLength (bytes_of_string s)"

definition berRawOctetString :: "bytes \<Rightarrow> bytes" where
  "berRawOctetString b = 0x04 # appendLength b"

text \<open>\<open>binary.BigEndian.PutUint64\<close> is \<open>be_bytes 8\<close>.\<close>

primrec be_bytes :: "nat \<Rightarrow> 64 word \<Rightarrow> bytes" where
  "be_bytes 0 w = []"
| "be_bytes (Suc n) w = ucast (drop_bit (8 * n) w) # be_bytes n w"

text \<open>The loop that skips leading zero bytes, but never the last byte.\<close>

fun skip_zeros :: "bytes \<Rightarrow> bytes" where
  "skip_zeros (b # c # bs) = (if b = 0 then skip_zeros (c # bs) else b # c # bs)"
| "skip_zeros bs = bs"

definition integer_content :: "int \<Rightarrow> bytes" where
  "integer_content value =
     (let body = skip_zeros (be_bytes 8 (word_of_int value))
      in if hd body AND 0x80 \<noteq> 0 then 0 # body else body)"

definition berInteger :: "int \<Rightarrow> bytes" where
  "berInteger value = 0x02 # appendLength (integer_content value)"

definition berEnumerated :: "int \<Rightarrow> bytes" where
  "berEnumerated value = (berInteger value)[0 := 0x0a]"

definition berBoolean :: "bool \<Rightarrow> bytes" where
  "berBoolean value = (if value then [0x01, 0x01, 0xff] else [0x01, 0x01, 0x00])"

definition berApplication :: "nat \<Rightarrow> bytes \<Rightarrow> bytes" where
  "berApplication tag body = (0x60 OR word_of_nat tag) # appendLength body"

definition berContextPrimitive :: "nat \<Rightarrow> bytes \<Rightarrow> bytes" where
  "berContextPrimitive tag body = (0x80 OR word_of_nat tag) # appendLength body"

definition berMessage :: "int \<Rightarrow> bytes \<Rightarrow> bytes" where
  "berMessage messageID protocolOp = berSequence [berInteger messageID, protocolOp]"

end
