(* ===== verification/Ber_Laws.thy ===== *)
theory Ber_Laws
  imports Ber
begin

text \<open>
  Laws of the codec. Every encoder writes a frame that the reader takes off the input again,
  leaving the rest, as long as the content is shorter than 64 KiB; integers of 64 bits survive the
  round trip; whatever the reader accepts is well formed and within the size bound.
\<close>

section \<open>Length octets\<close>

lemma byte_and_128: "(b :: byte) AND 0x80 = 0 \<longleftrightarrow> unat b < 128"
proof -
  have "unat b < 2 ^ LENGTH(8)" by (rule unsigned_less)
  then have m: "unat b < 256" by simp
  have "bit b 7 \<longleftrightarrow> bit (unat b) 7" by (simp add: bit_unsigned_iff)
  also have "\<dots> \<longleftrightarrow> odd (unat b div 128)" by (simp add: bit_iff_odd)
  also have "\<dots> \<longleftrightarrow> \<not> unat b < 128"
  proof (cases "unat b < 128")
    case False
    then have "unat b div 128 = 1" using m by (intro div_nat_eqI) auto
    then show ?thesis using False by simp
  qed simp
  finally have "bit b 7 \<longleftrightarrow> \<not> unat b < 128" .
  moreover have "b AND 2 ^ 7 = 0 \<longleftrightarrow> \<not> bit b 7" by (rule and_exp_eq_0_iff_not_bit)
  moreover have "(2 ^ 7 :: byte) = 0x80" by simp
  ultimately show ?thesis by argo
qed

lemma unat_byte: "n < 256 \<Longrightarrow> unat (word_of_nat n :: byte) = n"
  by (simp add: unat_of_nat take_bit_nat_eq_self)

lemma unat_byte_mod: "unat (word_of_nat n :: byte) = n mod 256"
  by (simp add: unat_of_nat take_bit_eq_mod)

lemma readLength_append:
  assumes "length body < 65536"
  shows "readLength (appendLength body @ rest) = Inr (length body, body @ rest)"
proof -
  consider "length body < 128" | "128 \<le> length body" "length body < 256" | "256 \<le> length body"
    by linarith
  then show ?thesis
  proof cases
    case 1
    then show ?thesis
      by (simp add: appendLength_def readLength_def read_full_def byte_and_128 unat_byte)
  next
    case 2
    then show ?thesis
      by (simp add: appendLength_def readLength_def read_full_def unat_byte Let_def maxPacketLength_def)
  next
    case 3
    then show ?thesis
      using assms
      by (simp add: appendLength_def readLength_def read_full_def unat_byte unat_byte_mod Let_def
          maxPacketLength_def)
  qed
qed

text \<open>From 64 KiB on the two length octets hold the length modulo \<open>2 ^ 16\<close>.\<close>

lemma readLength_append_overflow:
  assumes "65536 \<le> length body"
  shows "readLength (appendLength body @ rest) = Inr (length body mod 65536, body @ rest)"
proof -
  have "length body div 256 mod 256 * 256 + length body mod 256 = length body mod 65536"
    using mod_mult2_eq [of "length body" 256 256] by (simp add: mult.commute)
  then show ?thesis
    using assms
    by (simp add: appendLength_def readLength_def read_full_def unat_byte_mod Let_def
        maxPacketLength_def)
qed

lemma read_frame_append:
  "length body < 65536 \<Longrightarrow> read_frame (t # appendLength body @ rest) = Inr (t, body, rest)"
  using readLength_append [of body rest] by (simp add: read_frame_def read_full_def)

lemma readPacket_frame:
  "length body < 65536 \<Longrightarrow> readPacket (t # appendLength body @ rest) =
     and_then (decodePacket t body) (\<lambda>p. Inr (p, rest))"
  by (simp add: readPacket_def read_frame_append)

lemma appendLength_not_Nil [simp]: "appendLength body \<noteq> []"
  by (simp add: appendLength_def Let_def)

lemma length_appendLength: "length body \<le> length (appendLength body)"
  "length (appendLength body) \<le> length body + 3"
  by (auto simp: appendLength_def Let_def)

section \<open>Frames and what they decode to\<close>

definition encodes :: "bytes \<Rightarrow> packet \<Rightarrow> bool" where
  "encodes e p \<longleftrightarrow> e \<noteq> [] \<and> (\<forall>rest. readPacket (e @ rest) = Inr (p, rest))"

named_theorems encodes_intros \<open>the encoders write what the reader reads\<close>

lemma decode_children_concat:
  "list_all2 encodes es ps \<Longrightarrow> decode_children (concat es) = Inr ps"
proof (induction rule: list_all2_induct)
  case (Cons e es p ps)
  then show ?case
    by (subst decode_children_loop) (simp add: encodes_def)
qed (simp add: decode_children.simps)

lemma encodes_primitive:
  assumes "length body < 65536" "t AND 0x20 = 0" "unat (t AND 0x1f) \<noteq> 0x1f"
  shows "encodes (t # appendLength body) (Packet (unat (drop_bit 6 t)) (unat (t AND 0x1f)) False body [])"
  using assms by (simp add: encodes_def readPacket_frame decodePacket.simps Let_def)

lemma encodes_constructed:
  assumes "list_all2 encodes es ps" "length (concat es) < 65536"
    and "t AND 0x20 \<noteq> 0" "unat (t AND 0x1f) \<noteq> 0x1f"
  shows "encodes (t # appendLength (concat es))
     (Packet (unat (drop_bit 6 t)) (unat (t AND 0x1f)) True (concat es) ps)"
  using assms decode_children_concat [OF assms(1)]
  by (simp add: encodes_def readPacket_frame decodePacket.simps Let_def)

lemma encodes_octet_string [encodes_intros]:
  "length s < 65536 \<Longrightarrow>
     encodes (berOctetString s) (Packet 0 4 False (bytes_of_string s) [])"
  using encodes_primitive [of "bytes_of_string s" "0x04"] by (simp add: berOctetString_def)

lemma encodes_sequence [encodes_intros]:
  "list_all2 encodes es ps \<Longrightarrow> length (concat es) < 65536 \<Longrightarrow>
     encodes (berSequence es) (Packet 0 16 True (concat es) ps)"
  using encodes_constructed [of es ps "0x30"] by (simp add: berSequence_def)

lemma encodes_set [encodes_intros]:
  "list_all2 encodes es ps \<Longrightarrow> length (concat es) < 65536 \<Longrightarrow>
     encodes (berSet es) (Packet 0 17 True (concat es) ps)"
  using encodes_constructed [of es ps "0x31"] by (simp add: berSet_def)

section \<open>Integers\<close>

definition int_step :: "64 word \<Rightarrow> byte \<Rightarrow> 64 word" where
  "int_step v c = (push_bit 8 v OR ucast c)"

lemma int_step_drop: "int_step (drop_bit (8 + n) w) (ucast (drop_bit n w)) = drop_bit n w"
  unfolding int_step_def
  by (rule bit_eqI) (auto simp: bit_simps not_le)

lemma foldl_be_bytes: "foldl int_step (drop_bit (8 * n) w) (be_bytes n w) = w"
  by (induction n) (simp_all add: int_step_drop)

lemma int_step_zero: "int_step 0 0 = 0"
  by (simp add: int_step_def)

lemma foldl_skip_zeros: "foldl int_step 0 (skip_zeros bs) = foldl int_step 0 bs"
  by (induction bs rule: skip_zeros.induct) (auto simp: int_step_zero)

lemma length_be_bytes [simp]: "length (be_bytes n w) = n"
  by (induction n) simp_all

lemma skip_zeros_not_Nil [simp]: "skip_zeros bs = [] \<longleftrightarrow> bs = []"
  by (induction bs rule: skip_zeros.induct) auto

lemma length_skip_zeros: "length (skip_zeros bs) \<le> length bs"
  by (induction bs rule: skip_zeros.induct) auto

lemma be_bytes_not_Nil [simp]: "be_bytes (Suc n) w \<noteq> []" "be_bytes 8 w \<noteq> []"
  by (metis length_be_bytes length_0_conv nat.distinct(1), metis length_be_bytes list.size(3) zero_neq_numeral)

lemma foldl_integer_content: "foldl int_step 0 (integer_content v) = word_of_int v"
proof -
  have "foldl int_step 0 (be_bytes 8 (word_of_int v)) = word_of_int v"
    using foldl_be_bytes [of 8 "word_of_int v"] by simp
  then show ?thesis
    by (simp add: integer_content_def Let_def foldl_skip_zeros int_step_zero)
qed

lemma integer_content_hd:
  "integer_content v = b # bs \<Longrightarrow> unat b < 128"
  by (auto simp: integer_content_def Let_def byte_and_128 split: if_splits)

lemma integer_content_not_Nil [simp]: "integer_content v \<noteq> []"
  by (simp add: integer_content_def Let_def)

lemma length_integer_content: "length (integer_content v) \<le> 9"
  using length_skip_zeros [of "be_bytes 8 (word_of_int v)"] by (auto simp: integer_content_def Let_def)

lemma scast_small_byte:
  assumes "unat (b :: byte) < 128"
  shows "(scast b :: 64 word) = ucast b"
proof -
  have "int (unat b) = uint b" by simp
  then have "uint b < 128" using assms by linarith
  moreover have "- 128 \<le> uint b" using uint_ge_0 [of b] by linarith
  ultimately have "signed_take_bit 7 (uint b) = uint b"
    using signed_take_bit_int_eq_self [of 7 "uint b"] by (simp only: power_numeral) simp
  then have "sint b = uint b" using sint_uint [of b] by simp
  then have "(word_of_int (sint b) :: 64 word) = word_of_int (uint b)" by (rule arg_cong)
  then show ?thesis by (simp only: scast_eq ucast_eq)
qed

lemma packet_int_integer_content:
  assumes "content p = integer_content v"
  shows "packet_int p = Inr (sint (word_of_int v :: 64 word))"
proof (cases "integer_content v")
  case (Cons b bs)
  have "foldl int_step (scast b) bs = foldl int_step 0 (b # bs)"
    using scast_small_byte [OF integer_content_hd [OF Cons]] by (simp add: int_step_def)
  also have "\<dots> = word_of_int v" using foldl_integer_content [of v] Cons by simp
  finally show ?thesis
    using assms Cons by (simp add: packet_int_def int_step_def [abs_def])
qed simp

definition int64 :: "int \<Rightarrow> bool" where
  "int64 v \<longleftrightarrow> - (2 ^ 63) \<le> v \<and> v < 2 ^ 63"

lemma sint_int64: "int64 v \<Longrightarrow> sint (word_of_int v :: 64 word) = v"
  by (simp add: int64_def sint_sbintrunc' signed_take_bit_int_eq_self)

lemma packet_int_int64: "packet_int p = Inr v \<Longrightarrow> int64 v"
proof -
  assume "packet_int p = Inr v"
  then obtain w :: "64 word" where "v = sint w" by (auto simp: packet_int_def split: list.splits)
  then show ?thesis using sint_greater_eq [of w] sint_less [of w] by (simp add: int64_def)
qed

lemma packet_int_roundtrip: "int64 v \<Longrightarrow> content p = integer_content v \<Longrightarrow> packet_int p = Inr v"
  by (simp add: packet_int_integer_content sint_int64)

lemma encodes_integer [encodes_intros]:
  "encodes (berInteger v) (Packet 0 2 False (integer_content v) [])"
  using encodes_primitive [of "integer_content v" "0x02"] length_integer_content [of v]
  by (simp add: berInteger_def)

lemma encodes_enumerated [encodes_intros]:
  "encodes (berEnumerated v) (Packet 0 10 False (integer_content v) [])"
  using encodes_primitive [of "integer_content v" "0x0a"] length_integer_content [of v]
  by (simp add: berEnumerated_def berInteger_def)

lemma application_tag:
  assumes "tag < 31"
  shows "unat (drop_bit 6 (0x60 OR word_of_nat tag :: byte)) = 1"
    "unat ((0x60 OR word_of_nat tag :: byte) AND 0x1f) = tag"
    "(0x60 OR word_of_nat tag :: byte) AND 0x20 \<noteq> 0"
proof -
  have "\<forall>n\<in>{..<31}. unat (drop_bit 6 (0x60 OR word_of_nat n :: byte)) = 1 \<and>
      unat ((0x60 OR word_of_nat n :: byte) AND 0x1f) = n \<and> (0x60 OR word_of_nat n :: byte) AND 0x20 \<noteq> 0"
    by (simp add: lessThan_nat_numeral lessThan_Suc)
  then show "unat (drop_bit 6 (0x60 OR word_of_nat tag :: byte)) = 1"
    "unat ((0x60 OR word_of_nat tag :: byte) AND 0x1f) = tag"
    "(0x60 OR word_of_nat tag :: byte) AND 0x20 \<noteq> 0"
    using assms by auto
qed

lemma encodes_application [encodes_intros]:
  "tag < 31 \<Longrightarrow> list_all2 encodes es ps \<Longrightarrow> length (concat es) < 65536 \<Longrightarrow>
     encodes (berApplication tag (concat es)) (Packet 1 tag True (concat es) ps)"
  using encodes_constructed [of es ps "0x60 OR word_of_nat tag"] application_tag [of tag]
  by (simp add: berApplication_def)

lemma encodes_message [encodes_intros]:
  assumes "encodes e p" "length e < 65520"
  shows "encodes (berMessage i e)
     (Packet 0 16 True (berInteger i @ e) [Packet 0 2 False (integer_content i) [], p])"
proof -
  have "length (berInteger i) \<le> 13"
    using length_integer_content [of i] length_appendLength(2) [of "integer_content i"]
    by (simp add: berInteger_def)
  then have "length (concat [berInteger i, e]) < 65536" using assms(2) by simp
  then show ?thesis
    using encodes_sequence [of "[berInteger i, e]" "[Packet 0 2 False (integer_content i) [], p]"]
      encodes_integer [of i] assms(1) by (simp add: berMessage_def)
qed

section \<open>What the reader accepts\<close>

fun well_formed_packet :: "packet \<Rightarrow> bool" where
  "well_formed_packet (Packet cls tag con body cs) \<longleftrightarrow>
     cls < 4 \<and> tag < 31 \<and> length body \<le> maxPacketLength \<and> (\<not> con \<longrightarrow> cs = []) \<and>
     (\<forall>c\<in>set cs. well_formed_packet c)"

lemma tag_bounds: "unat (drop_bit 6 (t :: byte)) < 4" "unat (t AND 0x1f) < 32"
proof -
  have "unat t < 2 ^ LENGTH(8)" by (rule unsigned_less)
  then have "unat t < 256" by simp
  then show "unat (drop_bit 6 t) < 4"
    by (simp add: unat_drop_bit_eq drop_bit_eq_div unat_div less_mult_imp_div_less)
  have "unat (t AND 0x1f) \<le> unat (0x1f :: byte)"
    by (rule word_and_le1 [THEN word_le_nat_alt [THEN iffD1]])
  then show "unat (t AND 0x1f) < 32" by simp
qed

lemma decode_well_formed:
  "decodePacket t body = Inr p \<Longrightarrow> length body \<le> maxPacketLength \<Longrightarrow> well_formed_packet p"
  "decode_children bs = Inr ps \<Longrightarrow> length bs \<le> maxPacketLength \<Longrightarrow> \<forall>p\<in>set ps. well_formed_packet p"
proof (induction t body and bs arbitrary: p and ps rule: decodePacket_decode_children.induct)
  case (1 t body)
  then show ?case
    using tag_bounds [of t]
    by (subst (asm) decodePacket.simps)
      (auto simp: Let_def and_then_Inr_iff split: if_splits)
next
  case (2 bs)
  show ?case
  proof (cases "bs = []")
    case False
    then obtain t c rest p ps' where f: "read_frame bs = Inr (t, c, rest)"
      and d: "decodePacket t c = Inr p" "decode_children rest = Inr ps'" "ps = p # ps'"
      using "2.prems"(1) by (subst (asm) decode_children.simps) (auto simp: and_then_Inr_iff)
    have "length c \<le> maxPacketLength" "length rest \<le> maxPacketLength"
      using read_frame_shorter [OF f] "2.prems"(2) by simp_all
    then show ?thesis
      using "2.IH"(1) [OF False f refl refl d(1)] "2.IH"(2) [OF False f refl refl d(1) d(2)] d by simp
  qed (use "2.prems" in \<open>simp add: decode_children.simps\<close>)
qed

lemma readLength_bound:
  assumes "readLength r = Inr (n, r')"
  shows "n \<le> maxPacketLength"
proof -
  have "unat b < 2 ^ LENGTH(8)" for b :: byte by (rule unsigned_less)
  then have "unat b < 256" for b :: byte by simp
  then have "unat b \<le> maxPacketLength" for b :: byte
    using less_imp_le [of "unat b" 256] le_trans by (fastforce simp: maxPacketLength_def)
  then show ?thesis
    using assms by (auto simp: readLength_def and_then_Inr_iff Let_def split: if_splits)
qed

lemma readPacket_wf:
  assumes "readPacket r = Inr (p, rest)"
  shows "well_formed_packet p" "length rest + 1 < length r"
proof -
  obtain t c where f: "read_frame r = Inr (t, c, rest)" and d: "decodePacket t c = Inr p"
    using assms by (auto simp: readPacket_def and_then_Inr_iff)
  show "length rest + 1 < length r" using read_frame_shorter [OF f] by simp
  have "length c \<le> maxPacketLength"
    using f readLength_bound by (auto simp: read_frame_def and_then_Inr_iff read_full_Inr)
  then show "well_formed_packet p" using decode_well_formed(1) d by blast
qed

section \<open>What the reader allocates\<close>

text \<open>\<open>readPacket\<close> makes a buffer for the content of every packet it reads, and the packet keeps
  it; this is the number of bytes in the buffers of a packet and all its descendants.\<close>

fun content_bytes :: "packet \<Rightarrow> nat" where
  "content_bytes (Packet cls tag con body cs) = length body + sum_list (map content_bytes cs)"

text \<open>An input of \<open>n\<close> sequences inside one another, each with a four-byte length.\<close>

fun nested_sequences :: "nat \<Rightarrow> bytes" where
  "nested_sequences 0 = []"
| "nested_sequences (Suc n) =
     (let body = nested_sequences n
      in 0x30 # 0x84 # word_of_nat (length body div 16777216) # word_of_nat (length body div 65536)
         # word_of_nat (length body div 256) # word_of_nat (length body) # body)"

lemma length_nested_sequences [simp]: "length (nested_sequences n) = 6 * n"
  by (induction n) (simp_all add: Let_def)

lemma four_octets:
  assumes "(l::nat) < 16777216"
  shows "(l div 65536 mod 256 * 256 + l div 256 mod 256) * 256 + l mod 256 = l"
proof -
  have "l div 65536 < 256" using assms by (simp add: less_mult_imp_div_less)
  moreover have "l div 65536 = l div 256 div 256" by (simp flip: div_mult2_eq)
  ultimately have "l div 65536 mod 256 * 256 + l div 256 mod 256 = l div 256"
    by (simp only: mod_less div_mult_mod_eq)
  then show ?thesis by (simp only: div_mult_mod_eq)
qed

lemma read_frame_four:
  assumes "length body \<le> maxPacketLength" "l = length body"
  shows "read_frame (t # 0x84 # word_of_nat (l div 16777216) # word_of_nat (l div 65536)
    # word_of_nat (l div 256) # word_of_nat l # body) = Inr (t, body, [])"
proof -
  have l: "l < 16777216" "l \<le> maxPacketLength" using assms by (simp_all add: maxPacketLength_def)
  then have "l div 16777216 = 0" by simp
  then show ?thesis
    using l four_octets [OF l(1)] assms(2)
    by (simp add: read_frame_def readLength_def read_full_def Let_def unat_byte_mod)
qed

lemma read_frame_nested:
  assumes "6 * n \<le> maxPacketLength"
  shows "read_frame (nested_sequences (Suc n)) = Inr (0x30, nested_sequences n, [])"
  using read_frame_four [of "nested_sequences n" "length (nested_sequences n)" "0x30"] assms
  by (simp only: length_nested_sequences nested_sequences.simps Let_def)

lemma decode_nested:
  "6 * n \<le> maxPacketLength \<Longrightarrow>
     \<exists>p. decodePacket 0x30 (nested_sequences n) = Inr p \<and> content_bytes p = 3 * n * Suc n"
proof (induction n)
  case 0
  then show ?case by (simp add: decodePacket.simps decode_children.simps Let_def)
next
  case (Suc n)
  then obtain p where p: "decodePacket 0x30 (nested_sequences n) = Inr p" "content_bytes p = 3 * n * Suc n"
    by auto
  have "nested_sequences (Suc n) \<noteq> []" by (simp add: Let_def)
  then have "decode_children (nested_sequences (Suc n)) = Inr [p]"
    using read_frame_nested [of n] Suc.prems p(1)
    by (subst decode_children.simps) (simp add: decode_children.simps [of "[]"])
  then have "decodePacket 0x30 (nested_sequences (Suc n)) =
      Inr (Packet 0 16 True (nested_sequences (Suc n)) [p])"
    by (simp add: decodePacket.simps [of _ "nested_sequences (Suc n)"] Let_def del: nested_sequences.simps)
  moreover have "content_bytes (Packet 0 16 True (nested_sequences (Suc n)) [p]) = 3 * Suc n * Suc (Suc n)"
    using p(2) by (simp add: algebra_simps del: nested_sequences.simps)
  ultimately show ?case by blast
qed

section \<open>Properties\<close>

text \<open>every 64-bit integer the server writes with \<open>berInteger\<close> (message ids, enumerated result
  codes) is read back unchanged by \<open>packet.int\<close>, negative values and values of all widths included.\<close>

theorem berInteger_roundtrip:
  assumes "int64 v"
  shows "readPacket (berInteger v @ rest) = Inr (Packet 0 2 False (integer_content v) [], rest) \<and>
    packet_int (Packet 0 2 False (integer_content v) []) = Inr v"
  using encodes_integer [of v] packet_int_roundtrip [OF assms] by (simp add: encodes_def)

theorem berInteger_roundtrip_witness:
  "readPacket (berInteger (- 129) @ [7]) = Inr (Packet 0 2 False (integer_content (- 129)) [], [7]) \<and>
    packet_int (Packet 0 2 False (integer_content (- 129)) []) = Inr (- 129)"
  by (rule berInteger_roundtrip) (simp add: int64_def)

text \<open>a response message is read back whole: \<open>readPacket\<close> on \<open>berMessage id op\<close> followed by
  anything yields a universal SEQUENCE whose first child is the same message id and whose second
  is what \<open>op\<close> encodes, and leaves what follows, as long as \<open>op\<close> is shorter than 65520 bytes.\<close>

theorem berMessage_roundtrip:
  assumes "int64 i" "encodes e p" "length e < 65520"
  shows "\<exists>raw. readPacket (berMessage i e @ rest) = Inr (raw, rest) \<and> pclass raw = classUniversal \<and>
    ptag raw = 16 \<and> length (children raw) = 2 \<and> packet_int (children raw ! 0) = Inr i \<and> children raw ! 1 = p"
  using encodes_message [OF assms(2,3), of i] packet_int_roundtrip [OF assms(1)]
  by (simp add: encodes_def class_defs)

theorem berMessage_roundtrip_witness:
  "\<exists>raw. readPacket (berMessage 300 (berOctetString ''ok'') @ [1, 2]) = Inr (raw, [1, 2]) \<and>
    pclass raw = classUniversal \<and> ptag raw = 16 \<and> length (children raw) = 2 \<and>
    packet_int (children raw ! 0) = Inr 300 \<and>
    children raw ! 1 = Packet 0 4 False (bytes_of_string ''ok'') []"
proof (rule berMessage_roundtrip)
  show "int64 300" by (simp add: int64_def)
  show "encodes (berOctetString ''ok'') (Packet 0 4 False (bytes_of_string ''ok'') [])"
    by (rule encodes_octet_string) simp
  show "length (berOctetString ''ok'') < 65520"
    using length_appendLength(2) [of "bytes_of_string ''ok''"] by (simp add: berOctetString_def)
qed

text \<open>C34: \<open>appendLength\<close> has no form for contents of 64 KiB and more: the two length octets it writes
  hold the length modulo 65536, so the reader takes a prefix of the content for the packet and the
  remainder of the content for whatever comes next.\<close>

theorem appendLength_truncates:
  assumes "65536 \<le> length body"
  shows "readPacket (0x04 # appendLength body @ rest) =
    Inr (Packet 0 4 False (take (length body mod 65536) body) [],
         drop (length body mod 65536) body @ rest)"
proof -
  have "length body mod 65536 \<le> length body" by simp
  then show ?thesis
    using readLength_append_overflow [OF assms, of rest]
    by (simp add: readPacket_def read_frame_def read_full_def decodePacket.simps Let_def)
qed

theorem appendLength_truncates_witness:
  "readPacket (0x04 # appendLength (replicate 65536 7) @ []) = Inr (Packet 0 4 False [] [], replicate 65536 7)"
  using appendLength_truncates [of "replicate 65536 7" "[]"] by simp

text \<open>C29: whatever bytes arrive, a packet the reader accepts has a two-bit class, a low-form tag, no
  child unless it is constructed, no content above the 4 MiB cap at any depth, and at least two
  bytes of input were used for it.\<close>

theorem readPacket_well_formed:
  assumes "readPacket r = Inr (p, rest)"
  shows "well_formed_packet p \<and> length rest + 2 \<le> length r"
  using readPacket_wf [OF assms] by simp

theorem readPacket_well_formed_witness:
  "well_formed_packet (Packet 0 1 False [255] []) \<and> length ([9] :: bytes) + 2 \<le> length ([1, 1, 255, 9] :: bytes)"
proof (rule readPacket_well_formed)
  show "readPacket [1, 1, 255, 9] = Inr (Packet 0 1 False [255] [], [9])"
    by (simp add: readPacket_def read_frame_def readLength_def read_full_def decodePacket.simps Let_def)
qed

text \<open>C36: the cap on a single length does not bound what one message makes the decoder allocate: for
  every \<open>n\<close> with \<open>6 * n\<close> bytes within the cap there is an accepted input of \<open>6 * n + 6\<close> bytes whose
  packets keep \<open>3 * n * (n + 1)\<close> bytes of content (about 1.4 TB at the cap).\<close>

theorem nested_packet_allocation:
  assumes "6 * n \<le> maxPacketLength"
  shows "\<exists>p. readPacket (nested_sequences (Suc n)) = Inr (p, []) \<and>
    length (nested_sequences (Suc n)) = 6 * n + 6 \<and> content_bytes p = 3 * n * (n + 1)"
  using decode_nested [OF assms] read_frame_nested [OF assms]
  by (auto simp: readPacket_def simp del: nested_sequences.simps)

theorem nested_packet_allocation_witness:
  "\<exists>p. readPacket (nested_sequences (Suc 600000)) = Inr (p, []) \<and>
    length (nested_sequences (Suc 600000)) = 6 * 600000 + 6 \<and> content_bytes p = 3 * 600000 * (600000 + 1)"
  by (rule nested_packet_allocation) (simp add: maxPacketLength_def)

end
