(* ===== verification/Dn.thy ===== *)
theory Dn
  imports Text_Case
begin

text \<open>
  Distinguished names as \<open>internal/ldapserver/server.go\<close> handles them: strings, normalised
  component by component, compared and cut with string operations. The reference model is the list
  of normalised components; the scope test is shown to be the test on component lists.
\<close>

definition scopeBaseObject :: int where "scopeBaseObject = 0"
definition scopeSingle :: int where "scopeSingle = 1"
definition scopeSubtree :: int where "scopeSubtree = 2"

lemmas scope_defs = scopeBaseObject_def scopeSingle_def scopeSubtree_def

definition normalizeDN :: "string \<Rightarrow> string" where
  "normalizeDN dn = join_with '','' (map (\<lambda>part. to_lower (trim_space part)) (split_on CHR '','' dn))"

definition parentDN :: "string \<Rightarrow> string" where
  "parentDN dn =
     (let parts = split_n2 CHR '','' dn
      in if length parts \<noteq> 2 then [] else parts ! 1)"

definition dnWithinScope :: "string \<Rightarrow> int \<Rightarrow> string \<Rightarrow> bool" where
  "dnWithinScope baseDN scope entryDN =
     (let base = normalizeDN baseDN; entry = normalizeDN entryDN
      in if scope = scopeBaseObject then entry = base
         else if scope = scopeSingle then parentDN entry = base
         else if scope = scopeSubtree then entry = base \<or> has_suffix entry ('','' @ base)
         else False)"

definition peopleBaseDN :: "string \<Rightarrow> string" where
  "peopleBaseDN baseDN = ''ou=people,'' @ baseDN"

definition groupsBaseDN :: "string \<Rightarrow> string" where
  "groupsBaseDN baseDN = ''ou=groups,'' @ baseDN"

definition userDN :: "string \<Rightarrow> string \<Rightarrow> string" where
  "userDN baseDN username = ''uid='' @ username @ '','' @ baseDN"

definition groupDN :: "string \<Rightarrow> string \<Rightarrow> string" where
  "groupDN baseDN name = ''cn='' @ name @ '','' @ baseDN"

definition legacyUserDN :: "string \<Rightarrow> string \<Rightarrow> string" where
  "legacyUserDN baseDN username = ''uid='' @ username @ '','' @ peopleBaseDN baseDN"

definition legacyGroupDN :: "string \<Rightarrow> string \<Rightarrow> string" where
  "legacyGroupDN baseDN name = ''cn='' @ name @ '','' @ groupsBaseDN baseDN"

text \<open>\<open>usernameFromDN\<close> returns \<open>("", false)\<close> as \<open>None\<close>.\<close>

definition usernameFromDN :: "string \<Rightarrow> string \<Rightarrow> string option" where
  "usernameFromDN baseDN dn =
     (let normalized = normalizeDN dn; base = normalizeDN baseDN;
          rdn = (if has_suffix normalized ('',ou=people,'' @ base)
                 then Some (trim_suffix normalized ('',ou=people,'' @ base))
                 else if has_suffix normalized ('','' @ base)
                 then Some (trim_suffix normalized ('','' @ base))
                 else None)
      in case rdn of
           None \<Rightarrow> None
         | Some r \<Rightarrow>
             (let parts = split_n2 CHR ''='' r
              in if length parts \<noteq> 2 \<or> parts ! 0 \<noteq> ''uid'' \<or> parts ! 1 = [] then None
                 else Some (parts ! 1)))"

section \<open>Components\<close>

definition dn_components :: "string \<Rightarrow> string list" where
  "dn_components dn = map (\<lambda>part. to_lower (trim_space part)) (split_on CHR '','' dn)"

lemma dn_components_not_Nil [simp]: "dn_components dn \<noteq> []"
  by (simp add: dn_components_def)

lemma dn_components_no_comma: "p \<in> set (dn_components dn) \<Longrightarrow> CHR '','' \<notin> set p"
proof
  assume p: "p \<in> set (dn_components dn)" and c: "CHR '','' \<in> set p"
  obtain q where q: "q \<in> set (split_on CHR '','' dn)" "p = to_lower (trim_space q)"
    using p by (auto simp: dn_components_def)
  have "CHR '','' \<in> set (trim_space q)"
    using to_lower_small_char(1) [of "CHR '',''" "trim_space q"] c q(2) by simp
  then show False
    using split_on_parts [OF q(1)] set_trim_space by blast
qed

lemma normalizeDN_join: "normalizeDN dn = join_with '','' (dn_components dn)"
  by (simp add: normalizeDN_def dn_components_def)

lemma split_normalizeDN: "split_on CHR '','' (normalizeDN dn) = dn_components dn"
  unfolding normalizeDN_join by (rule split_join) (auto dest: dn_components_no_comma)

lemma normalizeDN_eq_iff: "normalizeDN a = normalizeDN b \<longleftrightarrow> dn_components a = dn_components b"
  using split_normalizeDN by (metis normalizeDN_join)

lemma dn_components_normalizeDN [simp]: "dn_components (normalizeDN dn) = dn_components dn"
proof -
  have "dn_components (normalizeDN dn) = map (\<lambda>p. to_lower (trim_space p)) (dn_components dn)"
    by (simp add: dn_components_def [of "normalizeDN dn"] split_normalizeDN)
  then show ?thesis by (simp add: dn_components_def comp_def)
qed

lemma dn_components_append: "dn_components (a @ '','' @ b) = dn_components a @ dn_components b"
  by (simp add: dn_components_def split_on_general_append)

lemma normalizeDN_append: "normalizeDN (a @ '','' @ b) = normalizeDN a @ '','' @ normalizeDN b"
  unfolding normalizeDN_join dn_components_append by (simp add: join_with_append)

lemma to_lower_join:
  "\<forall>p\<in>set ps. to_lower p = p \<Longrightarrow> to_lower (join_with '','' ps) = join_with '','' ps"
proof (induction ps)
  case (Cons p ps)
  then show ?case
    by (auto simp: join_with_Cons to_lower_append_ascii ascii_lower_char_def Let_def)
qed simp

lemma to_lower_normalizeDN [simp]: "to_lower (normalizeDN dn) = normalizeDN dn"
  unfolding normalizeDN_join by (rule to_lower_join) (auto simp: dn_components_def)

section \<open>Scope\<close>

lemma parentDN_join:
  assumes "\<forall>p\<in>set ps. CHR '','' \<notin> set p"
  shows "parentDN (join_with '','' ps) = join_with '','' (tl ps)"
proof (cases ps rule: remdups_adj.cases)
  case (3 p q qs)
  have "cut_at CHR '','' (p @ CHR '','' # join_with '','' (q # qs)) = (p, join_with '','' (q # qs), True)"
    using assms 3 by (intro cut_at_append) simp
  then show ?thesis using 3 by (simp add: parentDN_def split_n2_def Let_def)
qed (use assms in \<open>simp_all add: parentDN_def split_n2_def cut_at_def Let_def\<close>)

lemma join_comma_eq_Nil: "ps \<noteq> [] \<Longrightarrow> join_with '','' ps = [] \<longleftrightarrow> ps = [[]]"
  by (cases ps rule: remdups_adj.cases) auto

text \<open>The scope test on component lists.\<close>

definition within_scope_spec :: "string list \<Rightarrow> int \<Rightarrow> string list \<Rightarrow> bool" where
  "within_scope_spec bs scope es \<longleftrightarrow>
     scope = 0 \<and> es = bs \<or>
     scope = 1 \<and> (tl es = bs \<or> length es = 1 \<and> bs = [[]]) \<or>
     scope = 2 \<and> suffix bs es"

lemma suffix_components:
  "normalizeDN e = normalizeDN b \<or> has_suffix (normalizeDN e) ('','' @ normalizeDN b)
     \<longleftrightarrow> suffix (dn_components b) (dn_components e)"
proof
  assume "normalizeDN e = normalizeDN b \<or> has_suffix (normalizeDN e) ('','' @ normalizeDN b)"
  then show "suffix (dn_components b) (dn_components e)"
  proof
    assume "has_suffix (normalizeDN e) ('','' @ normalizeDN b)"
    then obtain p where "normalizeDN e = p @ '','' @ normalizeDN b"
      by (auto simp: has_suffix_iff)
    then have "split_on CHR '','' (normalizeDN e) = split_on CHR '','' p @ split_on CHR '','' (normalizeDN b)"
      by (simp add: split_on_general_append)
    then show ?thesis by (auto simp: split_normalizeDN suffix_def)
  qed (auto simp: normalizeDN_eq_iff)
next
  assume "suffix (dn_components b) (dn_components e)"
  then obtain ps where ps: "dn_components e = ps @ dn_components b" by (auto simp: suffix_def)
  show "normalizeDN e = normalizeDN b \<or> has_suffix (normalizeDN e) ('','' @ normalizeDN b)"
  proof (cases "ps = []")
    case False
    then have "normalizeDN e = join_with '','' ps @ '','' @ normalizeDN b"
      by (simp add: normalizeDN_join ps join_with_append)
    then show ?thesis by (auto simp: has_suffix_iff)
  qed (use ps in \<open>simp add: normalizeDN_eq_iff\<close>)
qed

lemma single_components:
  "parentDN (normalizeDN e) = normalizeDN b \<longleftrightarrow>
     tl (dn_components e) = dn_components b \<or> length (dn_components e) = 1 \<and> dn_components b = [[]]"
proof -
  let ?es = "dn_components e" and ?bs = "dn_components b"
  have nc: "\<forall>p\<in>set ?es. CHR '','' \<notin> set p" "\<forall>p\<in>set ?bs. CHR '','' \<notin> set p"
    by (auto dest: dn_components_no_comma)
  have par: "parentDN (normalizeDN e) = join_with '','' (tl ?es)"
    using parentDN_join [OF nc(1)] by (simp add: normalizeDN_join)
  show ?thesis
  proof (cases "tl ?es = []")
    case True
    then have "length ?es = 1" by (cases ?es) auto
    then show ?thesis
      using par True join_comma_eq_Nil [of ?bs] by (auto simp: normalizeDN_join)
  next
    case False
    then have "length ?es \<noteq> 1" by (cases ?es) auto
    moreover have "\<forall>p\<in>set (tl ?es). CHR '','' \<notin> set p"
      using nc(1) by (meson list.set_sel(2) list.sel(2) dn_components_not_Nil)
    ultimately show ?thesis
      using par False nc(2) join_with_inj [of "CHR '',''" "tl ?es" ?bs] by (auto simp: normalizeDN_join)
  qed
qed

section \<open>User names\<close>

text \<open>A user name that survives the way through a DN: what \<open>usernameFromDN\<close> gives back.\<close>

definition canonical_username :: "string \<Rightarrow> bool" where
  "canonical_username u \<longleftrightarrow>
     u \<noteq> [] \<and> to_lower u = u \<and> trim_space u = u \<and> CHR '','' \<notin> set u"

lemma uid_component:
  assumes "canonical_username u"
  shows "dn_components (''uid='' @ u) = [''uid='' @ u]"
proof -
  have r: "runes (''uid='' @ u) = 117 # 105 # 100 # 61 # runes u" by (simp add: runes_def)
  have "\<not> unicode_is_space (last (runes u))" "runes u \<noteq> []"
    using assms trim_space_eq_self_iff [of u] by (auto simp: canonical_username_def)
  then have "trim_space (''uid='' @ u) = ''uid='' @ u"
    unfolding trim_space_eq_self_iff r by (simp add: unicode_is_space_def white_space_runes_def)
  moreover have "to_lower (''uid='' @ u) = ''uid='' @ u"
    using assms by (simp add: to_lower_Cons_ascii ascii_lower_char_def canonical_username_def)
  moreover have "split_on CHR '','' (''uid='' @ u) = [''uid='' @ u]"
    using assms by (intro split_on_absent) (simp add: canonical_username_def)
  ultimately show ?thesis by (simp only: dn_components_def list.map)
qed

lemma normalizeDN_uid: "canonical_username u \<Longrightarrow> normalizeDN (''uid='' @ u) = ''uid='' @ u"
  by (simp only: normalizeDN_join uid_component join_with.simps)

lemma normalizeDN_people: "normalizeDN (peopleBaseDN baseDN) = ''ou=people,'' @ normalizeDN baseDN"
proof -
  have "dn_components ''ou=people'' = [''ou=people'']"
    by (simp add: dn_components_def trim_space_def strip_def unicode_is_space_def white_space_runes_def
        to_lower_def is_ascii_def ascii_lower_char_def)
  then have "normalizeDN ''ou=people'' = ''ou=people''"
    by (simp only: normalizeDN_join join_with.simps)
  then have "normalizeDN (''ou=people'' @ '','' @ baseDN) = ''ou=people'' @ '','' @ normalizeDN baseDN"
    by (simp only: normalizeDN_append)
  then show ?thesis by (simp add: peopleBaseDN_def)
qed

lemma no_comma_suffix:
  "CHR '','' \<notin> set a \<Longrightarrow> \<not> has_suffix (a @ '','' @ b) (CHR '','' # p @ '','' @ b)"
proof
  assume a: "CHR '','' \<notin> set a" and "has_suffix (a @ '','' @ b) (CHR '','' # p @ '','' @ b)"
  then obtain q where "a @ '','' @ b = q @ CHR '','' # p @ '','' @ b" by (auto simp: has_suffix_iff)
  then have "a = q @ CHR '','' # p" by simp
  with a show False by simp
qed

lemma split_n2_uid: "split_n2 CHR ''='' (''uid='' @ u) = [''uid'', u]"
  using cut_at_append [of "CHR ''=''" "''uid''" u] by (simp add: split_n2_def)

text \<open>What is left of the name once the base is cut off.\<close>

definition uid_value :: "string \<Rightarrow> string option" where
  "uid_value r =
     (let parts = split_n2 CHR ''='' r
      in if length parts \<noteq> 2 \<or> parts ! 0 \<noteq> ''uid'' \<or> parts ! 1 = [] then None else Some (parts ! 1))"

lemma uid_value_uid: "u \<noteq> [] \<Longrightarrow> uid_value (''uid='' @ u) = Some u"
  unfolding uid_value_def split_n2_uid Let_def by simp

lemma usernameFromDN_cut_people:
  "normalizeDN dn = r @ '',ou=people,'' @ normalizeDN baseDN \<Longrightarrow> usernameFromDN baseDN dn = uid_value r"
  unfolding usernameFromDN_def Let_def uid_value_def
  by (simp del: append.simps append_Cons add: trim_suffix_def)

lemma usernameFromDN_cut_base:
  "normalizeDN dn = r @ '','' @ normalizeDN baseDN \<Longrightarrow>
   \<not> has_suffix (normalizeDN dn) ('',ou=people,'' @ normalizeDN baseDN) \<Longrightarrow>
     usernameFromDN baseDN dn = uid_value r"
  unfolding usernameFromDN_def Let_def uid_value_def
  by (simp del: append.simps append_Cons add: trim_suffix_def)

lemma usernameFromDN_flat:
  assumes "canonical_username u"
  shows "usernameFromDN baseDN (userDN baseDN u) = Some u"
proof -
  have n: "normalizeDN (userDN baseDN u) = (''uid='' @ u) @ '','' @ normalizeDN baseDN"
    using normalizeDN_append [of "''uid='' @ u" baseDN]
    by (simp only: userDN_def normalizeDN_uid [OF assms] append_assoc)
  have "CHR '','' \<notin> set (''uid='' @ u)" using assms by (simp add: canonical_username_def)
  then have "\<not> has_suffix ((''uid='' @ u) @ '','' @ normalizeDN baseDN) ('',ou=people,'' @ normalizeDN baseDN)"
    using no_comma_suffix [of "''uid='' @ u" "normalizeDN baseDN" "''ou=people''"] by simp
  moreover have "u \<noteq> []" using assms by (simp add: canonical_username_def)
  ultimately show ?thesis
    using usernameFromDN_cut_base [OF n] uid_value_uid by (simp add: n del: append.simps append_Cons)
qed

lemma usernameFromDN_legacy:
  assumes "canonical_username u"
  shows "usernameFromDN baseDN (legacyUserDN baseDN u) = Some u"
proof -
  have n: "normalizeDN (legacyUserDN baseDN u) = (''uid='' @ u) @ '',ou=people,'' @ normalizeDN baseDN"
    using normalizeDN_append [of "''uid='' @ u" "peopleBaseDN baseDN"]
    by (simp add: legacyUserDN_def normalizeDN_people normalizeDN_uid [OF assms, simplified])
  moreover have "u \<noteq> []" using assms by (simp add: canonical_username_def)
  ultimately show ?thesis
    using usernameFromDN_cut_people [OF n] uid_value_uid by simp
qed

lemma split_n2_two:
  assumes "length (split_n2 c s) = 2"
  shows "s = split_n2 c s ! 0 @ c # split_n2 c s ! 1"
proof -
  obtain a b f where cut: "cut_at c s = (a, b, f)" by (metis prod_cases3)
  then have "f" using assms by (auto simp: split_n2_def split: if_splits)
  then show ?thesis using cut cut_at_found [of c s a b] by (simp add: split_n2_def)
qed

text \<open>Whatever DN a client sends, the user name extracted from it is in lower case.\<close>

lemma usernameFromDN_lower:
  assumes "usernameFromDN baseDN dn = Some v"
  shows "to_lower v = v" "v \<noteq> []"
proof -
  obtain r where r: "normalizeDN dn = r @ '',ou=people,'' @ normalizeDN baseDN \<or>
      normalizeDN dn = r @ '','' @ normalizeDN baseDN"
    and parts: "length (split_n2 CHR ''='' r) = 2" "v = split_n2 CHR ''='' r ! 1" "v \<noteq> []"
    using assms unfolding usernameFromDN_def Let_def
    by (auto simp: has_suffix_iff simp del: append.simps append_Cons split: if_splits)
  show "v \<noteq> []" by (rule parts(3))
  have "normalizeDN dn = r @ '','' @ ''ou=people,'' @ normalizeDN baseDN \<or>
      normalizeDN dn = r @ '','' @ normalizeDN baseDN" using r by simp
  moreover have "to_lower (''ou=people,'' @ normalizeDN baseDN) = ''ou=people,'' @ normalizeDN baseDN"
    by (simp add: to_lower_Cons_ascii ascii_lower_char_def)
  ultimately obtain w where w: "normalizeDN dn = r @ CHR '','' # w" "to_lower w = w"
    using to_lower_normalizeDN [of baseDN] by auto
  have "to_lower r @ CHR '','' # w = r @ CHR '','' # w"
    using to_lower_normalizeDN [of dn] w by (simp add: to_lower_append_ascii ascii_lower_char_def)
  then have "to_lower r = r" by simp
  moreover have "r = split_n2 CHR ''='' r ! 0 @ CHR ''='' # v"
    using split_n2_two [OF parts(1)] parts(2) by simp
  moreover have "CHR ''='' \<notin> set (split_n2 CHR ''='' r ! 0)"
    using parts(1) cut_at_found by (auto simp: split_n2_def split: prod.splits if_splits)
  ultimately obtain a where a: "r = a @ CHR ''='' # v" "CHR ''='' \<notin> set a" "to_lower r = r"
    by metis
  have "to_lower a @ CHR ''='' # to_lower v = a @ CHR ''='' # v"
    using a(1,3) by (simp add: to_lower_append_ascii ascii_lower_char_def)
  moreover have "CHR ''='' \<notin> set (to_lower a)"
    using to_lower_small_char(1) [of "CHR ''=''" a] a(2) by auto
  ultimately show "to_lower v = v"
    using a(2) cut_at_append by (metis prod.inject)
qed

section \<open>Properties\<close>

text \<open>C32: the string test for the search scope is the test on component lists: base object is equality,
  one level is equality with the tail, subtree is the suffix relation; every other scope value
  contains nothing. In particular a suffix of the string that starts inside a component does not count.\<close>

theorem dnWithinScope_on_components:
  "dnWithinScope baseDN scope entryDN \<longleftrightarrow>
     within_scope_spec (dn_components baseDN) scope (dn_components entryDN)"
  unfolding dnWithinScope_def within_scope_spec_def scope_defs Let_def
  using suffix_components [of entryDN baseDN] single_components [of entryDN baseDN]
  by (auto simp: normalizeDN_eq_iff)

text \<open>C31: exactly which DNs yield a user name: after normalisation the DN is \<open>uid=v\<close>, then the old people
  container or nothing, then the base DN; the container is cut off when it is there.\<close>

theorem usernameFromDN_iff:
  "usernameFromDN baseDN dn = Some v \<longleftrightarrow> v \<noteq> [] \<and>
     (normalizeDN dn = ''uid='' @ v @ '',ou=people,'' @ normalizeDN baseDN \<or>
      normalizeDN dn = ''uid='' @ v @ '','' @ normalizeDN baseDN \<and>
      \<not> has_suffix (normalizeDN dn) ('',ou=people,'' @ normalizeDN baseDN))"
proof -
  have uid: "uid_value r = Some v \<longleftrightarrow> v \<noteq> [] \<and> r = ''uid='' @ v" for r
    using uid_value_uid [of v] split_n2_two [of "CHR ''=''" r]
    by (auto simp: uid_value_def Let_def split: if_splits)
  consider (people) r where "normalizeDN dn = r @ '',ou=people,'' @ normalizeDN baseDN"
    | (base) r where "normalizeDN dn = r @ '','' @ normalizeDN baseDN"
        "\<not> has_suffix (normalizeDN dn) ('',ou=people,'' @ normalizeDN baseDN)"
    | (other) "\<not> has_suffix (normalizeDN dn) ('',ou=people,'' @ normalizeDN baseDN)"
        "\<not> has_suffix (normalizeDN dn) ('','' @ normalizeDN baseDN)"
    by (metis has_suffix_iff)
  then show ?thesis
  proof cases
    case people
    then show ?thesis using usernameFromDN_cut_people [OF people] uid [of r] by auto
  next
    case base
    have "normalizeDN dn \<noteq> ''uid='' @ v @ '',ou=people,'' @ normalizeDN baseDN"
      using base(2) by (metis append_assoc has_suffix_append)
    then show ?thesis using usernameFromDN_cut_base [OF base] uid [of r] base by auto
  next
    case other
    have "normalizeDN dn \<noteq> ''uid='' @ v @ '',ou=people,'' @ normalizeDN baseDN"
      "normalizeDN dn \<noteq> ''uid='' @ v @ '','' @ normalizeDN baseDN"
      using other by (metis append_assoc has_suffix_append)+
    then show ?thesis using other unfolding usernameFromDN_def Let_def by simp
  qed
qed

text \<open>the DN the server publishes for a user, in the flat and in the old form, leads back to the user
  name when that is non-empty, trimmed, in lower case and without comma.\<close>

theorem usernameFromDN_roundtrip:
  assumes "canonical_username u"
  shows "usernameFromDN baseDN (userDN baseDN u) = Some u \<and>
    usernameFromDN baseDN (legacyUserDN baseDN u) = Some u"
  using usernameFromDN_flat [OF assms] usernameFromDN_legacy [OF assms] by simp

theorem usernameFromDN_roundtrip_witness:
  "usernameFromDN ''dc=example,dc=com'' (userDN ''dc=example,dc=com'' ''ann'') = Some ''ann'' \<and>
   usernameFromDN ''dc=example,dc=com'' (legacyUserDN ''dc=example,dc=com'' ''ann'') = Some ''ann''"
  by (rule usernameFromDN_roundtrip) code_simp

end
