(* ===== verification/Filter_Match.thy ===== *)
theory Filter_Match
  imports Ber_Laws Dn Directory
begin

text \<open>
  Search filters (\<open>internal/ldapserver/filter.go\<close>): their data type, the parser from BER packets, and
  matching against the attributes of an entry. A Go map from attribute names to values is an
  association list with distinct keys.
\<close>

type_synonym attributes = "(string \<times> string list) list"

datatype ldap_filter =
    AndFilter "ldap_filter list"
  | OrFilter "ldap_filter list"
  | EqualityFilter string string
  | PresentFilter string

datatype request_error = BerError ber_error | UnsupportedFilter nat | InvalidScope int

definition normalizeComparableDN :: "string \<Rightarrow> string" where
  "normalizeComparableDN dn =
     (let normalized = normalizeDN dn;
          normalized = replace_first '',ou=people,'' '','' normalized;
          normalized = replace_first '',ou=groups,'' '','' normalized
      in normalized)"

definition matchesAttributeValue :: "string \<Rightarrow> string \<Rightarrow> string \<Rightarrow> bool" where
  "matchesAttributeValue attr actual wanted =
     (if to_lower attr \<in> {''member'', ''memberof'', ''uniquemember''}
      then normalizeComparableDN actual = normalizeComparableDN wanted
      else equal_fold actual wanted)"

text \<open>A missing key of a Go map reads as the nil slice.\<close>

definition attr_values :: "attributes \<Rightarrow> string \<Rightarrow> string list" where
  "attr_values attrs name = (case map_of attrs name of None \<Rightarrow> [] | Some vs \<Rightarrow> vs)"

fun filter_match :: "attributes \<Rightarrow> ldap_filter \<Rightarrow> bool" where
  "filter_match attrs (AndFilter fs) = list_all (filter_match attrs) fs"
| "filter_match attrs (OrFilter fs) = list_ex (filter_match attrs) fs"
| "filter_match attrs (EqualityFilter attr val) =
     list_ex (\<lambda>v. matchesAttributeValue attr v val) (attr_values attrs (to_lower attr))"
| "filter_match attrs (PresentFilter attr) = (map_of attrs (to_lower attr) \<noteq> None)"

definition lift_ber :: "ber_error + 'a \<Rightarrow> request_error + 'a" where
  "lift_ber r = (case r of Inl e \<Rightarrow> Inl (BerError e) | Inr x \<Rightarrow> Inr x)"

lemma lift_ber_simps [simp]: "lift_ber (Inl e) = Inl (BerError e)" "lift_ber (Inr x) = Inr x"
  by (simp_all add: lift_ber_def)

lemma lift_ber_Inr_iff [simp]: "lift_ber r = Inr x \<longleftrightarrow> r = Inr x"
  by (cases r) simp_all

fun parseFilter :: "packet \<Rightarrow> request_error + ldap_filter"
  and parseFilters :: "packet list \<Rightarrow> request_error + ldap_filter list" where
  "parseFilter (Packet cls tag con body cs) =
     (if cls = classContext \<and> tag = 0 then
        and_then (parseFilters cs) (\<lambda>fs. Inr (AndFilter fs))
      else if cls = classContext \<and> tag = 1 then
        and_then (parseFilters cs) (\<lambda>fs. Inr (OrFilter fs))
      else if cls = classContext \<and> tag = 3 then
        and_then (lift_ber (expectChildren (Packet cls tag con body cs) 2)) (\<lambda>_.
          Inr (EqualityFilter (packet_str (cs ! 0)) (packet_str (cs ! 1))))
      else if cls = classContext \<and> tag = 7 then
        Inr (PresentFilter (packet_str (Packet cls tag con body cs)))
      else Inl (UnsupportedFilter tag))"
| "parseFilters [] = Inr []"
| "parseFilters (c # cs) =
     and_then (parseFilter c) (\<lambda>f. and_then (parseFilters cs) (\<lambda>fs. Inr (f # fs)))"

section \<open>Parsing\<close>

text \<open>How a client writes a filter (RFC 4511, 4.5.1.7): context-specific tags 0, 1, 3 (constructed)
  and 7 (primitive).\<close>

fun encode_filter :: "ldap_filter \<Rightarrow> bytes" where
  "encode_filter (AndFilter fs) = 0xa0 # appendLength (concat (map encode_filter fs))"
| "encode_filter (OrFilter fs) = 0xa1 # appendLength (concat (map encode_filter fs))"
| "encode_filter (EqualityFilter a v) = 0xa3 # appendLength (berOctetString a @ berOctetString v)"
| "encode_filter (PresentFilter a) = berContextPrimitive 7 (bytes_of_string a)"

lemma parseFilters_list_all2:
  "list_all2 (\<lambda>p f. parseFilter p = Inr f) ps fs \<Longrightarrow> parseFilters ps = Inr fs"
  by (induction rule: list_all2_induct) simp_all

lemma parseFilters_Inr:
  "parseFilters ps = Inr fs \<longleftrightarrow> list_all2 (\<lambda>p f. parseFilter p = Inr f) ps fs"
  by (induction ps arbitrary: fs) (auto simp: and_then_Inr_iff list_all2_Cons1)

lemma length_concat_member: "x \<in> set xs \<Longrightarrow> length (f x) \<le> length (concat (map f xs))"
  by (induction xs) auto

lemma length_octet_string: "length s \<le> length (berOctetString s)"
  using length_appendLength(1) [of "bytes_of_string s"] by (simp add: berOctetString_def)

lemma encoded_filter:
  "length (encode_filter f) < 65536 \<Longrightarrow>
     \<exists>p. encodes (encode_filter f) p \<and> parseFilter p = Inr f"
proof (induction f)
  case (AndFilter fs)
  have len: "length (concat (map encode_filter fs)) < 65536"
    using AndFilter.prems length_appendLength(1) [of "concat (map encode_filter fs)"] by simp
  then have "\<forall>f\<in>set fs. \<exists>p. encodes (encode_filter f) p \<and> parseFilter p = Inr f"
    using AndFilter.IH length_concat_member [of _ fs encode_filter] by (meson le_less_trans)
  then obtain P where P: "\<forall>f\<in>set fs. encodes (encode_filter f) (P f) \<and> parseFilter (P f) = Inr f"
    by metis
  have "list_all2 encodes (map encode_filter fs) (map P fs)"
    using P by (auto simp: list_all2_conv_all_nth)
  then have "encodes (encode_filter (AndFilter fs)) (Packet 2 0 True (concat (map encode_filter fs)) (map P fs))"
    using encodes_constructed [of "map encode_filter fs" "map P fs" "0xa0"] len by simp
  moreover have "parseFilters (map P fs) = Inr fs"
    using P by (intro parseFilters_list_all2) (auto simp: list_all2_conv_all_nth)
  ultimately show ?case by (auto simp: class_defs)
next
  case (OrFilter fs)
  have len: "length (concat (map encode_filter fs)) < 65536"
    using OrFilter.prems length_appendLength(1) [of "concat (map encode_filter fs)"] by simp
  then have "\<forall>f\<in>set fs. \<exists>p. encodes (encode_filter f) p \<and> parseFilter p = Inr f"
    using OrFilter.IH length_concat_member [of _ fs encode_filter] by (meson le_less_trans)
  then obtain P where P: "\<forall>f\<in>set fs. encodes (encode_filter f) (P f) \<and> parseFilter (P f) = Inr f"
    by metis
  have "list_all2 encodes (map encode_filter fs) (map P fs)"
    using P by (auto simp: list_all2_conv_all_nth)
  then have "encodes (encode_filter (OrFilter fs)) (Packet 2 1 True (concat (map encode_filter fs)) (map P fs))"
    using encodes_constructed [of "map encode_filter fs" "map P fs" "0xa1"] len by simp
  moreover have "parseFilters (map P fs) = Inr fs"
    using P by (intro parseFilters_list_all2) (auto simp: list_all2_conv_all_nth)
  ultimately show ?case by (auto simp: class_defs)
next
  case (EqualityFilter a v)
  have len: "length (berOctetString a @ berOctetString v) < 65536"
    using EqualityFilter.prems length_appendLength(1) [of "berOctetString a @ berOctetString v"] by simp
  let ?cs = "[Packet 0 4 False (bytes_of_string a) [], Packet 0 4 False (bytes_of_string v) []]"
  have "list_all2 encodes [berOctetString a, berOctetString v] ?cs"
    using len length_octet_string [of a] length_octet_string [of v]
    by (auto intro!: encodes_octet_string)
  then have "encodes (encode_filter (EqualityFilter a v))
      (Packet 2 3 True (berOctetString a @ berOctetString v) ?cs)"
    using encodes_constructed [of "[berOctetString a, berOctetString v]" ?cs "0xa3"] len by simp
  then show ?case
    by (intro exI conjI, assumption) (simp add: class_defs expectChildren_def packet_str_def)
next
  case (PresentFilter a)
  have "length (bytes_of_string a) < 65536"
    using PresentFilter length_appendLength(1) [of "bytes_of_string a"] by (simp add: berContextPrimitive_def)
  then have "encodes (encode_filter (PresentFilter a)) (Packet 2 7 False (bytes_of_string a) [])"
    using encodes_primitive [of "bytes_of_string a" "0x87"] by (simp add: berContextPrimitive_def)
  then show ?case by (intro exI conjI, assumption) (simp add: class_defs packet_str_def)
qed

section \<open>The old DNs of members\<close>

lemma replace_first_absent: "\<not> contains_str s old \<Longrightarrow> old \<noteq> [] \<Longrightarrow> replace_first old new s = s"
  by (induction s) auto

lemma replace_first_at:
  assumes "c \<notin> set a"
  shows "replace_first (c # old) new (a @ (c # old) @ b) = a @ new @ b"
  using assms
proof (induction a)
  case Nil
  then show ?case by (simp add: has_prefix_iff)
next
  case (Cons x xs)
  then show ?case by (auto simp: has_prefix_iff)
qed

text \<open>A component between two commas is a component of the split string.\<close>

lemma contains_component:
  assumes "contains_str s (c # x @ [c])" "c \<notin> set x"
  shows "x \<in> set (split_on c s)"
proof -
  obtain p q where "s = p @ c # x @ c # q" using assms(1) by (auto simp: contains_str_iff)
  then show ?thesis using split_on_append [OF assms(2)] by (simp add: split_on_general_append)
qed

text \<open>In a normalised base DN every component starts with \<open>dc=\<close>, so none is one of the two old containers.\<close>

lemma normalized_base_components:
  assumes "normalized_base_dn base"
  shows "\<forall>c\<in>set (dn_components base). \<exists>v. c = ''dc='' @ v"
proof -
  obtain vs where vs: "vs \<noteq> []" "list_all dc_value vs" "base = join_with '','' (map ((@) ''dc='') vs)"
    using assms by (auto simp: normalized_base_dn_def)
  have "to_lower (trim_space (''dc='' @ v)) = ''dc='' @ to_lower v" if "v \<in> set vs" for v
  proof -
    have "trim_space (''dc='' @ v) = ''dc='' @ v"
      using trim_space_dc [of v] vs(2) that by (auto simp: list_all_iff)
    then show ?thesis by (simp add: to_lower_Cons_ascii ascii_lower_char_def)
  qed
  then show ?thesis
    using vs by (auto simp: dn_components_def split_canonical)
qed

lemma no_container:
  assumes "normalized_base_dn base" "\<forall>d\<in>set ds. d \<noteq> ''ou='' @ x" "CHR '','' \<notin> set x"
    "split_on CHR '','' s = ds @ dn_components base"
  shows "\<not> contains_str s ('',ou='' @ x @ '','')"
proof
  assume "contains_str s ('',ou='' @ x @ '','')"
  then have "''ou='' @ x \<in> set (ds @ dn_components base)"
    using contains_component [of s "CHR '',''" "''ou='' @ x"] assms(3,4) by simp
  then show False using assms(2) normalized_base_components [OF assms(1)] by auto
qed

text \<open>The first component of a DN of user or group \<open>u\<close>, as \<open>normalizeDN\<close> leaves it.\<close>

definition rdn_key :: "string \<Rightarrow> string" where
  "rdn_key rdn = to_lower (trim_space rdn)"

lemma rdn_key_component:
  assumes "CHR '','' \<notin> set rdn"
  shows "normalizeDN rdn = rdn_key rdn" "dn_components rdn = [rdn_key rdn]" "CHR '','' \<notin> set (rdn_key rdn)"
proof -
  show c: "dn_components rdn = [rdn_key rdn]"
    using assms by (simp add: dn_components_def rdn_key_def)
  then show "normalizeDN rdn = rdn_key rdn" by (simp add: normalizeDN_join)
  show "CHR '','' \<notin> set (rdn_key rdn)" using c dn_components_no_comma [of _ rdn] by simp
qed

lemma comparable_flat:
  assumes "normalized_base_dn base" "CHR '','' \<notin> set rdn"
    and "rdn_key rdn \<noteq> ''ou=people''" "rdn_key rdn \<noteq> ''ou=groups''"
  shows "normalizeComparableDN (rdn @ '','' @ base) = rdn_key rdn @ '','' @ normalizeDN base"
proof -
  let ?s = "rdn_key rdn @ '','' @ normalizeDN base"
  have n: "normalizeDN (rdn @ '','' @ base) = ?s"
    using rdn_key_component(1) [OF assms(2)] by (simp only: normalizeDN_append)
  have sp: "split_on CHR '','' ?s = [rdn_key rdn] @ dn_components base"
    using split_on_append [OF rdn_key_component(3) [OF assms(2)]] by (simp add: split_normalizeDN)
  have "\<not> contains_str ?s '',ou=people,''" "\<not> contains_str ?s '',ou=groups,''"
    using no_container [OF assms(1) _ _ sp, of "''people''"] no_container [OF assms(1) _ _ sp, of "''groups''"]
      assms(3,4) by simp_all
  then show ?thesis
    unfolding normalizeComparableDN_def Let_def n by (simp add: replace_first_absent)
qed

lemma normalizeDN_groups: "normalizeDN (groupsBaseDN base) = ''ou=groups,'' @ normalizeDN base"
proof -
  have "rdn_key ''ou=groups'' = ''ou=groups''"
    by (simp add: rdn_key_def trim_space_def strip_def unicode_is_space_def white_space_runes_def
        to_lower_def is_ascii_def ascii_lower_char_def)
  then have "normalizeDN (''ou=groups'' @ '','' @ base) = ''ou=groups'' @ '','' @ normalizeDN base"
    using rdn_key_component(1) [of "''ou=groups''"] by (simp only: normalizeDN_append) simp
  then show ?thesis by (simp add: groupsBaseDN_def)
qed

lemma comparable_people:
  assumes "normalized_base_dn base" "CHR '','' \<notin> set rdn"
    and "rdn_key rdn \<noteq> ''ou=groups''"
  shows "normalizeComparableDN (rdn @ '','' @ peopleBaseDN base) = rdn_key rdn @ '','' @ normalizeDN base"
proof -
  let ?s = "rdn_key rdn @ '','' @ normalizeDN base"
  have n: "normalizeDN (rdn @ '','' @ peopleBaseDN base) = rdn_key rdn @ '',ou=people,'' @ normalizeDN base"
    using rdn_key_component(1) [OF assms(2)] normalizeDN_append [of rdn "peopleBaseDN base"]
    by (simp add: normalizeDN_people)
  have sp: "split_on CHR '','' ?s = [rdn_key rdn] @ dn_components base"
    using split_on_append [OF rdn_key_component(3) [OF assms(2)]] by (simp add: split_normalizeDN)
  have "\<not> contains_str ?s '',ou=groups,''"
    using no_container [OF assms(1) _ _ sp, of "''groups''"] assms(3) by simp
  moreover have "replace_first '',ou=people,'' '','' (rdn_key rdn @ '',ou=people,'' @ normalizeDN base) = ?s"
    by (rule replace_first_at [OF rdn_key_component(3) [OF assms(2)]])
  ultimately show ?thesis
    unfolding normalizeComparableDN_def Let_def n by (simp add: replace_first_absent)
qed

lemma comparable_groups:
  assumes "normalized_base_dn base" "CHR '','' \<notin> set rdn"
    and "rdn_key rdn \<noteq> ''ou=people''"
  shows "normalizeComparableDN (rdn @ '','' @ groupsBaseDN base) = rdn_key rdn @ '','' @ normalizeDN base"
proof -
  let ?s = "rdn_key rdn @ '','' @ normalizeDN base"
  let ?g = "rdn_key rdn @ '',ou=groups,'' @ normalizeDN base"
  have n: "normalizeDN (rdn @ '','' @ groupsBaseDN base) = ?g"
    using rdn_key_component(1) [OF assms(2)] normalizeDN_append [of rdn "groupsBaseDN base"]
    by (simp add: normalizeDN_groups)
  have "split_on CHR '','' ?g = [rdn_key rdn] @ split_on CHR '','' (''ou=groups'' @ CHR '','' # normalizeDN base)"
    using split_on_append [OF rdn_key_component(3) [OF assms(2)]] by simp
  also have "split_on CHR '','' (''ou=groups'' @ CHR '','' # normalizeDN base) = ''ou=groups'' # dn_components base"
    by (subst split_on_append) (simp_all add: split_normalizeDN)
  finally have sp: "split_on CHR '','' ?g = [rdn_key rdn, ''ou=groups''] @ dn_components base" by simp
  have "\<not> contains_str ?g '',ou=people,''"
    using no_container [OF assms(1) _ _ sp, of "''people''"] assms(3) by simp
  moreover have "replace_first '',ou=groups,'' '','' ?g = ?s"
    by (rule replace_first_at [OF rdn_key_component(3) [OF assms(2)]])
  ultimately show ?thesis
    unfolding normalizeComparableDN_def Let_def n by (simp add: replace_first_absent)
qed

text \<open>A name as the store keeps it, trimmed and not empty, that has no comma.\<close>

definition plain_name :: "string \<Rightarrow> bool" where
  "plain_name u \<longleftrightarrow> u \<noteq> [] \<and> trim_space u = u \<and> CHR '','' \<notin> set u"

lemma rdn_key_plain:
  assumes "plain_name u" and "p = ''uid='' \<or> p = ''cn=''"
  shows "rdn_key (p @ u) = p @ to_lower u"
proof -
  have "\<not> unicode_is_space (last (runes u))" "runes u \<noteq> []"
    using assms trim_space_eq_self_iff [of u] by (auto simp: plain_name_def)
  moreover have "runes (''uid='' @ u) = 117 # 105 # 100 # 61 # runes u"
    "runes (''cn='' @ u) = 99 # 110 # 61 # runes u"
    by (simp_all add: runes_def)
  then have "hd (runes (p @ u)) \<in> {117, 99}" "runes u \<noteq> [] \<Longrightarrow> last (runes (p @ u)) = last (runes u)"
    using assms(2) by auto
  moreover have "\<not> unicode_is_space 117" "\<not> unicode_is_space 99"
    by (simp_all add: unicode_is_space_def white_space_runes_def)
  ultimately have "trim_space (p @ u) = p @ u"
    unfolding trim_space_eq_self_iff by auto
  then show ?thesis
    using assms(2) by (auto simp: rdn_key_def to_lower_Cons_ascii ascii_lower_char_def)
qed

lemma comparable_user:
  assumes "normalized_base_dn base" "plain_name u"
  shows "normalizeComparableDN (userDN base u) = ''uid='' @ to_lower u @ '','' @ normalizeDN base"
    and "normalizeComparableDN (legacyUserDN base u) = ''uid='' @ to_lower u @ '','' @ normalizeDN base"
  using comparable_flat [of base "''uid='' @ u"] comparable_people [of base "''uid='' @ u"]
    rdn_key_plain [OF assms(2), of "''uid=''"] assms
  by (simp_all add: userDN_def legacyUserDN_def plain_name_def)

lemma comparable_group:
  assumes "normalized_base_dn base" "plain_name u"
  shows "normalizeComparableDN (groupDN base u) = ''cn='' @ to_lower u @ '','' @ normalizeDN base"
    and "normalizeComparableDN (legacyGroupDN base u) = ''cn='' @ to_lower u @ '','' @ normalizeDN base"
  using comparable_flat [of base "''cn='' @ u"] comparable_groups [of base "''cn='' @ u"]
    rdn_key_plain [OF assms(2), of "''cn=''"] assms
  by (simp_all add: groupDN_def legacyGroupDN_def plain_name_def)

section \<open>Properties\<close>



text \<open>a membership filter accepts the DN of a user in its flat and in its old form alike: for names
  without comma and a normalised base DN, the value of \<open>member\<close> or \<open>uniqueMember\<close> matches either
  form exactly when the user names agree up to lower case; the same holds for \<open>memberOf\<close> and groups.\<close>

theorem member_filter_accepts_both_forms:
  assumes "normalized_base_dn base" "plain_name m" "plain_name u"
    and "to_lower attr \<in> {''member'', ''memberof'', ''uniquemember''}"
  shows "(matchesAttributeValue attr (userDN base m) (userDN base u) \<longleftrightarrow> to_lower m = to_lower u) \<and>
    (matchesAttributeValue attr (userDN base m) (legacyUserDN base u) \<longleftrightarrow> to_lower m = to_lower u) \<and>
    (matchesAttributeValue attr (groupDN base m) (groupDN base u) \<longleftrightarrow> to_lower m = to_lower u) \<and>
    (matchesAttributeValue attr (groupDN base m) (legacyGroupDN base u) \<longleftrightarrow> to_lower m = to_lower u) \<and>
    \<not> matchesAttributeValue attr (userDN base m) (groupDN base u)"
  using assms by (simp add: matchesAttributeValue_def comparable_user comparable_group)

theorem member_filter_accepts_both_forms_witness:
  "(matchesAttributeValue ''memberOf'' (userDN ''dc=x'' ''Ann'') (userDN ''dc=x'' ''ann'') \<longleftrightarrow> to_lower ''Ann'' = to_lower ''ann'') \<and>
    (matchesAttributeValue ''memberOf'' (userDN ''dc=x'' ''Ann'') (legacyUserDN ''dc=x'' ''ann'') \<longleftrightarrow> to_lower ''Ann'' = to_lower ''ann'') \<and>
    (matchesAttributeValue ''memberOf'' (groupDN ''dc=x'' ''Ann'') (groupDN ''dc=x'' ''ann'') \<longleftrightarrow> to_lower ''Ann'' = to_lower ''ann'') \<and>
    (matchesAttributeValue ''memberOf'' (groupDN ''dc=x'' ''Ann'') (legacyGroupDN ''dc=x'' ''ann'') \<longleftrightarrow> to_lower ''Ann'' = to_lower ''ann'') \<and>
    \<not> matchesAttributeValue ''memberOf'' (userDN ''dc=x'' ''Ann'') (groupDN ''dc=x'' ''ann'')"
proof (rule member_filter_accepts_both_forms)
  have "dc_value ''x''" by code_simp
  then show "normalized_base_dn ''dc=x''"
    by (auto simp: normalized_base_dn_def intro!: exI [of _ "[''x'']"])
  show "plain_name ''Ann''" "plain_name ''ann''" by code_simp+
  show "to_lower ''memberOf'' \<in> {''member'', ''memberof'', ''uniquemember''}" by code_simp
qed

end
