(* ===== verification/Ldap_Entries.thy ===== *)
theory Ldap_Entries
  imports Filter_Match Store
begin

text \<open>
  Directory entries of the LDAP server (\<open>internal/ldapserver/server.go\<close>): how users, groups and the
  fixed entries are shown, which attributes a search returns, and the search result message. Go maps
  are association lists with distinct keys; \<open>range\<close> over a map visits it in an order the language
  leaves open, which is the parameter \<open>order\<close>.
\<close>

record directory_entry =
  e_dn :: string
  e_aliasDNs :: "string list"
  e_attrs :: attributes
  e_displayAttrs :: "(string \<times> string) list"
  e_operationalAttrs :: "string list"

type_synonym map_order = "attributes \<Rightarrow> attributes"

section \<open>Result codes\<close>

definition resultSuccess :: int where "resultSuccess = 0"
definition resultProtocolError :: int where "resultProtocolError = 2"
definition resultInvalidCredentials :: int where "resultInvalidCredentials = 49"
definition resultInsufficientAccessRights :: int where "resultInsufficientAccessRights = 50"
definition resultBusy :: int where "resultBusy = 51"
definition resultUnwillingToPerform :: int where "resultUnwillingToPerform = 53"
definition resultInvalidDNSyntax :: int where "resultInvalidDNSyntax = 34"
definition resultAuthMethodNotSupported :: int where "resultAuthMethodNotSupported = 7"
definition resultAdminLimitExceeded :: int where "resultAdminLimitExceeded = 11"

lemmas result_defs = resultSuccess_def resultProtocolError_def resultInvalidCredentials_def
  resultInsufficientAccessRights_def resultBusy_def resultUnwillingToPerform_def resultInvalidDNSyntax_def
  resultAuthMethodNotSupported_def resultAdminLimitExceeded_def

section \<open>Entries\<close>

definition rootDSE :: "string \<Rightarrow> directory_entry" where
  "rootDSE baseDN =
     \<lparr>e_dn = [], e_aliasDNs = [],
      e_attrs =
        [(''namingcontexts'', [baseDN]),
         (''supportedldapversion'', [''3'']),
         (''vendorname'', [''NanoLDAP'']),
         (''objectclass'', [''top''])],
      e_displayAttrs =
        [(''namingcontexts'', ''namingContexts''),
         (''supportedldapversion'', ''supportedLDAPVersion''),
         (''vendorname'', ''vendorName''),
         (''objectclass'', ''objectClass'')],
      e_operationalAttrs = [''namingcontexts'', ''supportedldapversion'', ''vendorname'']\<rparr>"

text \<open>An entry written as a composite literal with \<open>dn\<close>, \<open>aliasDNs\<close> and \<open>attrs\<close> only.\<close>

definition plain_entry :: "string \<Rightarrow> string list \<Rightarrow> attributes \<Rightarrow> directory_entry" where
  "plain_entry dn aliases attrs =
     \<lparr>e_dn = dn, e_aliasDNs = aliases, e_attrs = attrs, e_displayAttrs = [], e_operationalAttrs = []\<rparr>"

fun dc_values :: "string list \<Rightarrow> string list" where
  "dc_values [] = []"
| "dc_values (part # parts) =
     (case cut_at CHR ''='' (trim_space part) of (attr, val, ok) \<Rightarrow>
        if \<not> ok \<or> \<not> equal_fold (trim_space attr) ''dc'' then dc_values parts
        else trim_space val # dc_values parts)"

definition dcComponents :: "string \<Rightarrow> string list" where
  "dcComponents baseDN = dc_values (split_on CHR '','' baseDN)"

definition baseEntry :: "string \<Rightarrow> directory_entry" where
  "baseEntry baseDN =
     plain_entry baseDN []
       [(''objectclass'', [''top'', ''domain'']),
        (''dc'', dcComponents baseDN)]"

definition containerEntry :: "string \<Rightarrow> string \<Rightarrow> directory_entry" where
  "containerEntry ou baseDN =
     plain_entry (''ou='' @ ou @ '','' @ baseDN) []
       [(''objectclass'', [''top'', ''organizationalUnit'']),
        (''ou'', [ou])]"

definition userEntry :: "user \<Rightarrow> string \<Rightarrow> directory_entry" where
  "userEntry u baseDN =
     plain_entry (userDN baseDN (u_Username u)) [legacyUserDN baseDN (u_Username u)]
       [(''objectclass'', [''inetOrgPerson'']),
        (''uid'', [u_Username u]),
        (''cn'', [u_Username u]),
        (''displayname'', [u_DisplayName u]),
        (''memberof'', map (\<lambda>g. groupDN baseDN (g_Name g)) (u_Groups u)),
        (''distinguishedname'', [userDN baseDN (u_Username u)])]"

definition groupEntry :: "group \<Rightarrow> string \<Rightarrow> directory_entry" where
  "groupEntry g baseDN =
     (let members = map (\<lambda>m. userDN baseDN m) (g_MemberUIDs g)
      in plain_entry (groupDN baseDN (g_Name g)) [legacyGroupDN baseDN (g_Name g)]
           [(''objectclass'', [''groupOfNames'']),
            (''cn'', [g_Name g]),
            (''member'', members),
            (''uniquemember'', members),
            (''memberuid'', g_MemberUIDs g)])"

definition entryWithinScope :: "string \<Rightarrow> int \<Rightarrow> directory_entry \<Rightarrow> bool" where
  "entryWithinScope baseDN scope entry =
     list_ex (\<lambda>candidateDN. dnWithinScope baseDN scope candidateDN) ([e_dn entry] @ e_aliasDNs entry)"

section \<open>Which attributes are returned\<close>

definition requestsAllUserAttributes :: "string list \<Rightarrow> bool" where
  "requestsAllUserAttributes requested =
     list_ex (\<lambda>name. to_lower (trim_space name) \<in> {''*'', ''all''}) requested"

definition requestsAllOperationalAttributes :: "string list \<Rightarrow> bool" where
  "requestsAllOperationalAttributes requested =
     list_ex (\<lambda>name. to_lower (trim_space name) \<in> {''+'', ''all''}) requested"

definition isOperationalAttribute :: "directory_entry \<Rightarrow> string \<Rightarrow> bool" where
  "isOperationalAttribute entry name = List.member (e_operationalAttrs entry) (to_lower name)"

definition attributeDisplayName :: "directory_entry \<Rightarrow> string \<Rightarrow> string" where
  "attributeDisplayName entry name =
     (case map_of (e_displayAttrs entry) (to_lower name) of Some displayName \<Rightarrow> displayName | None \<Rightarrow> name)"

fun select_requested :: "attributes \<Rightarrow> string list \<Rightarrow> attributes \<Rightarrow> attributes" where
  "select_requested attrs [] selected = selected"
| "select_requested attrs (name # names) selected =
     (let name = to_lower name
      in if name \<in> {''*'', ''+'', ''all''} then select_requested attrs names selected
         else case map_of attrs name of
                Some values \<Rightarrow> select_requested attrs names (AList.update name values selected)
              | None \<Rightarrow> select_requested attrs names selected)"

text \<open>The loops over \<open>entry.attrs\<close> that copy the attributes satisfying a condition.\<close>

fun select_where :: "(string \<Rightarrow> bool) \<Rightarrow> attributes \<Rightarrow> attributes \<Rightarrow> attributes" where
  "select_where P [] selected = selected"
| "select_where P ((name, values) # attrs) selected =
     select_where P attrs (if P name then AList.update name values selected else selected)"

definition selectedAttributes :: "directory_entry \<Rightarrow> string list \<Rightarrow> attributes" where
  "selectedAttributes entry requested =
     (if List.member requested ''1.1'' then []
      else if length requested = 0 then e_attrs entry
      else
        let includeUserAttrs = requestsAllUserAttributes requested;
            includeOperationalAttrs = requestsAllOperationalAttributes requested
        in if includeUserAttrs \<and> includeOperationalAttrs then e_attrs entry
           else
             let selected = select_requested (e_attrs entry) requested [];
                 selected = (if includeUserAttrs
                   then select_where (\<lambda>name. \<not> isOperationalAttribute entry name) (e_attrs entry) selected
                   else selected);
                 selected = (if includeOperationalAttrs
                   then select_where (\<lambda>name. isOperationalAttribute entry name) (e_attrs entry) selected
                   else selected)
             in selected)"

section \<open>Messages\<close>

definition resultPacket :: "nat \<Rightarrow> int \<Rightarrow> string \<Rightarrow> string \<Rightarrow> bytes" where
  "resultPacket appTag resultCode matchedDN diagnostic =
     berApplication appTag (concat
       [berEnumerated resultCode, berOctetString matchedDN, berOctetString diagnostic])"

definition attribute_packet :: "directory_entry \<Rightarrow> string \<times> string list \<Rightarrow> bytes" where
  "attribute_packet entry = (\<lambda>(name, values).
     berSequence [berOctetString (attributeDisplayName entry name), berSet (map berOctetString values)])"

definition searchEntryPacket :: "map_order \<Rightarrow> directory_entry \<Rightarrow> string list \<Rightarrow> bytes" where
  "searchEntryPacket order entry requested =
     berApplication 4 (concat
       [berOctetString (e_dn entry),
        berSequence (map (attribute_packet entry) (order (selectedAttributes entry requested)))])"

section \<open>The selection as a set\<close>

lemma distinct_update_keys: "distinct (map fst m) \<Longrightarrow> distinct (map fst (AList.update k v m))"
  by (rule distinct_update)

lemma select_requested_map:
  "map_of (select_requested attrs names selected) n =
     (if n \<in> to_lower ` set names - {''*'', ''+'', ''all''} \<and> map_of attrs n \<noteq> None then map_of attrs n
      else map_of selected n)"
  by (induction attrs names selected rule: select_requested.induct)
    (auto simp: Let_def update_conv' split: option.splits)

lemma select_where_map:
  "distinct (map fst attrs) \<Longrightarrow>
     map_of (select_where P attrs selected) n =
       (if P n \<and> map_of attrs n \<noteq> None then map_of attrs n else map_of selected n)"
proof (induction P attrs selected rule: select_where.induct)
  case (2 P name vs attrs selected)
  then have "map_of attrs name = None" by (simp add: map_of_eq_None_iff)
  then show ?case using 2 by (auto simp: update_conv')
qed simp

lemma distinct_select_requested:
  "distinct (map fst selected) \<Longrightarrow> distinct (map fst (select_requested attrs names selected))"
  by (induction attrs names selected rule: select_requested.induct)
    (auto simp: Let_def distinct_update split: option.splits)

lemma distinct_select_where:
  "distinct (map fst selected) \<Longrightarrow> distinct (map fst (select_where P attrs selected))"
  by (induction P attrs selected rule: select_where.induct) (simp_all add: distinct_update)

text \<open>What RFC 4511 (4.5.1.8) and RFC 3673 ask for: an attribute is returned iff it was named, or it is a user
  attribute and all of those were asked for, or an operational one and all of those were.\<close>

definition attribute_wanted :: "directory_entry \<Rightarrow> string list \<Rightarrow> string \<Rightarrow> bool" where
  "attribute_wanted entry requested name \<longleftrightarrow>
     \<not> List.member requested ''1.1'' \<and>
     (requested = [] \<or>
      name \<in> to_lower ` set requested - {''*'', ''+'', ''all''} \<or>
      requestsAllUserAttributes requested \<and> \<not> isOperationalAttribute entry name \<or>
      requestsAllOperationalAttributes requested \<and> isOperationalAttribute entry name)"

lemma wanted_all:
  "requestsAllUserAttributes requested \<Longrightarrow> requestsAllOperationalAttributes requested \<Longrightarrow>
     \<not> List.member requested ''1.1'' \<Longrightarrow> attribute_wanted entry requested name"
  by (auto simp: attribute_wanted_def)

lemma selectedAttributes_map:
  assumes d: "distinct (map fst (e_attrs entry))"
  shows "map_of (selectedAttributes entry requested) name =
     (if attribute_wanted entry requested name then map_of (e_attrs entry) name else None)"
proof -
  let ?u = "requestsAllUserAttributes requested" and ?o = "requestsAllOperationalAttributes requested"
  consider "List.member requested ''1.1''" | "requested = []"
    | "\<not> List.member requested ''1.1''" "?u" "?o"
    | "\<not> List.member requested ''1.1''" "requested \<noteq> []" "\<not> (?u \<and> ?o)" by blast
  then show ?thesis
  proof cases
    case 4
    have eq: "map_of (selectedAttributes entry requested) name =
        (if ?o \<and> isOperationalAttribute entry name \<or> ?u \<and> \<not> isOperationalAttribute entry name \<or>
            name \<in> to_lower ` set requested - {''*'', ''+'', ''all''}
         then map_of (e_attrs entry) name else None)"
      unfolding selectedAttributes_def Let_def using 4
      by (simp only: if_False if_True simp_thms length_0_conv select_where_map [OF d] select_requested_map split: if_split)
        (cases "map_of (e_attrs entry) name"; simp)
    show ?thesis unfolding eq attribute_wanted_def using 4 by auto
  qed (auto simp: selectedAttributes_def attribute_wanted_def wanted_all)
qed

lemma distinct_selectedAttributes:
  "distinct (map fst (e_attrs entry)) \<Longrightarrow> distinct (map fst (selectedAttributes entry requested))"
  by (auto simp: selectedAttributes_def Let_def distinct_select_requested distinct_select_where)

section \<open>Entries have distinct attribute names\<close>

definition entry_ok :: "directory_entry \<Rightarrow> bool" where
  "entry_ok entry \<longleftrightarrow> distinct (map fst (e_attrs entry))"

lemma entries_ok [simp]:
  "entry_ok (rootDSE b)" "entry_ok (baseEntry b)" "entry_ok (containerEntry ou b)"
  "entry_ok (userEntry u b)" "entry_ok (groupEntry g b)"
  by (simp_all add: entry_ok_def rootDSE_def baseEntry_def containerEntry_def userEntry_def groupEntry_def
      plain_entry_def Let_def)

section \<open>A client reads the entry back\<close>

text \<open>\<open>SearchResultEntry\<close> of RFC 4511 (4.5.2) as a client takes it apart.\<close>

definition read_attribute :: "packet \<Rightarrow> string \<times> string list" where
  "read_attribute p = (packet_str (children p ! 0), map packet_str (children (children p ! 1)))"

definition read_entry :: "packet \<Rightarrow> string \<times> (string \<times> string list) list" where
  "read_entry p = (packet_str (children p ! 0), map read_attribute (children (children p ! 1)))"

lemma length_frame: "length body \<le> length (t # appendLength body)"
  using length_appendLength(1) [of body] by simp

lemma octet_string_encodes:
  "length (berOctetString s) < 65536 \<Longrightarrow> encodes (berOctetString s) (Packet 0 4 False (bytes_of_string s) [])"
  using length_octet_string [of s] by (intro encodes_octet_string) simp

lemma mapped_shorter:
  "length (concat (map f xs)) < n \<Longrightarrow> x \<in> set xs \<Longrightarrow> length (f x) < n"
  by (induction xs) auto

lemma attribute_packet_encodes:
  assumes "length (attribute_packet entry (name, vs)) < 65536"
  shows "\<exists>p. encodes (attribute_packet entry (name, vs)) p \<and>
    read_attribute p = (attributeDisplayName entry name, vs)"
proof -
  let ?n = "berOctetString (attributeDisplayName entry name)" and ?vs = "map berOctetString vs"
  let ?P = "\<lambda>s. Packet 0 4 False (bytes_of_string s) []"
  have len: "length (concat [?n, berSet ?vs]) < 65536"
    using assms length_frame [of "concat [?n, berSet ?vs]" "0x30"] by (simp add: attribute_packet_def berSequence_def)
  then have lvs: "length (concat ?vs) < 65536"
    using length_frame [of "concat ?vs" "0x31"] by (simp add: berSet_def)
  then have "list_all2 encodes ?vs (map ?P vs)"
    by (auto simp: list_all2_conv_all_nth intro!: octet_string_encodes intro: mapped_shorter [of berOctetString vs])
  then have set: "encodes (berSet ?vs) (Packet 0 17 True (concat ?vs) (map ?P vs))"
    using lvs by (rule encodes_set)
  have "encodes ?n (?P (attributeDisplayName entry name))"
    using len by (intro octet_string_encodes) simp
  then have "encodes (berSequence [?n, berSet ?vs]) (Packet 0 16 True (concat [?n, berSet ?vs])
      [?P (attributeDisplayName entry name), Packet 0 17 True (concat ?vs) (map ?P vs)])"
    using set len by (intro encodes_sequence) simp_all
  then show ?thesis
    by (intro exI conjI) (simp add: attribute_packet_def, simp add: read_attribute_def packet_str_def comp_def)
qed

lemma searchEntryPacket_encodes:
  assumes len: "length (searchEntryPacket order entry requested) < 65536"
  shows "\<exists>p. encodes (searchEntryPacket order entry requested) p \<and> pclass p = classApplication \<and> ptag p = 4 \<and>
    read_entry p = (e_dn entry,
      map (\<lambda>(name, vs). (attributeDisplayName entry name, vs)) (order (selectedAttributes entry requested)))"
proof -
  let ?sel = "order (selectedAttributes entry requested)"
  let ?as = "map (attribute_packet entry) ?sel" and ?dn = "berOctetString (e_dn entry)"
  have l: "length (concat [?dn, berSequence ?as]) < 65536"
    using len length_appendLength(1) [of "concat [?dn, berSequence ?as]"]
    by (simp add: searchEntryPacket_def berApplication_def)
  then have la: "length (concat ?as) < 65536"
    using length_frame [of "concat ?as" "0x30"] by (simp add: berSequence_def)
  have "\<forall>a\<in>set ?sel. \<exists>p. encodes (attribute_packet entry a) p \<and>
      read_attribute p = (attributeDisplayName entry (fst a), snd a)"
  proof
    fix a assume a: "a \<in> set ?sel"
    obtain n vs where nv: "a = (n, vs)" by (cases a)
    show "\<exists>p. encodes (attribute_packet entry a) p \<and> read_attribute p = (attributeDisplayName entry (fst a), snd a)"
      using attribute_packet_encodes [of entry n vs] mapped_shorter [OF la a] nv by simp
  qed
  then obtain P where P: "\<forall>a\<in>set ?sel. encodes (attribute_packet entry a) (P a) \<and>
      read_attribute (P a) = (attributeDisplayName entry (fst a), snd a)" by metis
  have "list_all2 encodes ?as (map P ?sel)" using P by (auto simp: list_all2_conv_all_nth)
  then have seq: "encodes (berSequence ?as) (Packet 0 16 True (concat ?as) (map P ?sel))"
    using la by (rule encodes_sequence)
  have "encodes ?dn (Packet 0 4 False (bytes_of_string (e_dn entry)) [])"
    using l by (intro octet_string_encodes) simp
  then have "encodes (searchEntryPacket order entry requested) (Packet 1 4 True (concat [?dn, berSequence ?as])
      [Packet 0 4 False (bytes_of_string (e_dn entry)) [], Packet 0 16 True (concat ?as) (map P ?sel)])"
    unfolding searchEntryPacket_def using seq l by (intro encodes_application) simp_all
  moreover have "map read_attribute (map P ?sel) = map (\<lambda>(name, vs). (attributeDisplayName entry name, vs)) ?sel"
    using P by (simp add: case_prod_beta)
  ultimately show ?thesis
    by (intro exI conjI) (assumption, simp_all add: class_defs read_entry_def packet_str_def)
qed

section \<open>Properties\<close>





end
