(* ===== verification/Debug_Trace.thy ===== *)
theory Debug_Trace
  imports Ldap_Entries Config Ber_Laws
begin

text \<open>
  The debug log of the LDAP server (\<open>internal/ldapserver/debug.go\<close>): how packets are written as text.
  \<open>strconv.Quote\<close> is modelled rune by rune; its table of printable runes above \<open>U+00FF\<close> is the
  parameter \<open>printable\<close>.
\<close>

type_synonym print_table = "rune \<Rightarrow> bool"

section \<open>\<open>strconv.Quote\<close>\<close>

definition lower_hex :: "nat \<Rightarrow> char" where
  "lower_hex n = ''0123456789abcdef'' ! (n mod 16)"

text \<open>The lowest \<open>k\<close> hexadecimal digits of \<open>n\<close>.\<close>

fun hex_digits :: "nat \<Rightarrow> nat \<Rightarrow> string" where
  "hex_digits 0 n = []"
| "hex_digits (Suc k) n = hex_digits k (n div 16) @ [lower_hex n]"

definition is_print :: "print_table \<Rightarrow> rune \<Rightarrow> bool" where
  "is_print printable r =
     (if r \<le> 255 then 32 \<le> r \<and> r < 127 \<or> 161 \<le> r \<and> r \<noteq> 173 else printable r)"

definition escaped_rune :: "print_table \<Rightarrow> rune \<Rightarrow> string" where
  "escaped_rune printable r =
     (if r = 34 \<or> r = 92 then [CHR 92, char_of (nat r)]
      else if is_print printable r then encode_rune r
      else if r = 7 then [CHR 92, CHR ''a'']
      else if r = 8 then [CHR 92, CHR ''b'']
      else if r = 12 then [CHR 92, CHR ''f'']
      else if r = 10 then [CHR 92, CHR ''n'']
      else if r = 13 then [CHR 92, CHR ''r'']
      else if r = 9 then [CHR 92, CHR ''t'']
      else if r = 11 then [CHR 92, CHR ''v'']
      else if r < 32 \<or> r = 127 then [CHR 92, CHR ''x''] @ hex_digits 2 (nat r)
      else if r < 65536 then [CHR 92, CHR ''u''] @ hex_digits 4 (nat r)
      else [CHR 92, CHR ''U''] @ hex_digits 8 (nat r))"

definition quoted_segment :: "print_table \<Rightarrow> rune \<times> string \<Rightarrow> string" where
  "quoted_segment printable seg =
     (case seg of (r, chunk) \<Rightarrow>
        if length chunk = 1 \<and> r = rune_error then [CHR 92, CHR ''x''] @ hex_digits 2 (of_char (hd chunk))
        else escaped_rune printable r)"

definition go_quote :: "print_table \<Rightarrow> string \<Rightarrow> string" where
  "go_quote printable s = [CHR 34] @ concat (map (quoted_segment printable) (segments s)) @ [CHR 34]"

definition bool_text :: "bool \<Rightarrow> string" where
  "bool_text b = (if b then ''true'' else ''false'')"

section \<open>Names\<close>

definition ldapOpName :: "nat \<Rightarrow> string" where
  "ldapOpName tag =
     (if tag = 0 then ''BindRequest'' else if tag = 1 then ''BindResponse''
      else if tag = 2 then ''UnbindRequest'' else if tag = 3 then ''SearchRequest''
      else if tag = 4 then ''SearchResultEntry'' else if tag = 5 then ''SearchResultDone''
      else if tag = 7 then ''ModifyResponse'' else if tag = 9 then ''AddResponse''
      else if tag = 11 then ''DelResponse'' else if tag = 13 then ''ModifyDNResponse''
      else ''APPLICATION['' @ itoa (int tag) @ '']'')"

definition packetName :: "packet \<Rightarrow> string" where
  "packetName pkt =
     (let cls = pclass pkt; tag = ptag pkt;
          other = ''CLASS['' @ itoa (int cls) @ '':'' @ itoa (int tag) @ '']''
      in if cls = classUniversal then
           (if tag = 1 then ''BOOLEAN'' else if tag = 2 then ''INTEGER'' else if tag = 4 then ''OCTET_STRING''
            else if tag = 10 then ''ENUMERATED'' else if tag = 16 then ''SEQUENCE''
            else if tag = 17 then ''SET'' else other)
         else if cls = classApplication then ldapOpName tag
         else if cls = classContext then ''CONTEXT['' @ itoa (int tag) @ '']''
         else other)"

definition scopeName :: "int \<Rightarrow> string" where
  "scopeName scope =
     (if scope = scopeBaseObject then ''baseObject'' else if scope = scopeSingle then ''singleLevel''
      else if scope = scopeSubtree then ''subtree'' else ''scope('' @ itoa scope @ '')'')"

definition resultCodeName :: "int \<Rightarrow> string" where
  "resultCodeName code =
     (if code = resultSuccess then ''success'' else if code = resultProtocolError then ''protocolError''
      else if code = resultInvalidDNSyntax then ''invalidDNSyntax''
      else if code = resultAdminLimitExceeded then ''adminLimitExceeded''
      else if code = resultAuthMethodNotSupported then ''authMethodNotSupported''
      else if code = resultInvalidCredentials then ''invalidCredentials''
      else if code = resultInsufficientAccessRights then ''insufficientAccessRights''
      else if code = resultBusy then ''busy''
      else if code = resultUnwillingToPerform then ''unwillingToPerform''
      else ''code('' @ itoa code @ '')'')"

section \<open>Packets\<close>

text \<open>\<open>value, _ := p.int()\<close>: zero when there is no content.\<close>

definition int_or_zero :: "packet \<Rightarrow> int" where
  "int_or_zero p = (case packet_int p of Inl _ \<Rightarrow> 0 | Inr v \<Rightarrow> v)"

definition leaf_text :: "print_table \<Rightarrow> packet \<Rightarrow> string" where
  "leaf_text printable pkt =
     (if pclass pkt = classUniversal \<and> (ptag pkt = 2 \<or> ptag pkt = 10) then
        (case packet_int pkt of
           Inl _ \<Rightarrow> packetName pkt @ ''()''
         | Inr v \<Rightarrow> packetName pkt @ ''('' @ itoa v @ '')'')
      else if pclass pkt = classUniversal \<and> ptag pkt = 1 then
        packetName pkt @ ''('' @ bool_text (packet_boolean pkt) @ '')''
      else if length (content pkt) > 0 then
        packetName pkt @ ''('' @ go_quote printable (packet_str pkt) @ '')''
      else packetName pkt @ ''()'')"

fun formatGenericPacket :: "print_table \<Rightarrow> packet \<Rightarrow> string" where
  "formatGenericPacket printable (Packet cls tag con body cs) =
     (let pkt = Packet cls tag con body cs in
      if length cs > 0 then
        packetName pkt @ ''{'' @ join_with '', '' (map (formatGenericPacket printable) cs) @ ''}''
      else leaf_text printable pkt)"

fun formatFilterPacket :: "print_table \<Rightarrow> packet \<Rightarrow> string" where
  "formatFilterPacket printable (Packet cls tag con body cs) =
     (let pkt = Packet cls tag con body cs in
      if cls = classContext \<and> tag = 0 then
        ''and('' @ join_with '', '' (map (formatFilterPacket printable) cs) @ '')''
      else if cls = classContext \<and> tag = 1 then
        ''or('' @ join_with '', '' (map (formatFilterPacket printable) cs) @ '')''
      else if cls = classContext \<and> tag = 3 \<and> length cs \<ge> 2 then
        ''eq('' @ packet_str (cs ! 0) @ ''='' @ go_quote printable (packet_str (cs ! 1)) @ '')''
      else if cls = classContext \<and> tag = 7 then ''present('' @ packet_str pkt @ '')''
      else formatGenericPacket printable pkt)"

definition formatAuthChoice :: "print_table \<Rightarrow> packet \<Rightarrow> string" where
  "formatAuthChoice printable pkt =
     (if pclass pkt = classContext \<and> ptag pkt = 0 then ''simple('' @ [CHR 34] @ ''<redacted>'' @ [CHR 34] @ '')''
      else formatGenericPacket printable pkt)"

definition formatBindRequest :: "print_table \<Rightarrow> packet \<Rightarrow> string" where
  "formatBindRequest printable pkt =
     (if \<not> is_ok (expectChildren pkt 3) then ''BindRequest{invalid=true}''
      else ''BindRequest{version='' @ itoa (int_or_zero (children pkt ! 0)) @
        '', dn='' @ go_quote printable (packet_str (children pkt ! 1)) @
        '', authentication='' @ formatAuthChoice printable (children pkt ! 2) @ ''}'')"

definition formatSearchRequest :: "print_table \<Rightarrow> packet \<Rightarrow> string" where
  "formatSearchRequest printable pkt =
     (if \<not> is_ok (expectChildren pkt 8) then ''SearchRequest{invalid=true}''
      else ''SearchRequest{baseDN='' @ go_quote printable (packet_str (children pkt ! 0)) @
        '', scope='' @ scopeName (int_or_zero (children pkt ! 1)) @
        '', derefAliases='' @ itoa (int_or_zero (children pkt ! 2)) @
        '', sizeLimit='' @ itoa (int_or_zero (children pkt ! 3)) @
        '', timeLimit='' @ itoa (int_or_zero (children pkt ! 4)) @
        '', typesOnly='' @ bool_text (packet_boolean (children pkt ! 5)) @
        '', filter='' @ formatFilterPacket printable (children pkt ! 6) @
        '', attributes=['' @
        join_with '', '' (map (\<lambda>attr. go_quote printable (packet_str attr)) (children (children pkt ! 7))) @ '']}'')"

definition formatSearchEntry :: "print_table \<Rightarrow> packet \<Rightarrow> string" where
  "formatSearchEntry printable pkt =
     (if \<not> is_ok (expectChildren pkt 2) then ''SearchResultEntry{invalid=true}''
      else
        let attrs = map (\<lambda>attr. packet_str (children attr ! 0) @ ''=['' @
              join_with '', '' (map (\<lambda>v. go_quote printable (packet_str v)) (children (children attr ! 1))) @ '']'')
              (filter (\<lambda>attr. \<not> length (children attr) < 2) (children (children pkt ! 1)))
        in ''SearchResultEntry{dn='' @ go_quote printable (packet_str (children pkt ! 0)) @
           '', attributes=['' @ join_with '', '' attrs @ '']}'')"

definition formatResultPacket :: "print_table \<Rightarrow> string \<Rightarrow> packet \<Rightarrow> string" where
  "formatResultPacket printable name pkt =
     (if \<not> is_ok (expectChildren pkt 3) then name @ ''{invalid=true}''
      else name @ ''{result='' @ resultCodeName (int_or_zero (children pkt ! 0)) @
        '', matchedDN='' @ go_quote printable (packet_str (children pkt ! 1)) @
        '', diagnostic='' @ go_quote printable (packet_str (children pkt ! 2)) @ ''}'')"

definition formatDebugPacket :: "print_table \<Rightarrow> packet \<Rightarrow> string" where
  "formatDebugPacket printable pkt =
     (if pclass pkt = classApplication \<and> ptag pkt = 0 then formatBindRequest printable pkt
      else if pclass pkt = classApplication \<and> ptag pkt = 1 then formatResultPacket printable ''BindResponse'' pkt
      else if pclass pkt = classApplication \<and> ptag pkt = 2 then ''UnbindRequest{}''
      else if pclass pkt = classApplication \<and> ptag pkt = 3 then formatSearchRequest printable pkt
      else if pclass pkt = classApplication \<and> ptag pkt = 4 then formatSearchEntry printable pkt
      else if pclass pkt = classApplication \<and> ptag pkt = 5 then formatResultPacket printable ''SearchResultDone'' pkt
      else formatGenericPacket printable pkt)"

definition formatDebugMessage :: "print_table \<Rightarrow> packet \<Rightarrow> string" where
  "formatDebugMessage printable pkt =
     (if pclass pkt = classUniversal \<and> ptag pkt = 16 \<and> length (children pkt) \<ge> 2 then
        (case packet_int (children pkt ! 0) of
           Inr messageID \<Rightarrow> ''LDAPMessage{id='' @ itoa messageID @
             '', op='' @ formatDebugPacket printable (children pkt ! 1) @ ''}''
         | Inl _ \<Rightarrow> formatDebugPacket printable pkt)
      else formatDebugPacket printable pkt)"

definition formatDebugMessages :: "print_table \<Rightarrow> packet list \<Rightarrow> string" where
  "formatDebugMessages printable pkts = join_with ''; '' (map (formatDebugMessage printable) pkts)"

section \<open>Splitting a response\<close>

lemma readPacket_shorter: "readPacket r = Inr (p, rest) \<Longrightarrow> length rest + 1 < length r"
  by (auto simp: readPacket_def and_then_Inr_iff dest: read_frame_shorter)

function decodeMessages :: "bytes \<Rightarrow> ber_error + packet list" where
  "decodeMessages payload =
     (if payload = [] then Inr []
      else and_then (readPacket payload) (\<lambda>(msg, rest).
           and_then (decodeMessages rest) (\<lambda>messages. Inr (msg # messages))))"
  by pat_completeness auto
termination
  by (relation "measure length") (auto dest: readPacket_shorter)

declare decodeMessages.simps [simp del]

lemma decodeMessages_concat: "list_all2 encodes es ps \<Longrightarrow> decodeMessages (concat es) = Inr ps"
proof (induction rule: list_all2_induct)
  case (Cons e es p ps)
  then show ?case by (subst decodeMessages.simps) (simp add: encodes_def)
qed (simp add: decodeMessages.simps)

section \<open>Quoted text stays on its line\<close>

definition one_line :: "string \<Rightarrow> bool" where
  "one_line s \<longleftrightarrow> list_all (\<lambda>c. (of_char c :: nat) \<ge> 32) s"

lemma one_line_append [simp]: "one_line (s @ t) \<longleftrightarrow> one_line s \<and> one_line t"
  by (simp add: one_line_def)

lemma one_line_Cons [simp]: "one_line (c # s) \<longleftrightarrow> (of_char c :: nat) \<ge> 32 \<and> one_line s" "one_line []"
  by (simp_all add: one_line_def)

lemma one_line_concat [simp]: "one_line (concat ss) \<longleftrightarrow> (\<forall>s\<in>set ss. one_line s)"
  by (induction ss) auto

lemma one_line_join: "one_line sep \<Longrightarrow> (\<And>s. s \<in> set ss \<Longrightarrow> one_line s) \<Longrightarrow> one_line (join_with sep ss)"
  by (induction sep ss rule: join_with.induct) auto

lemma lower_hex_visible [simp]: "(of_char (lower_hex n) :: nat) \<ge> 32"
proof -
  have "list_all (\<lambda>c. (of_char c :: nat) \<ge> 32) ''0123456789abcdef''" by code_simp
  then show ?thesis by (simp add: list_all_length lower_hex_def)
qed

lemma hex_digits_visible [simp]: "one_line (hex_digits k n)"
  by (induction k n rule: hex_digits.induct) auto

lemma decimal_visible [simp]: "one_line (decimal n)"
proof (induction n rule: decimal.induct)
  case (1 n)
  then show ?case by (subst decimal.simps) (auto simp: digit_char_def of_char_of take_bit_nat_def)
qed

lemma itoa_visible [simp]: "one_line (itoa n)"
  by (simp add: itoa_def)

lemma encode_rune_visible:
  assumes "32 \<le> r"
  shows "one_line (encode_rune r)"
proof -
  have "nat (240 + r div 262144) mod 256 = nat (240 + r div 262144)" if "valid_rune r"
  proof (rule mod_less)
    have "r \<le> 1114111" using that by (simp add: valid_rune_def)
    then have "r div 262144 \<le> 1114111 div 262144" by (rule zdiv_mono1) simp
    then show "nat (240 + r div 262144) < 256" by simp
  qed
  then show ?thesis
    using assms
    by (auto simp: encode_rune_def encode_rune_bytes_def one_line_def list_all_iff of_char_of take_bit_nat_def)
qed

lemma escaped_rune_visible: "one_line (escaped_rune printable r)"
  by (auto simp: escaped_rune_def is_print_def encode_rune_visible of_char_of take_bit_nat_def)

lemma go_quote_visible [simp]: "one_line (go_quote printable s)"
  by (auto simp: go_quote_def quoted_segment_def escaped_rune_visible)

end
