(* ===== verification/Limiter.thy ===== *)
theory Limiter
  imports Prelude
begin

text \<open>
  The two rate limiters of \<open>internal/ldapserver/server.go\<close>. \<open>rateCounter\<close> counts searches of one
  connection in fixed one-second windows; \<open>windowLimiter\<close> keeps, per source address, the times of
  the accepted bind attempts in a sliding window. \<open>time.Now()\<close> is the argument \<open>now\<close>. The mutex
  of \<open>windowLimiter\<close> makes \<open>Allow\<close> atomic. The in-place filtering of the code (\<open>entries[:0]\<close>)
  writes behind the position it reads, so it is \<open>filter\<close>.
\<close>

record rateCounter =
  windowStart :: time
  rc_count :: int

definition rate_allow :: "rateCounter \<Rightarrow> time \<Rightarrow> int \<Rightarrow> bool \<times> rateCounter" where
  "rate_allow r now limit =
     (let r = (if now - windowStart r \<ge> second then r\<lparr>windowStart := now, rc_count := 0\<rparr> else r)
      in if rc_count r \<ge> limit then (False, r)
         else (True, r\<lparr>rc_count := rc_count r + 1\<rparr>))"

record windowLimiter =
  wl_window :: duration
  wl_limit :: int
  wl_entries :: "(string \<times> time list) list"
  wl_nextSweep :: time

definition recent :: "duration \<Rightarrow> time \<Rightarrow> time list \<Rightarrow> time list" where
  "recent window now ts = filter (\<lambda>t. now - t < window) ts"

definition bucket :: "windowLimiter \<Rightarrow> string \<Rightarrow> time list" where
  "bucket w key = (case map_of (wl_entries w) key of None \<Rightarrow> [] | Some ts \<Rightarrow> ts)"

definition sweepLocked :: "windowLimiter \<Rightarrow> time \<Rightarrow> windowLimiter" where
  "sweepLocked w now =
     w\<lparr>wl_entries :=
         filter (\<lambda>(key, kept). kept \<noteq> [])
           (map (\<lambda>(key, entries). (key, recent (wl_window w) now entries)) (wl_entries w))\<rparr>"

definition window_allow :: "windowLimiter \<Rightarrow> time \<Rightarrow> string \<Rightarrow> bool \<times> windowLimiter" where
  "window_allow w now key =
     (let w = (if now > wl_nextSweep w
               then (sweepLocked w now)\<lparr>wl_nextSweep := now + wl_window w\<rparr> else w);
          entries = recent (wl_window w) now (bucket w key)
      in if int (length entries) \<ge> wl_limit w
         then (False, w\<lparr>wl_entries := AList.update key entries (wl_entries w)\<rparr>)
         else (True, w\<lparr>wl_entries := AList.update key (entries @ [now]) (wl_entries w)\<rparr>))"

section \<open>The sliding window against its specification\<close>

text \<open>The specification remembers every accepted attempt for ever and accepts a new one iff fewer
  than \<open>limit\<close> of the same key lie in the window. It also remembers the last time seen.\<close>

record limiter_spec =
  sp_window :: duration
  sp_limit :: int
  sp_accepted :: "(time \<times> string) list"
  sp_clock :: time

definition accepted_in_window :: "duration \<Rightarrow> (time \<times> string) list \<Rightarrow> time \<Rightarrow> string \<Rightarrow> time list" where
  "accepted_in_window window acc now key =
     recent window now (map fst (filter (\<lambda>(t, k). k = key) acc))"

definition spec_allow :: "limiter_spec \<Rightarrow> time \<times> string \<Rightarrow> bool \<times> limiter_spec" where
  "spec_allow s = (\<lambda>(now, key).
     (let ok = (int (length (accepted_in_window (sp_window s) (sp_accepted s) now key)) < sp_limit s)
      in (ok, s\<lparr>sp_clock := now, sp_accepted := sp_accepted s @ (if ok then [(now, key)] else [])\<rparr>)))"

definition window_step :: "windowLimiter \<Rightarrow> time \<times> string \<Rightarrow> bool \<times> windowLimiter" where
  "window_step w = (\<lambda>(now, key). window_allow w now key)"

definition limiter_rel :: "windowLimiter \<Rightarrow> limiter_spec \<Rightarrow> bool" where
  "limiter_rel w s \<longleftrightarrow>
     wl_window w = sp_window s \<and> wl_limit w = sp_limit s \<and> distinct (map fst (wl_entries w)) \<and>
     (\<forall>now\<ge>sp_clock s. \<forall>key. recent (sp_window s) now (bucket w key)
        = accepted_in_window (sp_window s) (sp_accepted s) now key)"

definition clock_ok :: "limiter_spec \<Rightarrow> time \<times> string \<Rightarrow> bool" where
  "clock_ok s = (\<lambda>(now, key). sp_clock s \<le> now)"

lemma recent_recent:
  "now \<le> now' \<Longrightarrow> recent window now' (recent window now ts) = recent window now' ts"
  by (induction ts) (auto simp: recent_def)

lemma recent_append: "recent window now (xs @ ys) = recent window now xs @ recent window now ys"
  by (simp add: recent_def)

lemma bucket_sweep:
  "distinct (map fst (wl_entries w)) \<Longrightarrow>
     bucket (sweepLocked w now) key = recent (wl_window w) now (bucket w key)"
proof -
  assume d: "distinct (map fst (wl_entries w))"
  let ?m = "map (\<lambda>(key, entries). (key, recent (wl_window w) now entries)) (wl_entries w)"
  have "map fst ?m = map fst (wl_entries w)" by (induction "wl_entries w") auto
  then have dm: "distinct (map fst ?m)" using d by (simp only:)
  have "map_of ?m key = map_option (recent (wl_window w) now) (map_of (wl_entries w) key)"
    by (simp add: map_of_map)
  then show ?thesis
    using map_of_filter_distinct [OF dm, of "\<lambda>(key, kept). kept \<noteq> []" key]
    by (auto simp: sweepLocked_def bucket_def recent_def split: option.splits)
qed

lemma distinct_sweep:
  assumes "distinct (map fst (wl_entries w))"
  shows "distinct (map fst (wl_entries (sweepLocked w now)))"
proof -
  let ?m = "map (\<lambda>(key, entries). (key, recent (wl_window w) now entries)) (wl_entries w)"
  have "map fst ?m = map fst (wl_entries w)" by (induction "wl_entries w") auto
  then have dm: "distinct (map fst ?m)" using assms by (simp only:)
  have eq: "wl_entries (sweepLocked w now) = filter (\<lambda>(key, kept). kept \<noteq> []) ?m"
    by (simp add: sweepLocked_def)
  show ?thesis unfolding eq by (rule distinct_keys_filter [OF dm])
qed

lemma bucket_update:
  "bucket (w\<lparr>wl_entries := AList.update key ts (wl_entries w)\<rparr>) key' = (if key' = key then ts else bucket w key')"
  by (simp add: bucket_def update_conv')

lemma recent_accepted:
  "now \<le> now' \<Longrightarrow> recent window now' (accepted_in_window window acc now key)
     = accepted_in_window window acc now' key"
  by (simp add: accepted_in_window_def recent_recent)

lemma recent_simps [simp]: "recent window now [] = []"
  "recent window now (t # ts) = (if now - t < window then t # recent window now ts else recent window now ts)"
  by (simp_all add: recent_def)

lemma limiter_rel_swept:
  assumes "limiter_rel w s" "sp_clock s \<le> now"
  shows "limiter_rel (if now > wl_nextSweep w
               then (sweepLocked w now)\<lparr>wl_nextSweep := now + wl_window w\<rparr> else w)
           (s\<lparr>sp_clock := now\<rparr>)"
proof -
  have "bucket ((sweepLocked w now)\<lparr>wl_nextSweep := n\<rparr>) key = bucket (sweepLocked w now) key" for n key
    by (simp add: bucket_def)
  moreover have "wl_window (sweepLocked w now) = wl_window w" "wl_limit (sweepLocked w now) = wl_limit w"
    by (simp_all add: sweepLocked_def)
  ultimately show ?thesis
    using assms bucket_sweep [of w now] distinct_sweep [of w now]
    by (auto simp: limiter_rel_def recent_recent recent_accepted)
qed

lemma accepted_append:
  "accepted_in_window window (acc @ bs) now key =
     accepted_in_window window acc now key @ accepted_in_window window bs now key"
  by (simp add: accepted_in_window_def recent_append)

lemma window_allow_simulates:
  assumes rel: "limiter_rel w s" and clk: "clock_ok s e"
  shows "fst (window_step w e) = fst (spec_allow s e)"
    and "limiter_rel (snd (window_step w e)) (snd (spec_allow s e))"
proof -
  obtain now key where e: "e = (now, key)" by (cases e)
  define w1 where "w1 = (if now > wl_nextSweep w
      then (sweepLocked w now)\<lparr>wl_nextSweep := now + wl_window w\<rparr> else w)"
  let ?s1 = "s\<lparr>sp_clock := now\<rparr>"
  have rel1: "limiter_rel w1 ?s1"
    unfolding w1_def by (rule limiter_rel_swept [OF rel]) (use clk e in \<open>simp add: clock_ok_def\<close>)
  define en where "en = recent (wl_window w1) now (bucket w1 key)"
  have en: "en = accepted_in_window (sp_window s) (sp_accepted s) now key"
    using rel1 by (simp add: limiter_rel_def en_def)
  have lim: "wl_limit w1 = sp_limit s" and win: "wl_window w1 = sp_window s"
    and dist: "distinct (map fst (wl_entries w1))"
    using rel1 by (simp_all add: limiter_rel_def)
  have alw: "window_step w e =
     (if int (length en) \<ge> wl_limit w1
      then (False, w1\<lparr>wl_entries := AList.update key en (wl_entries w1)\<rparr>)
      else (True, w1\<lparr>wl_entries := AList.update key (en @ [now]) (wl_entries w1)\<rparr>))"
    by (simp add: window_step_def e window_allow_def w1_def [symmetric] Let_def en_def)
  have spc: "spec_allow s e = (if int (length en) \<ge> sp_limit s then (False, ?s1)
      else (True, ?s1\<lparr>sp_accepted := sp_accepted s @ [(now, key)]\<rparr>))"
    by (simp add: spec_allow_def e Let_def en)
  show "fst (window_step w e) = fst (spec_allow s e)"
    by (simp add: alw spc lim)
  have keep: "recent (sp_window s) now' en = accepted_in_window (sp_window s) (sp_accepted s) now' key"
    if "now \<le> now'" for now'
    using that rel1 by (simp add: en_def win recent_recent) (simp add: limiter_rel_def)
  have other: "recent (sp_window s) now' (bucket w1 key') = accepted_in_window (sp_window s) (sp_accepted s) now' key'"
    if "now \<le> now'" for now' key'
    using that rel1 by (simp add: limiter_rel_def)
  show "limiter_rel (snd (window_step w e)) (snd (spec_allow s e))"
    unfolding alw spc using lim win dist
    by (auto simp: limiter_rel_def bucket_update keep other distinct_update recent_append accepted_append
        accepted_in_window_def [of _ "[_]"])
qed

interpretation bind_limiter: simulation window_step spec_allow limiter_rel clock_ok
  by unfold_locales (rule window_allow_simulates; assumption)+

text \<open>\<open>New\<close> starts with no bucket; the zero \<open>time.Time\<close> is 0.\<close>

definition new_limiter :: "duration \<Rightarrow> int \<Rightarrow> windowLimiter" where
  "new_limiter window limit =
     \<lparr>wl_window = window, wl_limit = limit, wl_entries = [], wl_nextSweep = 0\<rparr>"

definition new_spec :: "duration \<Rightarrow> int \<Rightarrow> time \<Rightarrow> limiter_spec" where
  "new_spec window limit clock =
     \<lparr>sp_window = window, sp_limit = limit, sp_accepted = [], sp_clock = clock\<rparr>"

text \<open>The attempts of a run that were accepted.\<close>

definition accepted_events :: "'e list \<Rightarrow> bool list \<Rightarrow> 'e list" where
  "accepted_events es outs = map fst (filter snd (zip es outs))"

lemma accepted_events_simps [simp]:
  "accepted_events [] outs = []"
  "accepted_events (e # es) (b # outs) = (if b then e # accepted_events es outs else accepted_events es outs)"
  by (simp_all add: accepted_events_def)

lemma new_limiter_rel: "limiter_rel (new_limiter window limit) (new_spec window limit clock)"
  by (simp add: limiter_rel_def new_limiter_def new_spec_def bucket_def accepted_in_window_def)

lemma spec_clock: "sp_clock (snd (spec_allow s (now, key))) = now"
  by (simp add: spec_allow_def Let_def)

lemma sorted_admissible:
  "sorted (map fst es) \<Longrightarrow> (\<And>t k. (t, k) \<in> set es \<Longrightarrow> sp_clock s \<le> t) \<Longrightarrow> bind_limiter.admissible s es"
proof (induction es arbitrary: s)
  case (Cons e es)
  obtain t k where e: "e = (t, k)" by (cases e)
  have "bind_limiter.admissible (snd (spec_allow s e)) es"
    using Cons.prems e by (intro Cons.IH) (auto simp: spec_clock)
  moreover have "clock_ok s e" using Cons.prems(2) [of t k] e by (simp add: clock_ok_def)
  ultimately show ?case by simp
qed simp

definition in_window :: "duration \<Rightarrow> time \<Rightarrow> string \<Rightarrow> time \<times> string \<Rightarrow> bool" where
  "in_window window now key = (\<lambda>(t, k). k = key \<and> now - window < t \<and> t \<le> now)"

definition spec_inv :: "limiter_spec \<Rightarrow> bool" where
  "spec_inv s \<longleftrightarrow> (\<forall>(t, k)\<in>set (sp_accepted s). t \<le> sp_clock s) \<and>
     (\<forall>now key. int (length (filter (in_window (sp_window s) now key) (sp_accepted s))) \<le> max 0 (sp_limit s))"

lemma in_window_count:
  "\<forall>(t, k)\<in>set acc. t \<le> now \<Longrightarrow> now \<le> T \<Longrightarrow>
     length (filter (in_window window T key) acc) \<le> length (accepted_in_window window acc now key)"
  by (induction acc) (auto simp: accepted_in_window_def in_window_def)

lemma spec_allow_inv:
  assumes inv: "spec_inv s" and clk: "clock_ok s e"
  shows "spec_inv (snd (spec_allow s e))"
proof -
  obtain now key where e: "e = (now, key)" by (cases e)
  have old: "\<forall>(t, k)\<in>set (sp_accepted s). t \<le> now"
    using inv clk e by (fastforce simp: spec_inv_def clock_ok_def)
  have bound: "int (length (filter (in_window (sp_window s) T k) (sp_accepted s))) \<le> max 0 (sp_limit s)" for T k
    using inv by (simp add: spec_inv_def)
  show ?thesis
  proof (cases "int (length (accepted_in_window (sp_window s) (sp_accepted s) now key)) < sp_limit s")
    case True
    have "int (length (filter (in_window (sp_window s) T k) (sp_accepted s @ [(now, key)]))) \<le> max 0 (sp_limit s)" for T k
    proof (cases "in_window (sp_window s) T k (now, key)")
      case in_w: True
      then have "k = key" "now \<le> T" by (auto simp: in_window_def)
      then show ?thesis
        using in_window_count [OF old, of T "sp_window s" key] True in_w by simp
    qed (use bound in simp)
    then show ?thesis using True old e by (auto simp: spec_allow_def Let_def spec_inv_def)
  next
    case False
    then show ?thesis using bound old e by (simp add: spec_allow_def Let_def spec_inv_def)
  qed
qed

lemma spec_run:
  "bind_limiter.admissible s es \<Longrightarrow> spec_inv s \<Longrightarrow>
     spec_inv (final_state spec_allow s es) \<and>
     sp_accepted (final_state spec_allow s es) = sp_accepted s @ accepted_events es (outputs spec_allow s es) \<and>
     sp_window (final_state spec_allow s es) = sp_window s \<and> sp_limit (final_state spec_allow s es) = sp_limit s"
proof (induction es arbitrary: s)
  case (Cons e es)
  obtain now key where e: "e = (now, key)" by (cases e)
  let ?s = "snd (spec_allow s e)"
  have "spec_inv ?s" using spec_allow_inv Cons.prems by simp
  moreover have "sp_window ?s = sp_window s" "sp_limit ?s = sp_limit s"
    "sp_accepted ?s = sp_accepted s @ (if fst (spec_allow s e) then [e] else [])"
    by (simp_all add: spec_allow_def Let_def e)
  ultimately show ?case
    using Cons.IH [of ?s] Cons.prems by (simp add: outputs_Cons del: outputs.simps(2))
qed simp

section \<open>Buckets stay small, idle buckets disappear\<close>

definition buckets_bounded :: "windowLimiter \<Rightarrow> bool" where
  "buckets_bounded w \<longleftrightarrow> distinct (map fst (wl_entries w)) \<and>
     (\<forall>key. int (length (bucket w key)) \<le> max 0 (wl_limit w))"

lemma length_recent_le: "length (recent window now ts) \<le> length ts"
  by (simp add: recent_def)

lemma swept_bounded:
  assumes "buckets_bounded w"
  shows "buckets_bounded (if now > wl_nextSweep w
           then (sweepLocked w now)\<lparr>wl_nextSweep := now + wl_window w\<rparr> else w)"
proof -
  have "bucket ((sweepLocked w now)\<lparr>wl_nextSweep := n\<rparr>) key = recent (wl_window w) now (bucket w key)" for n key
    using bucket_sweep [of w now key] assms by (simp add: bucket_def buckets_bounded_def)
  moreover have "int (length (recent (wl_window w) now (bucket w key))) \<le> max 0 (wl_limit w)" for key
    using assms length_recent_le [of "wl_window w" now "bucket w key"]
    by (auto simp: buckets_bounded_def intro: order_trans [rotated])
  ultimately show ?thesis
    using assms distinct_sweep [of w now] by (simp add: buckets_bounded_def) (simp add: sweepLocked_def)
qed

lemma window_allow_bounded: "buckets_bounded w \<Longrightarrow> buckets_bounded (snd (window_step w e))"
proof -
  assume b: "buckets_bounded w"
  obtain now key where e: "e = (now, key)" by (cases e)
  define w1 where "w1 = (if now > wl_nextSweep w
      then (sweepLocked w now)\<lparr>wl_nextSweep := now + wl_window w\<rparr> else w)"
  have b1: "buckets_bounded w1" unfolding w1_def by (rule swept_bounded [OF b])
  have "int (length (recent (wl_window w1) now (bucket w1 key))) \<le> max 0 (wl_limit w1)"
    using b1 length_recent_le [of "wl_window w1" now "bucket w1 key"]
    by (auto simp: buckets_bounded_def intro: order_trans [rotated])
  then show ?thesis
    using b1 by (auto simp: window_step_def e window_allow_def w1_def [symmetric] Let_def
        buckets_bounded_def bucket_update distinct_update)
qed

interpretation bounded_buckets: invariant_machine window_step buckets_bounded
  by unfold_locales (rule window_allow_bounded)

section \<open>The per-connection counter\<close>

definition rate_step :: "int \<Rightarrow> rateCounter \<Rightarrow> time \<Rightarrow> bool \<times> rateCounter" where
  "rate_step limit r now = rate_allow r now limit"

text \<open>What is true of a counter and the times it has accepted so far.\<close>

definition count_in :: "(time \<Rightarrow> bool) \<Rightarrow> time list \<Rightarrow> int" where
  "count_in P ts = int (length (filter P ts))"

definition rate_inv :: "int \<Rightarrow> rateCounter \<Rightarrow> time list \<Rightarrow> time \<Rightarrow> bool" where
  "rate_inv limit r acc clock \<longleftrightarrow>
     (\<forall>t\<in>set acc. t \<le> clock \<and> t < windowStart r + second) \<and>
     count_in (\<lambda>t. windowStart r \<le> t) acc = rc_count r \<and> rc_count r \<le> limit \<and>
     count_in (\<lambda>t. windowStart r - second < t \<and> t < windowStart r) acc \<le> limit \<and>
     (\<forall>T. count_in (\<lambda>t. T \<le> t \<and> t < T + second) acc \<le> 2 * limit)"

lemma count_in_append [simp]: "count_in P (xs @ ys) = count_in P xs + count_in P ys"
  by (simp add: count_in_def)

lemma count_in_single [simp]: "count_in P [x] = (if P x then 1 else 0)"
  by (simp add: count_in_def)

lemma count_in_mono: "(\<And>t. t \<in> set ts \<Longrightarrow> P t \<Longrightarrow> Q t) \<Longrightarrow> count_in P ts \<le> count_in Q ts"
  by (induction ts) (auto simp: count_in_def)

lemma count_in_disj: "(\<And>t. t \<in> set ts \<Longrightarrow> P t \<Longrightarrow> Q t \<or> R t) \<Longrightarrow> count_in P ts \<le> count_in Q ts + count_in R ts"
  by (induction ts) (auto simp: count_in_def)

lemma count_in_none: "(\<And>t. t \<in> set ts \<Longrightarrow> \<not> P t) \<Longrightarrow> count_in P ts = 0"
  by (simp add: count_in_def)

lemma rate_inv_reset:
  assumes inv: "rate_inv limit r acc clock" and now: "clock \<le> now" "0 \<le> limit"
  shows "rate_inv limit (if now - windowStart r \<ge> second then r\<lparr>windowStart := now, rc_count := 0\<rparr> else r) acc now"
proof (cases "now - windowStart r \<ge> second")
  case True
  have lt: "t < now" if "t \<in> set acc" for t
    using inv True that by (fastforce simp: rate_inv_def)
  have "count_in (\<lambda>t. now - second < t \<and> t < now) acc \<le> count_in (\<lambda>t. windowStart r \<le> t) acc"
    by (rule count_in_mono) (use True in auto)
  moreover have "count_in (\<lambda>t. now \<le> t) acc = 0"
    by (rule count_in_none) (use lt in fastforce)
  moreover have "t < now + second" if "t \<in> set acc" for t
    using lt [OF that] by (simp add: second_def)
  ultimately show ?thesis
    using inv True lt now(2) by (force simp: rate_inv_def)
next
  case False
  then show ?thesis using inv now by (force simp: rate_inv_def)
qed

lemma rate_inv_accept:
  assumes inv: "rate_inv limit r acc now" and w: "windowStart r \<le> now" "now < windowStart r + second"
    and lim: "rc_count r < limit"
  shows "rate_inv limit (r\<lparr>rc_count := rc_count r + 1\<rparr>) (acc @ [now]) now"
proof -
  have "count_in (\<lambda>t. T \<le> t \<and> t < T + second) (acc @ [now]) \<le> 2 * limit" for T
  proof (cases "T \<le> now \<and> now < T + second")
    case True
    have "count_in (\<lambda>t. T \<le> t \<and> t < T + second) acc \<le>
        count_in (\<lambda>t. windowStart r \<le> t) acc + count_in (\<lambda>t. windowStart r - second < t \<and> t < windowStart r) acc"
      by (rule count_in_disj) (use True w in auto)
    then show ?thesis using inv lim True by (simp add: rate_inv_def)
  next
    case False
    have "count_in (\<lambda>t. T \<le> t \<and> t < T + second) [now] = 0"
      by (rule count_in_none) (use False in auto)
    then show ?thesis using inv by (simp add: rate_inv_def del: count_in_single)
  qed
  then show ?thesis using inv w lim by (simp add: rate_inv_def)
qed

lemma rate_run:
  "rate_inv limit r acc clock \<Longrightarrow> windowStart r \<le> clock \<Longrightarrow> 0 \<le> limit \<Longrightarrow> sorted (clock # ts) \<Longrightarrow>
     \<exists>r' clock'. rate_inv limit r' (acc @ accepted_events ts (outputs (rate_step limit) r ts)) clock'"
proof (induction ts arbitrary: r acc clock)
  case (Cons now ts)
  define r1 where "r1 = (if now - windowStart r \<ge> second then r\<lparr>windowStart := now, rc_count := 0\<rparr> else r)"
  have now: "clock \<le> now" "sorted (now # ts)" using Cons.prems(4) by auto
  have inv1: "rate_inv limit r1 acc now"
    unfolding r1_def using rate_inv_reset Cons.prems now by blast
  have w: "windowStart r1 \<le> now" "now < windowStart r1 + second"
    using Cons.prems(2) now(1) by (auto simp: r1_def second_def)
  have alw: "rate_step limit r now = (if rc_count r1 \<ge> limit then (False, r1)
      else (True, r1\<lparr>rc_count := rc_count r1 + 1\<rparr>))"
    by (simp add: rate_step_def rate_allow_def r1_def Let_def)
  show ?case
  proof (cases "rc_count r1 \<ge> limit")
    case True
    then show ?thesis
      using Cons.IH [OF inv1 w(1) Cons.prems(3) now(2)] alw
      by (simp add: outputs_Cons del: outputs.simps(2))
  next
    case False
    have inv2: "rate_inv limit (r1\<lparr>rc_count := rc_count r1 + 1\<rparr>) (acc @ [now]) now"
      by (rule rate_inv_accept [OF inv1 w]) (use False in simp)
    show ?thesis
      using Cons.IH [OF inv2 _ Cons.prems(3) now(2)] w(1) alw False
      by (simp add: outputs_Cons del: outputs.simps(2))
  qed
qed auto

section \<open>Properties\<close>

text \<open>C18: the bind limiter decides every attempt of a run with a clock that does not go back exactly as
  the specification that never forgets an attempt: an attempt is accepted iff fewer than \<open>limit\<close>
  attempts of the same source were accepted within the window. Sweeping changes no decision.\<close>

theorem bind_limiter_refines_sliding_window:
  assumes "sorted (clock # map fst es)"
  shows "outputs window_step (new_limiter window limit) es = outputs spec_allow (new_spec window limit clock) es"
proof (rule bind_limiter.runs_agree [OF new_limiter_rel sorted_admissible])
  show "sorted (map fst es)" using assms by simp
  show "sp_clock (new_spec window limit clock) \<le> t" if "(t, k) \<in> set es" for t k
    using assms that by (force simp: new_spec_def)
qed

theorem bind_limiter_refines_sliding_window_witness:
  "outputs window_step (new_limiter 10 2) [(5, ''a''), (6, ''a''), (7, ''a''), (15, ''a'')]
     = outputs spec_allow (new_spec 10 2 0) [(5, ''a''), (6, ''a''), (7, ''a''), (15, ''a'')]"
  by (rule bind_limiter_refines_sliding_window) simp

text \<open>no source gets more than \<open>limit\<close> bind attempts accepted in any window: whatever the attempts
  of all sources, at every instant \<open>now\<close> at most \<open>limit\<close> accepted attempts of a source lie in the
  half-open interval of length \<open>window\<close> that ends at \<open>now\<close>.\<close>

theorem bind_limiter_bounds_attempts:
  assumes "sorted (clock # map fst es)" "0 \<le> limit"
  shows "int (length (filter (in_window window now key)
      (accepted_events es (outputs window_step (new_limiter window limit) es)))) \<le> limit"
proof -
  let ?s = "new_spec window limit clock"
  have adm: "bind_limiter.admissible ?s es"
    by (rule sorted_admissible) (use assms in \<open>auto simp: new_spec_def\<close>)
  have "spec_inv ?s" by (simp add: spec_inv_def new_spec_def)
  then have "spec_inv (final_state spec_allow ?s es)"
    "sp_accepted (final_state spec_allow ?s es) = accepted_events es (outputs spec_allow ?s es)"
    "sp_window (final_state spec_allow ?s es) = window" "sp_limit (final_state spec_allow ?s es) = limit"
    using spec_run [OF adm] by (simp_all add: new_spec_def)
  then have "int (length (filter (in_window window now key) (accepted_events es (outputs spec_allow ?s es)))) \<le> limit"
    using assms(2) by (auto simp: spec_inv_def max_def)
  then show ?thesis
    using bind_limiter.runs_agree [OF new_limiter_rel adm] by simp
qed

theorem bind_limiter_bounds_attempts_witness:
  "int (length (filter (in_window 10 12 ''a'')
     (accepted_events [(5, ''a''), (6, ''a''), (7, ''b''), (12, ''a'')]
       (outputs window_step (new_limiter 10 2) [(5, ''a''), (6, ''a''), (7, ''b''), (12, ''a'')])))) \<le> 2"
  by (rule bind_limiter_bounds_attempts [of 0]) simp_all

text \<open>the memory of the bind limiter is bounded per source: in every reachable state no bucket holds
  more than \<open>limit\<close> time stamps, and keys are not duplicated.\<close>

theorem bind_limiter_buckets_bounded:
  "buckets_bounded (final_state window_step (new_limiter window limit) es)"
  by (rule bounded_buckets.run_inv) (simp add: buckets_bounded_def new_limiter_def bucket_def)

text \<open>a connection gets at most twice the search rate in any interval of one second, whatever the
  times of its requests.\<close>

theorem search_rate_bounded:
  assumes "sorted ts" "0 \<le> limit" "ts \<noteq> []" "second \<le> hd ts"
  shows "count_in (\<lambda>t. T \<le> t \<and> t < T + second)
     (accepted_events ts (outputs (rate_step limit) \<lparr>windowStart = 0, rc_count = 0\<rparr> ts)) \<le> 2 * limit"
proof -
  have "sorted (0 # ts)"
    using assms by (cases ts) (auto simp: second_def)
  moreover have "rate_inv limit \<lparr>windowStart = 0, rc_count = 0\<rparr> [] 0"
    using assms(2) by (simp add: rate_inv_def count_in_def)
  ultimately obtain r' clock' where
    "rate_inv limit r' ([] @ accepted_events ts (outputs (rate_step limit) \<lparr>windowStart = 0, rc_count = 0\<rparr> ts)) clock'"
    using rate_run assms(2) by fastforce
  then show ?thesis by (simp add: rate_inv_def)
qed

theorem search_rate_bounded_witness:
  "count_in (\<lambda>t. 1500000000 \<le> t \<and> t < 1500000000 + second)
     (accepted_events [1000000000, 2000000000, 2000000001]
       (outputs (rate_step 1) \<lparr>windowStart = 0, rc_count = 0\<rparr> [1000000000, 2000000000, 2000000001])) \<le> 2 * 1"
  by (rule search_rate_bounded) (simp_all add: second_def)

text \<open>twice the rate is reached: the windows are fixed, so a connection that opened its window with
  one search can have \<open>2 * limit - 1\<close> further searches accepted within a single nanosecond of time
  around the end of the window; with the configured 50 searches per second, 99.\<close>

theorem search_rate_burst:
  "accepted_events (1000000000 # replicate 49 1999999999 @ replicate 50 2000000000)
     (outputs (rate_step 50) \<lparr>windowStart = 0, rc_count = 0\<rparr>
       (1000000000 # replicate 49 1999999999 @ replicate 50 2000000000))
   = (1000000000 # replicate 49 1999999999 @ replicate 50 2000000000 :: time list)"
  by code_simp

end
