(* ===== verification/Ldap_Server.thy ===== *)
theory Ldap_Server
  imports Debug_Trace Limiter Audit_Log Net_Addr
begin

text \<open>
  The LDAP server (\<open>internal/ldapserver/server.go\<close>): the state of the server and of a connection, and
  the handlers. The state shared by all connections is the record \<open>server\<close>: the database world (with
  the current time), the settings, the audit log, the lines of the debug log (without the prefix and
  time stamp that \<open>log.Logger\<close> puts before them) and the bind limiter. A handler returns its reply,
  the bytes to write and whether the connection is to be closed, or \<open>None\<close> when \<open>argon2.IDKey\<close>
  panics, which ends the process. \<open>idkey\<close> is \<open>argon2.IDKey\<close>, \<open>order\<close> the iteration order of maps.
  \<open>errors.As\<close>, \<open>errors.Is\<close> and the text of an error are only used where they make a difference to what
  is returned or logged.
\<close>

record server =
  sv_world :: world
  sv_settings :: dir_settings
  sv_audit :: "audit_logger option"
  sv_debugLog :: "string list option"
  sv_bindLimiter :: windowLimiter

record connState =
  cs_user :: user
  cs_bound :: bool
  cs_anonymous :: bool
  cs_hadSuccessfulBind :: bool
  cs_searchLimiter :: rateCounter
  cs_sourceIP :: string

record ldapMessage =
  m_id :: int
  m_op :: packet
  m_raw :: packet

record searchRequest =
  r_baseDN :: string
  r_scope :: int
  r_filter :: ldap_filter
  r_attributes :: "string list"

type_synonym reply = "(bytes \<times> bool) option"

text \<open>\<open>store.User{}\<close>.\<close>

definition zero_user :: user where
  "zero_user = \<lparr>u_ID = 0, u_Username = [], u_PasswordHash = [], u_DisplayName = [], u_Disabled = False,
     u_CreatedAt = 0, u_UpdatedAt = 0, u_Groups = []\<rparr>"

text \<open>The state \<open>handleConn\<close> starts with, for the remote address of the connection.\<close>

definition new_conn :: "string \<Rightarrow> connState" where
  "new_conn addr = \<lparr>cs_user = zero_user, cs_bound = False, cs_anonymous = False, cs_hadSuccessfulBind = False,
     cs_searchLimiter = \<lparr>windowStart = 0, rc_count = 0\<rparr>, cs_sourceIP = remoteIP addr\<rparr>"

definition new_server :: "config \<Rightarrow> dir_settings \<Rightarrow> world \<Rightarrow> audit_logger option \<Rightarrow> string list option \<Rightarrow> server" where
  "new_server cfg settings w audit debugSink =
     \<lparr>sv_world = w, sv_settings = settings, sv_audit = audit,
      sv_debugLog = (if LDAPDebug cfg then debugSink else None),
      sv_bindLimiter = new_limiter (LDAPBindWindow cfg) (LDAPBindLimit cfg)\<rparr>"

definition sv_now :: "server \<Rightarrow> time" where
  "sv_now sv = w_now (sv_world sv)"

definition audit_bind :: "server \<Rightarrow> connState \<Rightarrow> string \<Rightarrow> string \<Rightarrow> server" where
  "audit_bind sv st username result =
     sv\<lparr>sv_audit := LDAPBind (sv_audit sv) (sv_now sv) (cs_sourceIP st) username result\<rparr>"

section \<open>Bind\<close>

definition result_message :: "int \<Rightarrow> nat \<Rightarrow> int \<Rightarrow> string \<Rightarrow> bytes" where
  "result_message messageID appTag code diagnostic = berMessage messageID (resultPacket appTag code [] diagnostic)"

definition handleBind :: "idkey \<Rightarrow> server \<Rightarrow> connState \<Rightarrow> ldapMessage \<Rightarrow> reply \<times> connState \<times> server" where
  "handleBind idkey sv st msg =
     (let baseDN = BaseDN (sv_settings sv) in
      if cs_hadSuccessfulBind st then
        (Some (result_message (m_id msg) 1 resultUnwillingToPerform ''only one successful bind is allowed per connection'', False), st, sv)
      else
        let (allowed, limiter) = window_allow (sv_bindLimiter sv) (sv_now sv) (cs_sourceIP st);
            sv = sv\<lparr>sv_bindLimiter := limiter\<rparr>
        in if \<not> allowed then
          (Some (result_message (m_id msg) 1 resultBusy ''bind rate limit exceeded'', True), st,
           audit_bind sv st [] ''rate_limited'')
        else case expectChildren (m_op msg) 3 of
          Inl _ \<Rightarrow> (Some (result_message (m_id msg) 1 resultProtocolError ''invalid bind request'', False), st, sv)
        | Inr _ \<Rightarrow>
          if packet_int (children (m_op msg) ! 0) \<noteq> Inr 3 then
            (Some (result_message (m_id msg) 1 resultProtocolError ''unsupported LDAP version'', False), st, sv)
          else
            let dn = packet_str (children (m_op msg) ! 1);
                authChoice = children (m_op msg) ! 2
            in if pclass authChoice \<noteq> classContext \<or> ptag authChoice \<noteq> 0 then
              (Some (result_message (m_id msg) 1 resultAuthMethodNotSupported ''only simple bind is supported'', False), st, sv)
            else
              let password = packet_str authChoice
              in if dn = [] \<and> password = [] then
                (Some (result_message (m_id msg) 1 resultSuccess [], False),
                 st\<lparr>cs_bound := True, cs_anonymous := True, cs_hadSuccessfulBind := True\<rparr>,
                 audit_bind sv st [] ''anonymous'')
              else case usernameFromDN baseDN dn of
                None \<Rightarrow> (Some (result_message (m_id msg) 1 resultInvalidDNSyntax ''invalid bind DN'', False), st,
                  audit_bind sv st dn ''invalid_dn'')
              | Some username \<Rightarrow>
                (case AuthenticateUser idkey username password (sv_world sv) of
                   (Inl err, w) \<Rightarrow>
                     if err = AuthFailure Argon2Panic then (None, st, sv\<lparr>sv_world := w\<rparr>)
                     else (Some (result_message (m_id msg) 1 resultInvalidCredentials ''invalid credentials'', False), st,
                       audit_bind (sv\<lparr>sv_world := w\<rparr>) st username ''invalid_credentials'')
                 | (Inr user, w) \<Rightarrow>
                     if u_Disabled user then
                       (Some (result_message (m_id msg) 1 resultInvalidCredentials ''user is disabled'', False), st,
                        audit_bind (sv\<lparr>sv_world := w\<rparr>) st username ''user_disabled'')
                     else
                       (Some (result_message (m_id msg) 1 resultSuccess [], False),
                        st\<lparr>cs_user := user, cs_bound := True, cs_anonymous := False, cs_hadSuccessfulBind := True\<rparr>,
                        audit_bind (sv\<lparr>sv_world := w\<rparr>) st username ''success'')))"

section \<open>Search\<close>

definition parseSearchRequest :: "packet \<Rightarrow> request_error + searchRequest" where
  "parseSearchRequest pkt =
     and_then (lift_ber (expectChildren pkt 8)) (\<lambda>_.
     and_then (lift_ber (packet_int (children pkt ! 1))) (\<lambda>scope.
     if scope \<noteq> scopeBaseObject \<and> scope \<noteq> scopeSingle \<and> scope \<noteq> scopeSubtree then Inl (InvalidScope scope)
     else and_then (parseFilter (children pkt ! 6)) (\<lambda>filt.
       Inr \<lparr>r_baseDN = packet_str (children pkt ! 0), r_scope = scope, r_filter = filt,
            r_attributes = map packet_str (children (children pkt ! 7))\<rparr>)))"

definition isAnonymousRootDSERequest :: "searchRequest \<Rightarrow> bool" where
  "isAnonymousRootDSERequest request \<longleftrightarrow>
     r_baseDN request = [] \<and> (r_scope request = scopeBaseObject \<or> r_scope request = scopeSubtree)"

definition visibleEntries :: "user \<Rightarrow> string \<Rightarrow> directory_entry list io" where
  "visibleEntries user baseDN =
     io_bind ListUsers (\<lambda>allUsers.
     io_bind ListGroups (\<lambda>allGroups.
     let entries = [baseEntry baseDN, containerEntry ''people'' baseDN, containerEntry ''groups'' baseDN];
         adminScope = IsMemberOf user [''admins'', ''mvradmins''];
         allowedUsernames = (if adminScope then u_Username user # map u_Username allUsers else [u_Username user]);
         allowedGroups = (if adminScope then map g_Name allGroups else map g_Name (u_Groups user))
     in io_return (entries
          @ map (\<lambda>candidate. userEntry candidate baseDN)
              (filter (\<lambda>candidate. List.member allowedUsernames (u_Username candidate)) allUsers)
          @ map (\<lambda>group. groupEntry group baseDN)
              (filter (\<lambda>group. List.member allowedGroups (g_Name group)) allGroups))))"

text \<open>The entries of a search, in scope and matching the filter.\<close>

definition search_matches :: "searchRequest \<Rightarrow> directory_entry \<Rightarrow> bool" where
  "search_matches request entry \<longleftrightarrow>
     entryWithinScope (r_baseDN request) (r_scope request) entry \<and> filter_match (e_attrs entry) (r_filter request)"

definition handleSearch ::
  "map_order \<Rightarrow> config \<Rightarrow> server \<Rightarrow> connState \<Rightarrow> ldapMessage \<Rightarrow> bytes \<times> connState \<times> server" where
  "handleSearch order cfg sv st msg =
     (let baseDN = BaseDN (sv_settings sv);
          (allowed, limiter) = rate_allow (cs_searchLimiter st) (sv_now sv) (LDAPSearchRate cfg);
          st = st\<lparr>cs_searchLimiter := limiter\<rparr>
      in if \<not> allowed then
        (result_message (m_id msg) 5 resultAdminLimitExceeded ''search rate limit exceeded'', st, sv)
      else case parseSearchRequest (m_op msg) of
        Inl _ \<Rightarrow> (result_message (m_id msg) 5 resultProtocolError ''invalid search request'', st, sv)
      | Inr request \<Rightarrow>
        if \<not> cs_bound st \<or> cs_anonymous st then
          if \<not> isAnonymousRootDSERequest request then
            (result_message (m_id msg) 5 resultInsufficientAccessRights ''anonymous access is restricted to Root DSE'', st, sv)
          else
            (concat [berMessage (m_id msg) (searchEntryPacket order (rootDSE baseDN) (r_attributes request)),
                     result_message (m_id msg) 5 resultSuccess []], st, sv)
        else
          (case visibleEntries (cs_user st) baseDN (sv_world sv) of
             (Inl _, w) \<Rightarrow>
               (result_message (m_id msg) 5 resultBusy ''directory unavailable'', st, sv\<lparr>sv_world := w\<rparr>)
           | (Inr entries, w) \<Rightarrow>
               (concat (map (\<lambda>entry. berMessage (m_id msg) (searchEntryPacket order entry (r_attributes request)))
                          (filter (search_matches request) entries)
                        @ [result_message (m_id msg) 5 resultSuccess []]), st, sv\<lparr>sv_world := w\<rparr>)))"

section \<open>Messages\<close>

definition handleMessage ::
  "idkey \<Rightarrow> map_order \<Rightarrow> config \<Rightarrow> server \<Rightarrow> connState \<Rightarrow> ldapMessage \<Rightarrow> reply \<times> connState \<times> server" where
  "handleMessage idkey order cfg sv st msg =
     (let cls = pclass (m_op msg); tag = ptag (m_op msg) in
      if cls = classApplication \<and> tag = 0 then handleBind idkey sv st msg
      else if cls = classApplication \<and> tag = 2 then (Some ([], True), st, sv)
      else if cls = classApplication \<and> tag = 3 then
        (case handleSearch order cfg sv st msg of (response, st, sv) \<Rightarrow> (Some (response, False), st, sv))
      else if cls = classApplication \<and> tag \<in> {6, 8, 10, 12} then
        (Some (result_message (m_id msg) (tag + 1) resultUnwillingToPerform ''directory is read-only'', False), st, sv)
      else
        (Some (result_message (m_id msg) 1 resultProtocolError ''unsupported LDAP operation'', False), st, sv))"

datatype message_error = BadPacket ber_error | InvalidMessage

definition readMessage :: "bytes \<Rightarrow> message_error + (ldapMessage \<times> bytes)" where
  "readMessage r =
     (case readPacket r of
        Inl e \<Rightarrow> Inl (BadPacket e)
      | Inr (root, rest) \<Rightarrow>
          if pclass root \<noteq> classUniversal \<or> ptag root \<noteq> 16 \<or> length (children root) < 2 then Inl InvalidMessage
          else case packet_int (children root ! 0) of
            Inl e \<Rightarrow> Inl (BadPacket e)
          | Inr messageID \<Rightarrow> Inr (\<lparr>m_id = messageID, m_op = children root ! 1, m_raw = root\<rparr>, rest))"

section \<open>Debug log\<close>

definition ber_error_text :: "ber_error \<Rightarrow> string" where
  "ber_error_text e =
     (case e of
        EOF \<Rightarrow> ''EOF''
      | UnexpectedEOF \<Rightarrow> ''unexpected EOF''
      | HighTagNumber \<Rightarrow> ''high-tag-number form is not supported''
      | IndefiniteLength \<Rightarrow> ''indefinite lengths are not supported''
      | LengthTooLarge \<Rightarrow> ''length is too large''
      | MessageTooLarge \<Rightarrow> ''LDAP message exceeds maximum permitted size''
      | EmptyInteger \<Rightarrow> ''empty integer''
      | MissingChildren count got \<Rightarrow>
          ''expected at least '' @ decimal count @ '' children, got '' @ decimal got)"

definition debug_print :: "server \<Rightarrow> string \<Rightarrow> server" where
  "debug_print sv line = sv\<lparr>sv_debugLog := map_option (\<lambda>ls. ls @ [line]) (sv_debugLog sv)\<rparr>"

definition log_head :: "string \<Rightarrow> connState \<Rightarrow> ldapMessage \<Rightarrow> string" where
  "log_head kind st msg =
     kind @ '' remote='' @ cs_sourceIP st @ '' message_id='' @ itoa (m_id msg) @ '' op='' @ ldapOpName (ptag (m_op msg))"

definition logRequest :: "print_table \<Rightarrow> server \<Rightarrow> connState \<Rightarrow> ldapMessage \<Rightarrow> server" where
  "logRequest printable sv st msg =
     (if sv_debugLog sv = None then sv
      else debug_print sv (log_head ''request'' st msg @ '' payload='' @ formatDebugMessage printable (m_raw msg)))"

definition logResponse :: "print_table \<Rightarrow> server \<Rightarrow> connState \<Rightarrow> ldapMessage \<Rightarrow> bytes \<Rightarrow> server" where
  "logResponse printable sv st msg response =
     (if sv_debugLog sv = None \<or> length response = 0 then sv
      else case decodeMessages response of
        Inl err \<Rightarrow> debug_print sv (log_head ''response'' st msg @ '' decode_error='' @
          go_quote printable (ber_error_text err) @ '' bytes='' @ decimal (length response))
      | Inr messages \<Rightarrow> debug_print sv (log_head ''response'' st msg @ '' payload='' @
          formatDebugMessages printable messages))"

section \<open>Connections\<close>

text \<open>What the environment does around one turn of the loop of \<open>handleConn\<close>: whether \<open>SetDeadline\<close> and the
  write succeed, and the time, faults and randomness of the turn.\<close>

record turn =
  t_deadline_ok :: bool
  t_write_ok :: bool
  t_now :: time
  t_faults :: "bool list"

definition set_turn :: "turn \<Rightarrow> server \<Rightarrow> server" where
  "set_turn t sv = sv\<lparr>sv_world := (sv_world sv)\<lparr>w_now := t_now t, faults := t_faults t\<rparr>\<rparr>"

datatype conn_end = Returned | Crashed | Waiting

text \<open>The loop of \<open>handleConn\<close> on the bytes \<open>r\<close> the client sends before it closes its side or goes idle; the
  list of turns bounds the number of messages looked at (\<open>Waiting\<close> when it is used up). The result is
  how it ended, the responses written, and the states.\<close>

fun handleConn ::
  "idkey \<Rightarrow> map_order \<Rightarrow> print_table \<Rightarrow> config \<Rightarrow> turn list \<Rightarrow> server \<Rightarrow> connState \<Rightarrow> bytes \<Rightarrow>
     conn_end \<times> bytes list \<times> connState \<times> server" where
  "handleConn idkey order pr cfg [] sv st r = (Waiting, [], st, sv)"
| "handleConn idkey order pr cfg (t # ts) sv st r =
     (if \<not> t_deadline_ok t then (Returned, [], st, sv)
      else case readMessage r of
        Inl _ \<Rightarrow> (Returned, [], st, sv)
      | Inr (msg, rest) \<Rightarrow>
          (case handleMessage idkey order cfg (logRequest pr (set_turn t sv) st msg) st msg of
             (None, st, sv) \<Rightarrow> (Crashed, [], st, sv)
           | (Some (response, closeConn), st, sv) \<Rightarrow>
               let sv = logResponse pr sv st msg response
               in if length response > 0 \<and> \<not> t_write_ok t then (Returned, [], st, sv)
                  else
                    let written = (if length response > 0 then [response] else [])
                    in if closeConn then (Returned, written, st, sv)
                       else case handleConn idkey order pr cfg ts sv st rest of
                         (e, out, st, sv) \<Rightarrow> (e, written @ out, st, sv)))"

end
