(* ===== verification/Ldap_Laws.thy ===== *)
theory Ldap_Laws
  imports Ldap_Server Store_Props
begin

text \<open>
  What the handlers of the LDAP server do to the state and what they answer: the outcomes of a bind, the
  shape of every response, the entries a user may see, and that searches read nothing but the parts of
  the directory that are meant to be seen.
\<close>

section \<open>Authentication and search change no table\<close>

lemma keeps_visibleEntries: "keeps P (visibleEntries u b) (\<lambda>_. True)"
  unfolding visibleEntries_def
  by (rule keeps_bind [OF keeps_Lists(1)], rule keeps_bind [OF keeps_Lists(2)])
    (simp add: Let_def keeps_return)

lemma visibleEntries_db: "w_db (snd (visibleEntries u b w)) = w_db w"
  using keepsD [OF keeps_visibleEntries, of "\<lambda>d. d = w_db w" w] by simp

section \<open>Bind\<close>

text \<open>A bind request of version 3 with simple authentication.\<close>

definition simple_bind :: "packet \<Rightarrow> string \<Rightarrow> string \<Rightarrow> bool" where
  "simple_bind op dn password \<longleftrightarrow>
     length (children op) \<ge> 3 \<and> packet_int (children op ! 0) = Inr 3 \<and> packet_str (children op ! 1) = dn \<and>
     pclass (children op ! 2) = classContext \<and> ptag (children op ! 2) = 0 \<and>
     packet_str (children op ! 2) = password"

text \<open>The state after a bind that succeeded.\<close>

definition bound_as :: "user \<Rightarrow> connState \<Rightarrow> connState" where
  "bound_as user st = st\<lparr>cs_user := user, cs_bound := True, cs_anonymous := False, cs_hadSuccessfulBind := True\<rparr>"

definition bound_anonymously :: "connState \<Rightarrow> connState" where
  "bound_anonymously st = st\<lparr>cs_bound := True, cs_anonymous := True, cs_hadSuccessfulBind := True\<rparr>"

lemmas bound_defs = bound_as_def bound_anonymously_def

lemma expectChildren_ok: "(\<exists>u. expectChildren p n = Inr u) \<longleftrightarrow> n \<le> length (children p)"
  "expectChildren p n = Inr u \<longleftrightarrow> n \<le> length (children p)"
  by (simp_all add: expectChildren_def)

lemma handleBind_cases:
  assumes "handleBind idkey sv st msg = (rep, st', sv')"
  obtains (refused) "st' = st"
  | (anonymous) "\<not> cs_hadSuccessfulBind st" "simple_bind (m_op msg) [] []" "st' = bound_anonymously st"
      "rep = Some (result_message (m_id msg) 1 resultSuccess [], False)"
  | (user) dn password username user w where "\<not> cs_hadSuccessfulBind st" "simple_bind (m_op msg) dn password"
      "usernameFromDN (BaseDN (sv_settings sv)) dn = Some username"
      "AuthenticateUser idkey username password (sv_world sv) = (Inr user, w)" "\<not> u_Disabled user"
      "st' = bound_as user st"
      "sv' = audit_bind (sv\<lparr>sv_bindLimiter := snd (window_allow (sv_bindLimiter sv) (sv_now sv) (cs_sourceIP st)),
         sv_world := w\<rparr>) st username ''success''"
      "rep = Some (result_message (m_id msg) 1 resultSuccess [], False)"
  using assms
  by (auto simp: handleBind_def Let_def simple_bind_def bound_defs expectChildren_ok
      split: if_splits prod.splits sum.splits option.splits)

lemma handleBind_frame:
  assumes "handleBind idkey sv st msg = (rep, st', sv')"
  shows "sv_settings sv' = sv_settings sv" "sv_debugLog sv' = sv_debugLog sv"
    "w_db (sv_world sv') = w_db (sv_world sv)" "cs_searchLimiter st' = cs_searchLimiter st"
    "cs_sourceIP st' = cs_sourceIP st"
  using assms AuthenticateUser_db [of idkey _ _ "sv_world sv"]
  by (auto simp: handleBind_def Let_def audit_bind_def
      split: if_splits prod.splits sum.splits option.splits) (metis snd_conv)+

lemma handleBind_reply:
  assumes "handleBind idkey sv st msg = (Some (response, close), st', sv')"
  shows "\<exists>code diagnostic. response = result_message (m_id msg) 1 code diagnostic"
  using assms
  by (auto simp: handleBind_def Let_def split: if_splits prod.splits sum.splits option.splits)

section \<open>Search\<close>

lemma handleSearch_frame:
  assumes "handleSearch order cfg sv st msg = (response, st', sv')"
  shows "sv_settings sv' = sv_settings sv" "sv_audit sv' = sv_audit sv" "sv_debugLog sv' = sv_debugLog sv"
    "sv_bindLimiter sv' = sv_bindLimiter sv" "w_db (sv_world sv') = w_db (sv_world sv)"
    "st' = st\<lparr>cs_searchLimiter := cs_searchLimiter st'\<rparr>"
  using assms visibleEntries_db [of "cs_user st" "BaseDN (sv_settings sv)" "sv_world sv"]
  by (auto simp: handleSearch_def Let_def split: if_splits prod.splits sum.splits)

text \<open>Every answer to a search: some entries, then one result.\<close>

definition search_reply :: "map_order \<Rightarrow> int \<Rightarrow> directory_entry list \<Rightarrow> string list \<Rightarrow> int \<Rightarrow> string \<Rightarrow> bytes" where
  "search_reply order i entries attrs code diagnostic =
     concat (map (\<lambda>e. berMessage i (searchEntryPacket order e attrs)) entries @ [result_message i 5 code diagnostic])"

lemma search_reply_folds:
  "result_message i 5 code diagnostic = search_reply order i [] [] code diagnostic"
  "concat [berMessage i (searchEntryPacket order e attrs), result_message i 5 code diagnostic]
     = search_reply order i [e] attrs code diagnostic"
  by (simp_all add: search_reply_def)

lemma handleSearch_reply:
  assumes "handleSearch order cfg sv st msg = (response, st', sv')"
  obtains entries attrs code diagnostic where "response = search_reply order (m_id msg) entries attrs code diagnostic"
proof -
  have "\<exists>entries attrs code diagnostic. response = search_reply order (m_id msg) entries attrs code diagnostic"
    using assms
    unfolding handleSearch_def Let_def search_reply_folds(2) search_reply_def [symmetric]
    unfolding search_reply_folds(1) [of "m_id msg" _ _ order]
    by (auto split: if_splits prod.splits sum.splits)
  then show ?thesis using that by blast
qed

section \<open>Responses are read back\<close>

text \<open>A message with this id, as a client sees it, and a search result entry.\<close>

definition message_with_id :: "int \<Rightarrow> packet \<Rightarrow> bool" where
  "message_with_id i p \<longleftrightarrow> pclass p = classUniversal \<and> ptag p = 16 \<and> length (children p) = 2 \<and>
     packet_int (children p ! 0) = Inr i"

definition carries :: "nat \<Rightarrow> packet \<Rightarrow> bool" where
  "carries tag p \<longleftrightarrow> pclass (children p ! 1) = classApplication \<and> ptag (children p ! 1) = tag"

lemma message_read:
  assumes "encodes e q" "pclass q = classApplication" "ptag q = tag" "length (berMessage i e) < 65520" "int64 i"
  shows "\<exists>p. encodes (berMessage i e) p \<and> message_with_id i p \<and> carries tag p"
proof -
  have "length e < 65520"
    using assms(4) length_frame [of "concat [berInteger i, e]" "0x30"] by (simp add: berMessage_def berSequence_def)
  from encodes_message [OF assms(1) this, of i] show ?thesis
    using assms packet_int_roundtrip [OF assms(5)]
    by (auto simp: message_with_id_def carries_def class_defs intro!: exI)
qed

lemma resultPacket_encodes:
  assumes "tag < 31" "length (resultPacket tag code matched diagnostic) < 65536"
  shows "\<exists>q. encodes (resultPacket tag code matched diagnostic) q \<and> pclass q = classApplication \<and> ptag q = tag"
proof -
  let ?es = "[berEnumerated code, berOctetString matched, berOctetString diagnostic]"
  have len: "length (concat ?es) < 65536"
    using assms(2) length_frame [of "concat ?es" "0x60 OR word_of_nat tag"]
    by (simp add: resultPacket_def berApplication_def)
  then have "list_all2 encodes ?es [Packet 0 10 False (integer_content code) [],
      Packet 0 4 False (bytes_of_string matched) [], Packet 0 4 False (bytes_of_string diagnostic) []]"
    using encodes_enumerated by (auto intro!: octet_string_encodes)
  from encodes_application [OF assms(1) this len] show ?thesis
    unfolding resultPacket_def by (auto simp: class_defs intro!: exI)
qed

lemma result_message_read:
  assumes "tag < 31" "length (result_message i tag code diagnostic) < 65520" "int64 i"
  shows "\<exists>p. encodes (result_message i tag code diagnostic) p \<and> message_with_id i p \<and> carries tag p"
proof -
  have "length (resultPacket tag code [] diagnostic) < 65536"
    using assms(2) length_frame [of "concat [berInteger i, resultPacket tag code [] diagnostic]" "0x30"]
    by (simp add: result_message_def berMessage_def berSequence_def)
  then show ?thesis
    using message_read resultPacket_encodes [OF assms(1)] assms(2,3) unfolding result_message_def by blast
qed

lemma entry_message_read:
  assumes "length (berMessage i (searchEntryPacket order e attrs)) < 65520" "int64 i"
  shows "\<exists>p. encodes (berMessage i (searchEntryPacket order e attrs)) p \<and> message_with_id i p \<and> carries 4 p"
proof -
  have "length (searchEntryPacket order e attrs) < 65536"
    using assms(1) length_frame [of "concat [berInteger i, searchEntryPacket order e attrs]" "0x30"]
    by (simp add: berMessage_def berSequence_def)
  then show ?thesis
    using message_read searchEntryPacket_encodes assms by blast
qed

lemma list_all2_pick: "(\<And>x. x \<in> set xs \<Longrightarrow> \<exists>y. R x y \<and> P y) \<Longrightarrow> \<exists>ys. list_all2 R xs ys \<and> list_all P ys"
proof (induction xs)
  case (Cons x xs)
  then obtain y ys where "R x y \<and> P y" "list_all2 R xs ys \<and> list_all P ys" by fastforce
  then show ?case by (intro exI [of _ "y # ys"]) simp
qed simp

lemma search_reply_read:
  assumes "\<forall>e\<in>set entries. length (berMessage i (searchEntryPacket order e attrs)) < 65520"
    and "length (result_message i 5 code diagnostic) < 65520" "int64 i"
  shows "\<exists>ps p. decodeMessages (search_reply order i entries attrs code diagnostic) = Inr (ps @ [p]) \<and>
    length ps = length entries \<and> list_all (\<lambda>q. message_with_id i q \<and> carries 4 q) ps \<and>
    message_with_id i p \<and> carries 5 p"
proof -
  let ?f = "\<lambda>e. berMessage i (searchEntryPacket order e attrs)" and ?r = "result_message i 5 code diagnostic"
  have "\<exists>p. encodes x p \<and> message_with_id i p \<and> carries 4 p" if "x \<in> set (map ?f entries)" for x
    using that assms(1) entry_message_read [OF _ assms(3)] by auto
  then obtain ps where ps: "list_all2 encodes (map ?f entries) ps"
      "list_all (\<lambda>q. message_with_id i q \<and> carries 4 q) ps"
    using list_all2_pick [of "map ?f entries" encodes "\<lambda>q. message_with_id i q \<and> carries 4 q"] by blast
  obtain p where p: "encodes ?r p" "message_with_id i p" "carries 5 p"
    using result_message_read [OF _ assms(2,3)] by auto
  have "list_all2 encodes (map ?f entries @ [?r]) (ps @ [p])"
    using ps(1) p(1) by (simp add: list_all2_appendI)
  then have "decodeMessages (search_reply order i entries attrs code diagnostic) = Inr (ps @ [p])"
    unfolding search_reply_def by (rule decodeMessages_concat)
  then show ?thesis using ps p(2,3) list_all2_lengthD [OF ps(1)] by auto
qed

lemma result_message_decoded:
  assumes "tag < 31" "length (result_message i tag code diagnostic) < 65520" "int64 i"
  shows "\<exists>p. decodeMessages (result_message i tag code diagnostic) = Inr [p] \<and> message_with_id i p \<and> carries tag p"
  using result_message_read [OF assms] decodeMessages_concat [of "[result_message i tag code diagnostic]"] by auto

end
