(* ===== verification/Ldap_Visibility.thy ===== *)
theory Ldap_Visibility
  imports Ldap_Laws
begin

text \<open>
  What a search can see: the entries of \<open>visibleEntries\<close> for an ordinary user and for an administrator,
  and two-run lemmas: databases that differ only in what the directory does not show (password hashes,
  disabled flags, time stamps, group descriptions) give the same answers.
\<close>

section \<open>The entries of a user\<close>

definition sees_all :: "user \<Rightarrow> bool" where
  "sees_all u \<longleftrightarrow> IsMemberOf u [''admins'', ''mvradmins'']"

definition fixed_entries :: "string \<Rightarrow> directory_entry list" where
  "fixed_entries b = [baseEntry b, containerEntry ''people'' b, containerEntry ''groups'' b]"

lemma visibleEntries_Inr:
  assumes "visibleEntries u b w = (Inr es, w')"
  shows "es = fixed_entries b
    @ map (\<lambda>r. userEntry (load_user (w_db w) r) b)
        (filter (\<lambda>r. sees_all u \<or> ur_username r = u_Username u) (sort_key ur_username (t_users (w_db w))))
    @ map (\<lambda>r. groupEntry (load_group (w_db w) r) b)
        (filter (\<lambda>r. sees_all u \<or> gr_name r \<in> g_Name ` set (u_Groups u)) (sort_key gr_name (t_groups (w_db w))))"
proof -
  obtain us gs w1 where us: "ListUsers w = (Inr us, w1)" and gs: "ListGroups w1 = (Inr gs, w')"
    and es: "es = fixed_entries b
      @ map (\<lambda>c. userEntry c b) (filter (\<lambda>c. List.member (if sees_all u then u_Username u # map u_Username us
            else [u_Username u]) (u_Username c)) us)
      @ map (\<lambda>g. groupEntry g b) (filter (\<lambda>g. List.member (if sees_all u then map g_Name gs
            else map g_Name (u_Groups u)) (g_Name g)) gs)"
    using assms
    by (auto simp: visibleEntries_def io_bind_Inr io_return_def Let_def fixed_entries_def sees_all_def)
  have u: "us = map (load_user (w_db w)) (sort_key ur_username (t_users (w_db w)))" "w_db w1 = w_db w"
    and g: "gs = map (load_group (w_db w)) (sort_key gr_name (t_groups (w_db w)))"
    using ListUsers_Inr [OF us] ListGroups_Inr [OF gs] by simp_all
  have n: "u_Username (load_user d r) = ur_username r" "g_Name (load_group d q) = gr_name q" for d r q
    by (simp_all add: load_user_def scanned_user_def load_group_def scanned_group_def)
  show ?thesis
    unfolding es u(1) g
    by (auto simp: filter_map comp_def n image_image intro!: filter_cong)
qed

section \<open>Two runs\<close>

definition shown_user_row :: "user_row \<Rightarrow> user_row" where
  "shown_user_row r = r\<lparr>ur_password_hash := [], ur_disabled := 0, ur_created_at := 0, ur_updated_at := 0\<rparr>"

definition shown_group_row :: "group_row \<Rightarrow> group_row" where
  "shown_group_row r = r\<lparr>gr_description := []\<rparr>"

text \<open>The databases show the same directory.\<close>

definition same_view :: "db \<Rightarrow> db \<Rightarrow> bool" where
  "same_view d1 d2 \<longleftrightarrow> map shown_user_row (t_users d1) = map shown_user_row (t_users d2) \<and>
     map shown_group_row (t_groups d1) = map shown_group_row (t_groups d2) \<and>
     set (t_user_groups d1) = set (t_user_groups d2)"

definition view_rel :: "world \<Rightarrow> world \<Rightarrow> bool" where
  "view_rel w1 w2 \<longleftrightarrow> faults w1 = faults w2 \<and> same_view (w_db w1) (w_db w2)"

definition agree :: "('a \<Rightarrow> 'b \<Rightarrow> bool) \<Rightarrow> 'a io \<Rightarrow> 'b io \<Rightarrow> bool" where
  "agree R m1 m2 \<longleftrightarrow> (\<forall>w1 w2. view_rel w1 w2 \<longrightarrow>
     rel_sum (=) R (fst (m1 w1)) (fst (m2 w2)) \<and> view_rel (snd (m1 w1)) (snd (m2 w2)))"

lemma agree_return: "R x y \<Longrightarrow> agree R (io_return x) (io_return y)"
  by (simp add: agree_def io_return_def)

lemma agree_bind:
  assumes "agree R m1 m2" "\<And>x y. R x y \<Longrightarrow> agree S (k1 x) (k2 y)"
  shows "agree S (io_bind m1 k1) (io_bind m2 k2)"
  unfolding agree_def
proof (intro allI impI)
  fix w1 w2 assume "view_rel w1 w2"
  then have "rel_sum (=) R (fst (m1 w1)) (fst (m2 w2))" "view_rel (snd (m1 w1)) (snd (m2 w2))"
    using assms(1) by (auto simp: agree_def)
  then show "rel_sum (=) S (fst (io_bind m1 k1 w1)) (fst (io_bind m2 k2 w2)) \<and>
      view_rel (snd (io_bind m1 k1 w1)) (snd (io_bind m2 k2 w2))"
    using assms(2) by (cases "m1 w1"; cases "m2 w2") (auto simp: io_bind_def agree_def elim!: rel_sum.cases)
qed

lemma agree_query:
  assumes "\<And>d1 d2. same_view d1 d2 \<Longrightarrow> R (f1 d1) (f2 d2)"
  shows "agree R (query (\<lambda>d. Inr (f1 d))) (query (\<lambda>d. Inr (f2 d)))"
  using assms by (auto simp: agree_def query_def fault_def view_rel_def split: list.splits)

lemma insort_key_map: "(\<And>x. k (f x) = k x) \<Longrightarrow> insort_key k (f x) (map f xs) = map f (insort_key k x xs)"
  by (induction xs) auto

lemma sort_key_map: "(\<And>x. k (f x) = k x) \<Longrightarrow> sort_key k (map f xs) = map f (sort_key k xs)"
  by (induction xs) (simp_all add: insort_key_map)

lemma shown_keys [simp]: "ur_username (shown_user_row r) = ur_username r" "ur_id (shown_user_row r) = ur_id r"
  "ur_display_name (shown_user_row r) = ur_display_name r"
  "gr_name (shown_group_row g) = gr_name g" "gr_id (shown_group_row g) = gr_id g"
  by (simp_all add: shown_user_row_def shown_group_row_def)

text \<open>A list function that commutes with erasing gives the same on lists that are erased alike.\<close>

lemma erased_sort:
  "(\<And>x. k (f x) = k x) \<Longrightarrow> map f xs = map f ys \<Longrightarrow> map f (sort_key k xs) = map f (sort_key k ys)"
  using sort_key_map [of k f xs] sort_key_map [of k f ys] by simp

lemma erased_filter:
  "(\<And>x. P (f x) = P x) \<Longrightarrow> map f xs = map f ys \<Longrightarrow> map f (filter P xs) = map f (filter P ys)"
  using filter_map [of P f xs] filter_map [of P f ys] by (simp add: comp_def)

lemma erased_map:
  assumes "\<And>x. g (f x) = g x" "map f xs = map f ys"
  shows "map g xs = map g ys"
proof -
  have "map g (map f xs) = map g (map f ys)" using assms(2) by simp
  then show ?thesis using assms(1) by (simp add: comp_def)
qed

lemma groups_of_view:
  assumes "same_view d1 d2"
  shows "map gr_name (groups_of d1 i) = map gr_name (groups_of d2 i)"
proof -
  let ?P = "\<lambda>g. (i, gr_id g) \<in> set (t_user_groups d2)"
  have "map shown_group_row (filter ?P (t_groups d1)) = map shown_group_row (filter ?P (t_groups d2))"
    using assms by (intro erased_filter) (simp_all add: same_view_def)
  then have "map gr_name (sort_key gr_name (filter ?P (t_groups d1))) = map gr_name (sort_key gr_name (filter ?P (t_groups d2)))"
    by (intro erased_map [of gr_name shown_group_row] erased_sort) simp_all
  then show ?thesis using assms by (simp add: groups_of_def same_view_def)
qed

lemma members_of_view:
  assumes "same_view d1 d2"
  shows "members_of d1 g = members_of d2 g"
proof -
  let ?P = "\<lambda>u. (ur_id u, g) \<in> set (t_user_groups d2)"
  have "map shown_user_row (filter ?P (t_users d1)) = map shown_user_row (filter ?P (t_users d2))"
    using assms by (intro erased_filter) (simp_all add: same_view_def)
  then have "map ur_username (sort_key ur_username (filter ?P (t_users d1)))
      = map ur_username (sort_key ur_username (filter ?P (t_users d2)))"
    by (intro erased_map [of ur_username shown_user_row] erased_sort) simp_all
  then show ?thesis using assms by (simp add: members_of_def same_view_def)
qed

text \<open>What is shown of a user and of a group.\<close>

definition shown_user :: "user \<Rightarrow> int \<times> string \<times> string \<times> string list" where
  "shown_user u = (u_ID u, u_Username u, u_DisplayName u, map g_Name (u_Groups u))"

definition shown_group :: "group \<Rightarrow> int \<times> string \<times> string list" where
  "shown_group g = (g_ID g, g_Name g, g_MemberUIDs g)"

abbreviation shown_alike :: "('a \<Rightarrow> 'b) \<Rightarrow> 'a list \<Rightarrow> 'a list \<Rightarrow> bool" where
  "shown_alike f xs ys \<equiv> map f xs = map f ys"

lemma shown_updates:
  "shown_user u = shown_user v \<Longrightarrow> map g_Name gs = map g_Name hs \<Longrightarrow>
     shown_user (u\<lparr>u_Groups := gs\<rparr>) = shown_user (v\<lparr>u_Groups := hs\<rparr>)"
  "g_ID g = g_ID h \<Longrightarrow> g_Name g = g_Name h \<Longrightarrow>
     shown_group (g\<lparr>g_MemberUIDs := ms\<rparr>) = shown_group (h\<lparr>g_MemberUIDs := ms\<rparr>)"
  by (simp_all add: shown_user_def shown_group_def)

lemma agree_userGroups: "agree (shown_alike g_Name) (userGroups i) (userGroups i)"
  unfolding userGroups_def sql_user_groups_def
  by (rule agree_bind [where R = "shown_alike gr_name"], rule agree_query)
    (auto simp: groups_of_view scanned_group_def comp_def intro!: agree_return)

lemma agree_add_user_groups:
  "shown_alike shown_user us vs \<Longrightarrow> agree (shown_alike shown_user) (add_user_groups us) (add_user_groups vs)"
proof (induction us vs rule: list_induct2')
  case (4 u us v vs)
  then have hd: "shown_user u = shown_user v"
    and IH: "agree (shown_alike shown_user) (add_user_groups us) (add_user_groups vs)" by simp_all
  then have i: "u_ID u = u_ID v" by (simp add: shown_user_def)
  show ?case
    unfolding add_user_groups.simps i
    by (rule agree_bind [OF agree_userGroups], rule agree_bind [OF IH], rule agree_return)
      (simp add: shown_updates(1) [OF hd])
qed (auto intro: agree_return)

lemma scanned_alike:
  "shown_alike shown_user_row rs ss \<Longrightarrow> shown_alike shown_user (map scanned_user rs) (map scanned_user ss)"
  "shown_alike shown_group_row qs ts \<Longrightarrow>
     shown_alike (\<lambda>g. (g_ID g, g_Name g)) (map scanned_group qs) (map scanned_group ts)"
  unfolding map_map
  by (erule erased_map [rotated], simp add: shown_user_def scanned_user_def,
      erule erased_map [rotated], simp add: scanned_group_def)

lemma agree_ListUsers: "agree (shown_alike shown_user) ListUsers ListUsers"
  unfolding ListUsers_def sql_users_def
proof (rule agree_bind)
  show "agree (shown_alike shown_user_row) (query (\<lambda>d. Inr (sort_key ur_username (t_users d))))
      (query (\<lambda>d. Inr (sort_key ur_username (t_users d))))"
    by (intro agree_query erased_sort) (simp_all add: same_view_def)
qed (intro agree_add_user_groups scanned_alike)

lemma agree_groupMembers: "agree (=) (groupMembers i) (groupMembers i)"
  unfolding groupMembers_def sql_group_members_def by (rule agree_query) (rule members_of_view)

lemma agree_add_group_members:
  "shown_alike (\<lambda>g. (g_ID g, g_Name g)) gs hs \<Longrightarrow>
     agree (shown_alike shown_group) (add_group_members gs) (add_group_members hs)"
proof (induction gs hs rule: list_induct2')
  case (4 g gs h hs)
  then have i: "g_ID g = g_ID h" "g_Name g = g_Name h"
    and IH: "agree (shown_alike shown_group) (add_group_members gs) (add_group_members hs)" by auto
  show ?case
    unfolding add_group_members.simps i(1)
    by (rule agree_bind [OF agree_groupMembers], rule agree_bind [OF IH], rule agree_return)
      (simp add: shown_updates(2) [OF i])
qed (auto intro: agree_return)

lemma agree_ListGroups: "agree (shown_alike shown_group) ListGroups ListGroups"
  unfolding ListGroups_def sql_groups_def
proof (rule agree_bind)
  show "agree (shown_alike shown_group_row) (query (\<lambda>d. Inr (sort_key gr_name (t_groups d))))
      (query (\<lambda>d. Inr (sort_key gr_name (t_groups d))))"
    by (intro agree_query erased_sort) (simp_all add: same_view_def)
qed (intro agree_add_group_members scanned_alike)

section \<open>Entries show nothing else\<close>

lemma userEntry_shown: "shown_user u = shown_user v \<Longrightarrow> userEntry u b = userEntry v b"
proof -
  assume s: "shown_user u = shown_user v"
  then have "map (groupDN b) (map g_Name (u_Groups u)) = map (groupDN b) (map g_Name (u_Groups v))"
    by (simp add: shown_user_def)
  then show ?thesis using s by (simp add: userEntry_def shown_user_def comp_def)
qed

lemma groupEntry_shown: "shown_group g = shown_group h \<Longrightarrow> groupEntry g b = groupEntry h b"
  by (simp add: groupEntry_def shown_group_def)

lemma alike:
  "shown_user c = shown_user d \<Longrightarrow> List.member us (u_Username c) = List.member us (u_Username d) \<and> userEntry c b = userEntry d b"
  "shown_group g = shown_group h \<Longrightarrow> List.member gs (g_Name g) = List.member gs (g_Name h) \<and> groupEntry g b = groupEntry h b"
proof -
  show "List.member us (u_Username c) = List.member us (u_Username d) \<and> userEntry c b = userEntry d b"
    if s: "shown_user c = shown_user d"
    using userEntry_shown [OF s] s unfolding shown_user_def by (simp only: prod.inject)
  show "List.member gs (g_Name g) = List.member gs (g_Name h) \<and> groupEntry g b = groupEntry h b"
    if s: "shown_group g = shown_group h"
    using groupEntry_shown [OF s] s unfolding shown_group_def by (simp only: prod.inject)
qed

lemma entries_alike:
  assumes "shown_alike f xs ys" "\<And>x y. f x = f y \<Longrightarrow> P x = P y \<and> e x = e y"
  shows "map e (filter P xs) = map e (filter P ys)"
  using assms(1)
proof (induction xs ys rule: list_induct2')
  case (4 x xs y ys)
  then show ?case using assms(2) [of x y] by auto
qed auto

lemma agree_visibleEntries: "agree (=) (visibleEntries u b) (visibleEntries u b)"
  unfolding visibleEntries_def
proof (rule agree_bind [OF agree_ListUsers], rule agree_bind [OF agree_ListGroups], unfold Let_def, rule agree_return)
  fix us vs gs hs
  assume u: "shown_alike shown_user us vs" and g: "shown_alike shown_group gs hs"
  let ?us = "if IsMemberOf u [''admins'', ''mvradmins''] then u_Username u # map u_Username vs else [u_Username u]"
  let ?gs = "if IsMemberOf u [''admins'', ''mvradmins''] then map g_Name hs else map g_Name (u_Groups u)"
  have "map u_Username us = map u_Username vs"
    using u by (induction us vs rule: list_induct2') (auto simp: shown_user_def)
  moreover have "map g_Name gs = map g_Name hs"
    using g by (induction gs hs rule: list_induct2') (auto simp: shown_group_def)
  moreover have "map (\<lambda>c. userEntry c b) (filter (\<lambda>c. List.member ?us (u_Username c)) us)
      = map (\<lambda>c. userEntry c b) (filter (\<lambda>c. List.member ?us (u_Username c)) vs)"
    by (rule entries_alike [OF u]) (rule alike(1))
  moreover have "map (\<lambda>h. groupEntry h b) (filter (\<lambda>h. List.member ?gs (g_Name h)) gs)
      = map (\<lambda>h. groupEntry h b) (filter (\<lambda>h. List.member ?gs (g_Name h)) hs)"
    by (rule entries_alike [OF g]) (rule alike(2))
  ultimately show "[baseEntry b, containerEntry ''people'' b, containerEntry ''groups'' b]
     @ map (\<lambda>c. userEntry c b) (filter (\<lambda>c. List.member
          (if IsMemberOf u [''admins'', ''mvradmins''] then u_Username u # map u_Username us else [u_Username u])
          (u_Username c)) us)
     @ map (\<lambda>h. groupEntry h b) (filter (\<lambda>h. List.member
          (if IsMemberOf u [''admins'', ''mvradmins''] then map g_Name gs else map g_Name (u_Groups u)) (g_Name h)) gs)
    = [baseEntry b, containerEntry ''people'' b, containerEntry ''groups'' b]
     @ map (\<lambda>c. userEntry c b) (filter (\<lambda>c. List.member ?us (u_Username c)) vs)
     @ map (\<lambda>h. groupEntry h b) (filter (\<lambda>h. List.member ?gs (g_Name h)) hs)"
    by (simp only:)
qed

lemma handleSearch_view:
  assumes "view_rel (sv_world sv1) (sv_world sv2)" "sv_settings sv1 = sv_settings sv2" "sv_now sv1 = sv_now sv2"
  shows "fst (handleSearch order cfg sv1 st msg) = fst (handleSearch order cfg sv2 st msg)"
proof -
  have "rel_sum (=) (=) (fst (visibleEntries (cs_user st) (BaseDN (sv_settings sv2)) (sv_world sv1)))
      (fst (visibleEntries (cs_user st) (BaseDN (sv_settings sv2)) (sv_world sv2)))"
    using agree_visibleEntries assms(1) unfolding agree_def by blast
  then have "fst (visibleEntries (cs_user st) (BaseDN (sv_settings sv2)) (sv_world sv1)) =
      fst (visibleEntries (cs_user st) (BaseDN (sv_settings sv2)) (sv_world sv2))"
    by (simp add: sum.rel_eq)
  then show ?thesis
    using assms(2,3)
    by (auto simp: handleSearch_def Let_def split: if_splits prod.splits sum.splits)
qed

end
