(* ===== verification/Ldap_System.thy ===== *)
theory Ldap_System
  imports Ldap_Visibility
begin

text \<open>
  The LDAP server as a whole: the accept loop of \<open>Serve\<close> with its connection tokens, and the connections
  it has started, interleaved message by message with one another and with the changes the web
  administration makes. A connection holds one token from its acceptance to its end.
\<close>

record ldap_system =
  sy_server :: server
  sy_conns :: "(nat \<times> connState) list"
  sy_next :: nat

definition initial_system :: "server \<Rightarrow> ldap_system" where
  "initial_system sv = \<lparr>sy_server = sv, sy_conns = [], sy_next = 0\<rparr>"

text \<open>\<open>select { case s.connTokens <- struct{}{}: ... default: ... }\<close> on a channel of capacity
  \<open>LDAPMaxConnections\<close> that holds one token per connection.\<close>

definition token_free :: "config \<Rightarrow> ldap_system \<Rightarrow> bool" where
  "token_free cfg s \<longleftrightarrow> int (length (sy_conns s)) < LDAPMaxConnections cfg"

definition Serve_accept :: "config \<Rightarrow> string \<Rightarrow> ldap_system \<Rightarrow> ldap_system" where
  "Serve_accept cfg addr s =
     (if token_free cfg s
      then s\<lparr>sy_conns := sy_conns s @ [(sy_next s, new_conn addr)], sy_next := Suc (sy_next s)\<rparr>
      else s)"

definition end_connection :: "nat \<Rightarrow> ldap_system \<Rightarrow> ldap_system" where
  "end_connection i s = s\<lparr>sy_conns := adelete i (sy_conns s)\<rparr>"

text \<open>One message of connection \<open>i\<close>; \<open>None\<close> when the process panics.\<close>

definition serve_message ::
  "idkey \<Rightarrow> map_order \<Rightarrow> print_table \<Rightarrow> config \<Rightarrow> turn \<Rightarrow> nat \<Rightarrow> connState \<Rightarrow> ldapMessage \<Rightarrow> ldap_system \<Rightarrow>
     ldap_system option" where
  "serve_message idkey order pr cfg t i st msg s =
     (case handleMessage idkey order cfg (logRequest pr (set_turn t (sy_server s)) st msg) st msg of
        (None, _, _) \<Rightarrow> None
      | (Some (response, closeConn), st', sv') \<Rightarrow>
          let s' = s\<lparr>sy_server := logResponse pr sv' st' msg response, sy_conns := AList.update i st' (sy_conns s)\<rparr>
          in Some (if closeConn \<or> length response > 0 \<and> \<not> t_write_ok t then end_connection i s' else s'))"

inductive ldap_step :: "idkey \<Rightarrow> map_order \<Rightarrow> print_table \<Rightarrow> config \<Rightarrow> ldap_system \<Rightarrow> ldap_system \<Rightarrow> bool"
  for idkey order pr cfg where
  accept: "ldap_step idkey order pr cfg s (Serve_accept cfg addr s)"
| message: "\<lbrakk>map_of (sy_conns s) i = Some st; readMessage r = Inr (msg, rest);
    serve_message idkey order pr cfg t i st msg s = Some s'\<rbrakk> \<Longrightarrow> ldap_step idkey order pr cfg s s'"
| close: "ldap_step idkey order pr cfg s (end_connection i s)"
| store_change: "ldap_step idkey order pr cfg s
    (s\<lparr>sy_server := (sy_server s)\<lparr>sv_world := snd (store_step idkey (sv_world (sy_server s)) e)\<rparr>\<rparr>)"
| base_dn_change: "ldap_step idkey order pr cfg s
    (s\<lparr>sy_server := (sy_server s)\<lparr>sv_settings := snd (SetBaseDN (sv_settings (sy_server s)) dn)\<rparr>\<rparr>)"

inductive_cases ldap_stepE [consumes 1, case_names accept message close store_change base_dn_change]:
  "ldap_step idkey order pr cfg s s'"

abbreviation ldap_reachable :: "idkey \<Rightarrow> map_order \<Rightarrow> print_table \<Rightarrow> config \<Rightarrow> server \<Rightarrow> ldap_system \<Rightarrow> bool" where
  "ldap_reachable idkey order pr cfg sv s \<equiv> (ldap_step idkey order pr cfg)\<^sup>*\<^sup>* (initial_system sv) s"

section \<open>What every message keeps\<close>

lemma debug_frame [simp]:
  "sv_world (debug_print sv l) = sv_world sv" "sv_settings (debug_print sv l) = sv_settings sv"
  "sv_audit (debug_print sv l) = sv_audit sv" "sv_bindLimiter (debug_print sv l) = sv_bindLimiter sv"
  by (simp_all add: debug_print_def)

lemma logRequest_frame [simp]:
  "sv_world (logRequest pr sv st msg) = sv_world sv" "sv_settings (logRequest pr sv st msg) = sv_settings sv"
  "sv_audit (logRequest pr sv st msg) = sv_audit sv" "sv_bindLimiter (logRequest pr sv st msg) = sv_bindLimiter sv"
  by (simp_all add: logRequest_def)

lemma logResponse_frame [simp]:
  "sv_world (logResponse pr sv st msg r) = sv_world sv" "sv_settings (logResponse pr sv st msg r) = sv_settings sv"
  "sv_audit (logResponse pr sv st msg r) = sv_audit sv" "sv_bindLimiter (logResponse pr sv st msg r) = sv_bindLimiter sv"
  by (simp_all add: logResponse_def split: sum.splits)

lemma set_turn_frame [simp]:
  "sv_settings (set_turn t sv) = sv_settings sv" "sv_audit (set_turn t sv) = sv_audit sv"
  "sv_bindLimiter (set_turn t sv) = sv_bindLimiter sv" "w_db (sv_world (set_turn t sv)) = w_db (sv_world sv)"
  "sv_now (set_turn t sv) = t_now t"
  by (simp_all add: set_turn_def sv_now_def)

text \<open>The audit log only grows, and is not switched on or off.\<close>

definition audit_grows :: "server \<Rightarrow> server \<Rightarrow> bool" where
  "audit_grows sv sv' \<longleftrightarrow> (sv_audit sv = None \<longleftrightarrow> sv_audit sv' = None) \<and>
     set (records_of (sv_audit sv)) \<subseteq> set (records_of (sv_audit sv'))"

lemma audit_grows_bind: "sv_audit sv1 = sv_audit sv \<Longrightarrow> audit_grows sv (audit_bind sv1 st u r)"
  by (cases "sv_audit sv") (auto simp: audit_grows_def audit_bind_def LDAPBind_record append_record_def records_of_def)

lemma audit_grows_same: "sv_audit sv' = sv_audit sv \<Longrightarrow> audit_grows sv sv'"
  by (simp add: audit_grows_def)

lemma audit_bind_adds:
  "sv_audit (audit_bind sv st u r) \<noteq> None \<Longrightarrow>
     login_record ''ldap_bind'' (sv_now sv) (cs_sourceIP st) u r \<in> set (records_of (sv_audit (audit_bind sv st u r)))"
  by (auto simp: audit_bind_def LDAPBind_record append_record_def records_of_def)

lemma handleBind_audit_grows:
  "handleBind idkey sv st msg = (rep, st', sv') \<Longrightarrow> audit_grows sv sv'"
  by (auto simp: handleBind_def Let_def audit_grows_bind audit_grows_same
      split: if_splits prod.splits sum.splits option.splits)

section \<open>Connections\<close>

text \<open>What holds of a connection at all times.\<close>

definition conn_inv :: "server \<Rightarrow> connState \<Rightarrow> bool" where
  "conn_inv sv st \<longleftrightarrow>
     (cs_bound st \<longleftrightarrow> cs_hadSuccessfulBind st) \<and>
     (cs_anonymous st \<longrightarrow> cs_bound st) \<and>
     (\<not> cs_bound st \<or> cs_anonymous st \<longrightarrow> cs_user st = zero_user) \<and>
     (cs_bound st \<and> \<not> cs_anonymous st \<longrightarrow>
        u_Username (cs_user st) \<noteq> [] \<and> to_lower (u_Username (cs_user st)) = u_Username (cs_user st) \<and>
        \<not> u_Disabled (cs_user st) \<and>
        (sv_audit sv \<noteq> None \<longrightarrow> (\<exists>t. login_record ''ldap_bind'' t (cs_sourceIP st) (u_Username (cs_user st)) ''success''
            \<in> set (records_of (sv_audit sv)))))"

lemma conn_inv_new [simp]: "conn_inv sv (new_conn addr)"
  by (simp add: conn_inv_def new_conn_def)

lemma conn_inv_grows: "conn_inv sv st \<Longrightarrow> audit_grows sv sv' \<Longrightarrow> conn_inv sv' st"
  by (auto simp: conn_inv_def audit_grows_def)

lemma conn_inv_limiter: "conn_inv sv (st\<lparr>cs_searchLimiter := l\<rparr>) = conn_inv sv st"
  by (simp add: conn_inv_def)

lemma handleBind_conn_inv:
  assumes "handleBind idkey sv st msg = (rep, st', sv')" "conn_inv sv st"
  shows "conn_inv sv' st'"
  using assms(1)
proof (cases rule: handleBind_cases)
  case refused
  then show ?thesis using conn_inv_grows [OF assms(2) handleBind_audit_grows [OF assms(1)]] by simp
next
  case anonymous
  then show ?thesis using assms(2) by (simp add: conn_inv_def bound_anonymously_def)
next
  case (user dn password username usr w)
  let ?sv = "sv\<lparr>sv_bindLimiter := snd (window_allow (sv_bindLimiter sv) (sv_now sv) (cs_sourceIP st)), sv_world := w\<rparr>"
  obtain r where "ur_username r = username" "usr = load_user (w_db (sv_world sv)) r"
    using AuthenticateUser_Inr [OF user(4)] by blast
  then have n: "u_Username usr = username" by (simp add: load_user_def scanned_user_def)
  have "sv_audit sv' \<noteq> None \<Longrightarrow>
      login_record ''ldap_bind'' (sv_now ?sv) (cs_sourceIP st) username ''success'' \<in> set (records_of (sv_audit sv'))"
    unfolding user(7) by (rule audit_bind_adds)
  then show ?thesis
    using usernameFromDN_lower [OF user(3)] user(5) n
    unfolding conn_inv_def user(6) bound_as_def by auto
qed

lemma handleMessage_cases:
  assumes "handleMessage idkey order cfg sv st msg = (rep, st', sv')"
  obtains (bind) "handleBind idkey sv st msg = (rep, st', sv')" "pclass (m_op msg) = classApplication" "ptag (m_op msg) = 0"
  | (search) response where "handleSearch order cfg sv st msg = (response, st', sv')" "rep = Some (response, False)"
      "pclass (m_op msg) = classApplication" "ptag (m_op msg) = 3"
  | (unbind) "rep = Some ([], True)" "st' = st" "sv' = sv" "pclass (m_op msg) = classApplication" "ptag (m_op msg) = 2"
  | (readonly) "rep = Some (result_message (m_id msg) (ptag (m_op msg) + 1) resultUnwillingToPerform ''directory is read-only'', False)"
      "st' = st" "sv' = sv" "pclass (m_op msg) = classApplication" "ptag (m_op msg) \<in> {6, 8, 10, 12}"
  | (other) "rep = Some (result_message (m_id msg) 1 resultProtocolError ''unsupported LDAP operation'', False)"
      "st' = st" "sv' = sv" "pclass (m_op msg) = classApplication \<longrightarrow> ptag (m_op msg) \<notin> {0, 2, 3, 6, 8, 10, 12}"
  using assms by (auto simp: handleMessage_def Let_def split: if_splits prod.splits)

lemma handleMessage_keeps:
  assumes "handleMessage idkey order cfg sv st msg = (rep, st', sv')"
  shows "audit_grows sv sv' \<and> (conn_inv sv st \<longrightarrow> conn_inv sv' st') \<and> sv_settings sv' = sv_settings sv \<and>
    w_db (sv_world sv') = w_db (sv_world sv)"
  using assms
proof (cases rule: handleMessage_cases)
  case bind
  then show ?thesis
    using handleBind_audit_grows [OF bind(1)] handleBind_conn_inv [OF bind(1)] handleBind_frame [OF bind(1)] by simp
next
  case (search response)
  note f = handleSearch_frame [OF search(1)]
  have "conn_inv sv st \<Longrightarrow> conn_inv sv' st'"
    using f(2) conn_inv_grows [OF _ audit_grows_same [OF f(2)]] by (subst f(6)) (simp add: conn_inv_limiter)
  then show ?thesis using f audit_grows_same by simp
qed (auto simp: audit_grows_def)

section \<open>The invariant of the system\<close>

definition system_inv :: "config \<Rightarrow> ldap_system \<Rightarrow> bool" where
  "system_inv cfg s \<longleftrightarrow> db_inv (w_db (sv_world (sy_server s))) \<and> settings_inv (sv_settings (sy_server s)) \<and>
     distinct (map fst (sy_conns s)) \<and> (\<forall>i\<in>fst ` set (sy_conns s). i < sy_next s) \<and>
     int (length (sy_conns s)) \<le> LDAPMaxConnections cfg \<and>
     (\<forall>st\<in>snd ` set (sy_conns s). conn_inv (sy_server s) st)"

lemma set_adelete_le: "set (adelete k m) \<subseteq> set m"
  by (auto simp: adelete_def)

lemma set_update_le: "set (AList.update k v m) \<subseteq> insert (k, v) (set m)"
  by (induction m) auto

lemma system_inv_end:
  assumes "system_inv cfg s"
  shows "system_inv cfg (end_connection i s)"
proof -
  have "length (adelete i (sy_conns s)) \<le> length (sy_conns s)" by (rule length_adelete_le)
  then show ?thesis
    using assms set_adelete_le [of i "sy_conns s"] by (auto simp: system_inv_def end_connection_def)
qed

lemma system_inv_accept: "system_inv cfg s \<Longrightarrow> system_inv cfg (Serve_accept cfg addr s)"
  by (auto simp: system_inv_def Serve_accept_def token_free_def less_Suc_eq)

lemma system_inv_server:
  assumes "system_inv cfg s" "map_of (sy_conns s) i = Some st" "audit_grows (sy_server s) sv'"
    and "conn_inv sv' st'" "db_inv (w_db (sv_world sv'))" "settings_inv (sv_settings sv')"
  shows "system_inv cfg (s\<lparr>sy_server := sv', sy_conns := AList.update i st' (sy_conns s)\<rparr>)"
proof -
  have i: "i \<in> fst ` set (sy_conns s)" using assms(2) by (force dest: map_of_SomeD)
  have "\<forall>x\<in>snd ` set (AList.update i st' (sy_conns s)). conn_inv sv' x"
    using assms(1,4) conn_inv_grows [OF _ assms(3)] set_update_le [of i st' "sy_conns s"]
    by (fastforce simp: system_inv_def)
  then show ?thesis
    using assms(1,5,6) i length_update_present [OF i] by (auto simp: system_inv_def distinct_update dom_update)
qed

lemma conn_inv_cong: "sv_audit sv = sv_audit sv' \<Longrightarrow> conn_inv sv st = conn_inv sv' st"
  by (simp add: conn_inv_def)

lemma system_inv_message:
  assumes "system_inv cfg s" "map_of (sy_conns s) i = Some st"
    and "serve_message idkey order pr cfg t i st msg s = Some s'"
  shows "system_inv cfg s'"
proof -
  let ?sv = "logRequest pr (set_turn t (sy_server s)) st msg"
  obtain response closeConn st' sv' where h: "handleMessage idkey order cfg ?sv st msg = (Some (response, closeConn), st', sv')"
    using assms(3) by (auto simp: serve_message_def split: prod.splits option.splits)
  note k = handleMessage_keeps [OF h]
  let ?sv' = "logResponse pr sv' st' msg response"
  let ?s' = "s\<lparr>sy_server := ?sv', sy_conns := AList.update i st' (sy_conns s)\<rparr>"
  have st: "conn_inv (sy_server s) st"
    using assms(1,2) by (force simp: system_inv_def dest: map_of_SomeD)
  have "conn_inv ?sv st" using st conn_inv_cong [of ?sv "sy_server s"] by simp
  then have "conn_inv ?sv' st'" using k conn_inv_cong [of ?sv' sv'] by simp
  moreover have "audit_grows (sy_server s) ?sv'" using k by (simp add: audit_grows_def)
  moreover have "db_inv (w_db (sv_world ?sv'))" "settings_inv (sv_settings ?sv')"
    using k assms(1) by (simp_all add: system_inv_def)
  ultimately have "system_inv cfg ?s'"
    using system_inv_server [OF assms(1,2)] by blast
  then show ?thesis
    using assms(3) h system_inv_end by (auto simp: serve_message_def Let_def split: if_splits)
qed

lemma system_inv_step:
  assumes "ldap_step idkey order pr cfg s s'" "system_inv cfg s"
  shows "system_inv cfg s'"
  using assms(1)
proof (cases rule: ldap_stepE)
  case (store_change e)
  have "db_inv (w_db (snd (store_step idkey (sv_world (sy_server s)) e)))"
    by (rule store_machine.step_inv) (use assms(2) in \<open>simp add: system_inv_def\<close>)
  then show ?thesis
    using store_change assms(2) by (auto simp: system_inv_def conn_inv_def)
next
  case (base_dn_change dn)
  have "settings_inv (snd (SetBaseDN (sv_settings (sy_server s)) dn))"
    by (rule settings.step_inv) (use assms(2) in \<open>simp add: system_inv_def\<close>)
  then show ?thesis
    using base_dn_change assms(2) by (auto simp: system_inv_def conn_inv_def)
qed (use assms(2) system_inv_accept system_inv_end system_inv_message in blast)+

lemma system_inv_reachable:
  assumes "ldap_reachable idkey order pr cfg sv s" "db_inv (w_db (sv_world sv))" "settings_inv (sv_settings sv)"
    and "0 \<le> LDAPMaxConnections cfg"
  shows "system_inv cfg s"
  using assms(1)
proof (induction rule: rtranclp_induct)
  case base
  then show ?case using assms(2-4) by (simp add: system_inv_def initial_system_def)
qed (use system_inv_step in blast)

section \<open>A connection on its own is one run of the system\<close>

text \<open>How a connection stands in the system after a run of \<open>handleConn\<close> that ended like this.\<close>

definition after_conn :: "conn_end \<Rightarrow> nat \<Rightarrow> connState \<Rightarrow> ldap_system \<Rightarrow> ldap_system" where
  "after_conn e i st s =
     (if e = Waiting then s\<lparr>sy_conns := AList.update i st (sy_conns s)\<rparr> else end_connection i s)"

lemma adelete_update: "adelete i (AList.update i st m) = adelete i m"
  unfolding adelete_def by (induction m) auto

lemma update_idem_map: "map_of m i = Some st \<Longrightarrow> distinct (map fst m) \<Longrightarrow> AList.update i st m = m"
  by (induction m) (auto split: if_splits)

lemma update_twice: "AList.update i y (AList.update i x m) = AList.update i y m"
  by (induction m) auto

lemma map_of_update_same: "map_of (AList.update i st m) i = Some st"
  by (simp add: update_conv')

lemma after_conn_update:
  "after_conn e i st' (s\<lparr>sy_server := sv', sy_conns := AList.update i st (sy_conns s)\<rparr>)
     = (after_conn e i st' s)\<lparr>sy_server := sv'\<rparr>"
  by (simp add: after_conn_def end_connection_def adelete_update update_twice)

lemma handleConn_run:
  assumes "handleConn idkey order pr cfg ts sv st r = (e, out, st', sv')" "e \<noteq> Crashed"
    and "sy_server s = sv" "map_of (sy_conns s) i = Some st" "distinct (map fst (sy_conns s))"
  shows "(ldap_step idkey order pr cfg)\<^sup>*\<^sup>* s ((after_conn e i st' s)\<lparr>sy_server := sv'\<rparr>)"
  using assms
proof (induction ts arbitrary: sv st r e out st' sv' s)
  case Nil
  then have "(after_conn e i st' s)\<lparr>sy_server := sv'\<rparr> = s"
    by (cases s) (simp add: after_conn_def update_idem_map)
  then show ?case by simp
next
  case (Cons t ts)
  have stop: "(ldap_step idkey order pr cfg)\<^sup>*\<^sup>* s ((end_connection i s)\<lparr>sy_server := sv\<rparr>)"
  proof -
    have "(end_connection i s)\<lparr>sy_server := sv\<rparr> = end_connection i s"
      using Cons.prems(3) by (cases s) (simp add: end_connection_def)
    then show ?thesis using ldap_step.close [of idkey order pr cfg s i] by auto
  qed
  show ?case
  proof (cases "t_deadline_ok t \<and> is_ok (readMessage r)")
    case False
    then have "e = Returned" "st' = st" "sv' = sv"
      using Cons.prems(1) by (auto split: if_splits sum.splits)
    then show ?thesis using stop by (simp add: after_conn_def)
  next
    case True
    then obtain msg rest where m: "t_deadline_ok t" "readMessage r = Inr (msg, rest)"
      by (cases "readMessage r") auto
    obtain rep st1 sv1 where h: "handleMessage idkey order cfg (logRequest pr (set_turn t sv) st msg) st msg = (rep, st1, sv1)"
      by (cases "handleMessage idkey order cfg (logRequest pr (set_turn t sv) st msg) st msg")
    obtain response closeConn where rep: "rep = Some (response, closeConn)"
      using Cons.prems(1,2) m h by (cases rep) (auto split: prod.splits)
    let ?sv = "logResponse pr sv1 st1 msg response"
    let ?s = "s\<lparr>sy_server := ?sv, sy_conns := AList.update i st1 (sy_conns s)\<rparr>"
    have served: "serve_message idkey order pr cfg t i st msg s =
        Some (if closeConn \<or> length response > 0 \<and> \<not> t_write_ok t then end_connection i ?s else ?s)"
      using h rep Cons.prems(3) by (simp add: serve_message_def Let_def)
    note step = ldap_step.message [OF Cons.prems(4) m(2) served]
    show ?thesis
    proof (cases "closeConn \<or> length response > 0 \<and> \<not> t_write_ok t")
      case True
      then have "e = Returned" "st' = st1" "sv' = ?sv"
        using Cons.prems(1) m h rep by (auto simp: Let_def split: if_splits)
      then have "(after_conn e i st' s)\<lparr>sy_server := sv'\<rparr> = end_connection i ?s"
        by (simp add: after_conn_def end_connection_def adelete_update)
      then show ?thesis using step True by auto
    next
      case False
      then obtain out' where rec: "handleConn idkey order pr cfg ts ?sv st1 rest = (e, out', st', sv')"
        using Cons.prems(1) m h rep by (auto simp: Let_def split: if_splits prod.splits)
      have "(ldap_step idkey order pr cfg)\<^sup>*\<^sup>* ?s ((after_conn e i st' ?s)\<lparr>sy_server := sv'\<rparr>)"
        by (rule Cons.IH [OF rec Cons.prems(2)])
          (use Cons.prems(5) in \<open>simp_all add: map_of_update_same distinct_update\<close>)
      then have "(ldap_step idkey order pr cfg)\<^sup>*\<^sup>* ?s ((after_conn e i st' s)\<lparr>sy_server := sv'\<rparr>)"
        by (simp add: after_conn_update)
      then show ?thesis
        using step False by (auto intro: converse_rtranclp_into_rtranclp)
    qed
  qed
qed

end
