(* ===== verification/Ldap_Props.thy ===== *)
theory Ldap_Props
  imports Ldap_System
begin

text \<open>
  The properties of the LDAP server: when a bind succeeds, what a search returns and to whom, what every
  response looks like to a client, what holds of all connections in every reachable state, and what
  reaches the debug log.
\<close>

section \<open>A small server for the witnesses\<close>

definition demo_db :: db where
  "demo_db = \<lparr>t_users = [\<lparr>ur_id = 1, ur_username = ''ann'', ur_password_hash = format_phc [] [],
       ur_display_name = ''Ann'', ur_disabled = 0, ur_created_at = 0, ur_updated_at = 0\<rparr>],
     t_groups = [\<lparr>gr_id = 1, gr_name = ''users'', gr_description = []\<rparr>], t_user_groups = [(1, 1)], t_settings = [],
     users_seq = 1, groups_seq = 1, schema = [], foreign_keys = True\<rparr>"

definition demo_world :: world where
  "demo_world = \<lparr>w_db = demo_db, faults = [], entropy = [], w_now = second\<rparr>"

definition demo_server :: server where
  "demo_server = \<lparr>sv_world = demo_world, sv_settings = \<lparr>base_dn = ''dc=a''\<rparr>, sv_audit = Some \<lparr>au_records = []\<rparr>,
     sv_debugLog = Some [], sv_bindLimiter = new_limiter second 3\<rparr>"

definition text_packet :: "string \<Rightarrow> packet" where
  "text_packet s = Packet 0 4 False (bytes_of_string s) []"

definition demo_bind :: ldapMessage where
  "demo_bind = \<lparr>m_id = 1, m_op = Packet 1 0 True [] [Packet 0 2 False [3] [], text_packet ''uid=ann,dc=a'',
     Packet 2 0 False [] []], m_raw = Packet 0 16 True [] []\<rparr>"

definition demo_search :: ldapMessage where
  "demo_search = \<lparr>m_id = 2, m_op = Packet 1 3 True [] [text_packet [], Packet 0 10 False [2] [], Packet 0 10 False [0] [],
     Packet 0 2 False [0] [], Packet 0 2 False [0] [], Packet 0 1 False [0] [], Packet 2 7 False (bytes_of_string ''cn'') [],
     Packet 0 16 True [] []], m_raw = Packet 0 16 True [] []\<rparr>"

definition demo_conn :: connState where
  "demo_conn = new_conn ''10.0.0.1:4711''"

lemma demo_db_inv: "db_inv demo_db"
proof -
  have "trimmed ''ann''" "trimmed ''Ann''" "trimmed ''users''" by code_simp+
  moreover have "stored_hash (format_phc [] [])" by (auto simp: stored_hash_def)
  ultimately show ?thesis
    by (simp add: demo_db_def db_inv_def users_ok_def groups_ok_def memberships_ok_def settings_ok_def user_row_ok_def)
qed

lemma demo_settings_inv: "settings_inv \<lparr>base_dn = ''dc=a''\<rparr>"
proof -
  have "dc_value ''a''" by code_simp
  then have "normalized_base_dn ''dc=a''"
    by (auto simp: normalized_base_dn_def intro!: exI [of _ "[''a'']"])
  then show ?thesis by (simp add: settings_inv_def BaseDN_def)
qed

section \<open>Bind\<close>

text \<open>The row a simple bind with this DN and password authenticates.\<close>

definition bind_row :: "idkey \<Rightarrow> server \<Rightarrow> string \<Rightarrow> string \<Rightarrow> user_row \<Rightarrow> bool" where
  "bind_row idkey sv dn password r \<longleftrightarrow> r \<in> set (t_users (w_db (sv_world sv))) \<and>
     usernameFromDN (BaseDN (sv_settings sv)) dn = Some (ur_username r) \<and>
     VerifyPassword idkey (ur_password_hash r) password = Inr True \<and> ur_disabled r \<noteq> 1"

lemma load_user_disabled: "u_Disabled (load_user d r) \<longleftrightarrow> ur_disabled r = 1"
  by (simp add: load_user_def scanned_user_def)

text \<open>What is left of \<open>handleBind\<close> once the request is known to be a simple bind.\<close>

definition credentials_bind ::
  "idkey \<Rightarrow> server \<Rightarrow> connState \<Rightarrow> ldapMessage \<Rightarrow> string \<Rightarrow> string \<Rightarrow> reply \<times> connState \<times> server" where
  "credentials_bind idkey sv st msg dn password =
    (case usernameFromDN (BaseDN (sv_settings sv)) dn of
       None \<Rightarrow> (Some (result_message (m_id msg) 1 resultInvalidDNSyntax ''invalid bind DN'', False), st,
         audit_bind sv st dn ''invalid_dn'')
     | Some username \<Rightarrow>
       (case AuthenticateUser idkey username password (sv_world sv) of
          (Inl err, w) \<Rightarrow>
            if err = AuthFailure Argon2Panic then (None, st, sv\<lparr>sv_world := w\<rparr>)
            else (Some (result_message (m_id msg) 1 resultInvalidCredentials ''invalid credentials'', False), st,
              audit_bind (sv\<lparr>sv_world := w\<rparr>) st username ''invalid_credentials'')
        | (Inr user, w) \<Rightarrow>
            if u_Disabled user then
              (Some (result_message (m_id msg) 1 resultInvalidCredentials ''user is disabled'', False), st,
               audit_bind (sv\<lparr>sv_world := w\<rparr>) st username ''user_disabled'')
            else
              (Some (result_message (m_id msg) 1 resultSuccess [], False), bound_as user st,
               audit_bind (sv\<lparr>sv_world := w\<rparr>) st username ''success'')))"

lemma handleBind_run:
  assumes "\<not> cs_hadSuccessfulBind st" "fst (window_allow (sv_bindLimiter sv) (sv_now sv) (cs_sourceIP st))"
    and "simple_bind (m_op msg) dn password" "dn \<noteq> [] \<or> password \<noteq> []"
  shows "handleBind idkey sv st msg = credentials_bind idkey
    (sv\<lparr>sv_bindLimiter := snd (window_allow (sv_bindLimiter sv) (sv_now sv) (cs_sourceIP st))\<rparr>) st msg dn password"
proof -
  obtain limiter where l: "window_allow (sv_bindLimiter sv) (sv_now sv) (cs_sourceIP st) = (True, limiter)"
    using assms(2) by (cases "window_allow (sv_bindLimiter sv) (sv_now sv) (cs_sourceIP st)") auto
  show ?thesis
    using assms(1,3,4)
    by (auto simp: l handleBind_def Let_def simple_bind_def expectChildren_def bound_as_def credentials_bind_def
        split: option.splits sum.splits prod.splits)
qed

lemma credentials_bind_state:
  assumes "credentials_bind idkey sv st msg dn password = (rep, st', sv')" "st' \<noteq> st"
  shows "\<exists>r. bind_row idkey sv dn password r"
proof -
  obtain username u w where "usernameFromDN (BaseDN (sv_settings sv)) dn = Some username" "\<not> u_Disabled u"
    and "AuthenticateUser idkey username password (sv_world sv) = (Inr u, w)"
    using assms by (auto simp: credentials_bind_def split: option.splits sum.splits prod.splits if_splits)
  then show ?thesis
    using AuthenticateUser_Inr [of idkey username password "sv_world sv" u w]
    by (auto simp: bind_row_def load_user_disabled)
qed

lemma credentials_bind_ok:
  assumes "db_inv (w_db (sv_world sv))" "faults (sv_world sv) = []" "bind_row idkey sv dn password r"
    and "credentials_bind idkey sv st msg dn password = (rep, st', sv')"
  shows "st' = bound_as (load_user (w_db (sv_world sv)) r) st \<and>
    rep = Some (result_message (m_id msg) 1 resultSuccess [], False)"
proof -
  have "AuthenticateUser idkey (ur_username r) password (sv_world sv)
      = (Inr (load_user (w_db (sv_world sv)) r), sv_world sv)"
    using AuthenticateUser_ok [OF assms(1,2)] assms(3) by (simp add: bind_row_def)
  then show ?thesis using assms(3,4) by (simp add: credentials_bind_def bind_row_def load_user_disabled)
qed

text \<open>C4: when no statement fails, the first simple bind of a connection that the rate limiter lets through
  succeeds exactly when its DN leads to a stored user who is not disabled and whose hash the password
  verifies against; the connection is then bound as that user as stored, with its groups, and otherwise
  nothing about the connection changes. The tables are not touched.\<close>

theorem bind_succeeds_iff:
  assumes "db_inv (w_db (sv_world sv))" "faults (sv_world sv) = []" "\<not> cs_hadSuccessfulBind st"
    and "fst (window_allow (sv_bindLimiter sv) (sv_now sv) (cs_sourceIP st))"
    and "simple_bind (m_op msg) dn password" "dn \<noteq> [] \<or> password \<noteq> []"
    and "handleBind idkey sv st msg = (rep, st', sv')"
  shows "(if \<exists>r. bind_row idkey sv dn password r
     then \<exists>r. bind_row idkey sv dn password r \<and> st' = bound_as (load_user (w_db (sv_world sv)) r) st \<and>
       rep = Some (result_message (m_id msg) 1 resultSuccess [], False)
     else st' = st) \<and> w_db (sv_world sv') = w_db (sv_world sv)"
proof -
  let ?sv = "sv\<lparr>sv_bindLimiter := snd (window_allow (sv_bindLimiter sv) (sv_now sv) (cs_sourceIP st))\<rparr>"
  have run: "credentials_bind idkey ?sv st msg dn password = (rep, st', sv')"
    using handleBind_run [OF assms(3-6)] assms(7) by simp
  have row: "bind_row idkey ?sv = bind_row idkey sv" by (simp add: bind_row_def fun_eq_iff)
  have "st' = st" if "\<not> (\<exists>r. bind_row idkey sv dn password r)"
    using credentials_bind_state [OF run] that by (auto simp: row)
  moreover have "st' = bound_as (load_user (w_db (sv_world sv)) r) st \<and>
      rep = Some (result_message (m_id msg) 1 resultSuccess [], False)" if "bind_row idkey sv dn password r" for r
    using credentials_bind_ok [OF _ _ _ run, of r] assms(1,2) that by (simp add: row)
  ultimately show ?thesis using handleBind_frame(3) [OF assms(7)] by auto
qed

theorem bind_succeeds_iff_witness:
  "case handleBind (\<lambda>p s t m k l. Some p) demo_server demo_conn demo_bind of (rep, st', sv') \<Rightarrow>
    (if \<exists>r. bind_row (\<lambda>p s t m k l. Some p) demo_server ''uid=ann,dc=a'' [] r
     then \<exists>r. bind_row (\<lambda>p s t m k l. Some p) demo_server ''uid=ann,dc=a'' [] r \<and>
       st' = bound_as (load_user (w_db (sv_world demo_server)) r) demo_conn \<and>
       rep = Some (result_message (m_id demo_bind) 1 resultSuccess [], False)
     else st' = demo_conn) \<and> w_db (sv_world sv') = w_db (sv_world demo_server)"
proof (cases "handleBind (\<lambda>p s t m k l. Some p) demo_server demo_conn demo_bind", simp only: prod.case, rule bind_succeeds_iff)
  show "db_inv (w_db (sv_world demo_server))" by (simp add: demo_server_def demo_world_def demo_db_inv)
  show "fst (window_allow (sv_bindLimiter demo_server) (sv_now demo_server) (cs_sourceIP demo_conn))"
    by (simp add: window_allow_def demo_server_def sv_now_def demo_world_def new_limiter_def Let_def sweepLocked_def
        bucket_def recent_def)
  show "simple_bind (m_op demo_bind) ''uid=ann,dc=a'' []" by code_simp
qed (simp_all add: demo_server_def demo_world_def demo_conn_def new_conn_def)

section \<open>Search\<close>

lemma result_codes:
  "resultAdminLimitExceeded \<noteq> resultSuccess" "resultProtocolError \<noteq> resultSuccess"
  "resultInsufficientAccessRights \<noteq> resultSuccess" "resultBusy \<noteq> resultSuccess"
  by (simp_all add: result_defs)

text \<open>A single result other than success.\<close>

definition is_refusal :: "int \<Rightarrow> nat \<Rightarrow> bytes \<Rightarrow> bool" where
  "is_refusal i tag response \<longleftrightarrow>
     (\<exists>code diagnostic. code \<noteq> resultSuccess \<and> response = result_message i tag code diagnostic)"

lemma is_refusal_result: "code \<noteq> resultSuccess \<Longrightarrow> is_refusal i tag (result_message i tag code diagnostic)"
  by (auto simp: is_refusal_def)

text \<open>C20: before a bind and after an anonymous one, a search gives at most the Root DSE: the answer is its
  entry followed by success, or a single result that is not success; the database is not consulted.\<close>

theorem anonymous_search_root_dse:
  assumes "\<not> cs_bound st \<or> cs_anonymous st" "handleSearch order cfg sv st msg = (response, st', sv')"
  shows "sv' = sv \<and>
    ((\<exists>attrs. response = search_reply order (m_id msg) [rootDSE (BaseDN (sv_settings sv))] attrs resultSuccess []) \<or>
     is_refusal (m_id msg) 5 response)"
  using assms(2,1) unfolding handleSearch_def Let_def search_reply_folds(2)
  by (auto simp: is_refusal_result result_codes split: if_splits prod.splits sum.splits)

theorem anonymous_search_root_dse_witness:
  "\<forall>order cfg. case handleSearch order cfg demo_server demo_conn demo_search of (response, st', sv') \<Rightarrow>
    sv' = demo_server \<and>
    ((\<exists>attrs. response = search_reply order (m_id demo_search) [rootDSE (BaseDN (sv_settings demo_server))] attrs resultSuccess []) \<or>
     is_refusal (m_id demo_search) 5 response)"
proof (intro allI)
  fix order cfg
  obtain response st' sv' where h: "handleSearch order cfg demo_server demo_conn demo_search = (response, st', sv')"
    by (cases "handleSearch order cfg demo_server demo_conn demo_search")
  show "case handleSearch order cfg demo_server demo_conn demo_search of (response, st', sv') \<Rightarrow>
    sv' = demo_server \<and>
    ((\<exists>attrs. response = search_reply order (m_id demo_search) [rootDSE (BaseDN (sv_settings demo_server))] attrs resultSuccess []) \<or>
     is_refusal (m_id demo_search) 5 response)"
    unfolding h prod.case
    by (rule anonymous_search_root_dse [OF _ h]) (simp add: demo_conn_def new_conn_def)
qed

text \<open>Queries on a world without faults.\<close>

definition succeeds :: "'a io \<Rightarrow> bool" where
  "succeeds m \<longleftrightarrow> (\<forall>w. faults w = [] \<longrightarrow> (\<exists>x. m w = (Inr x, w)))"

lemma succeeds_return: "succeeds (io_return x)"
  by (simp add: succeeds_def io_return_def)

lemma succeeds_query: "succeeds (query (\<lambda>d. Inr (f d)))"
  by (simp add: succeeds_def query_none)

lemma succeeds_bind:
  assumes "succeeds m" "\<And>x. succeeds (k x)"
  shows "succeeds (io_bind m k)"
  unfolding succeeds_def
proof (intro allI impI)
  fix w :: world assume w: "faults w = []"
  obtain x where "m w = (Inr x, w)" using assms(1) w by (auto simp: succeeds_def)
  then show "\<exists>y. io_bind m k w = (Inr y, w)" using assms(2) w by (simp add: io_bind_def succeeds_def)
qed

lemma succeeds_lists: "succeeds ListUsers" "succeeds ListGroups"
proof -
  have "succeeds (userGroups i)" "succeeds (groupMembers i)" for i
    unfolding userGroups_def sql_user_groups_def groupMembers_def sql_group_members_def
    by (rule succeeds_bind [OF succeeds_query succeeds_return], rule succeeds_query)
  then have "succeeds (add_user_groups us)" "succeeds (add_group_members gs)" for us gs
    by (induction us, auto intro!: succeeds_return succeeds_bind) (induction gs, auto intro!: succeeds_return succeeds_bind)
  note k = this
  show "succeeds ListUsers" "succeeds ListGroups"
    unfolding ListUsers_def ListGroups_def sql_users_def sql_groups_def
    by (rule succeeds_bind [OF succeeds_query k(1)], rule succeeds_bind [OF succeeds_query k(2)])
qed

lemma succeeds_visibleEntries: "succeeds (visibleEntries u b)"
  unfolding visibleEntries_def Let_def
  by (rule succeeds_bind [OF succeeds_lists(1)], rule succeeds_bind [OF succeeds_lists(2)], rule succeeds_return)

text \<open>The entries a bound user may see, from the tables.\<close>

definition entries_for :: "user \<Rightarrow> string \<Rightarrow> db \<Rightarrow> directory_entry list" where
  "entries_for u b d = fixed_entries b
    @ map (\<lambda>r. userEntry (load_user d r) b)
        (filter (\<lambda>r. sees_all u \<or> ur_username r = u_Username u) (sort_key ur_username (t_users d)))
    @ map (\<lambda>r. groupEntry (load_group d r) b)
        (filter (\<lambda>r. sees_all u \<or> gr_name r \<in> g_Name ` set (u_Groups u)) (sort_key gr_name (t_groups d)))"

lemma visibleEntries_run:
  assumes "faults w = []"
  shows "visibleEntries u b w = (Inr (entries_for u b (w_db w)), w)"
proof -
  obtain es where "visibleEntries u b w = (Inr es, w)"
    using succeeds_visibleEntries [of u b] assms unfolding succeeds_def by blast
  then show ?thesis using visibleEntries_Inr by (simp add: entries_for_def)
qed

text \<open>C5: a search by a bound user that is within its rate and well-formed answers with exactly the matching
  entries the user may see, each once and in order, then success: the fixed entries, and for a member of
  \<open>admins\<close> or \<open>mvradmins\<close> all users and groups, for anyone else only the own entry and the groups the user
  belonged to when it was bound.\<close>

theorem authenticated_search_result:
  assumes "cs_bound st" "\<not> cs_anonymous st" "faults (sv_world sv) = []"
    and "fst (rate_allow (cs_searchLimiter st) (sv_now sv) (LDAPSearchRate cfg))"
    and "parseSearchRequest (m_op msg) = Inr request"
  shows "fst (handleSearch order cfg sv st msg) = search_reply order (m_id msg)
    (filter (search_matches request) (entries_for (cs_user st) (BaseDN (sv_settings sv)) (w_db (sv_world sv))))
    (r_attributes request) resultSuccess []"
proof -
  obtain l where l: "rate_allow (cs_searchLimiter st) (sv_now sv) (LDAPSearchRate cfg) = (True, l)"
    using assms(4) by (cases "rate_allow (cs_searchLimiter st) (sv_now sv) (LDAPSearchRate cfg)") auto
  show ?thesis
    using assms(1,2,5) visibleEntries_run [OF assms(3)]
    by (simp add: handleSearch_def Let_def l search_reply_def)
qed

definition demo_bound :: connState where
  "demo_bound = bound_as (load_user demo_db (hd (t_users demo_db))) demo_conn"

definition demo_request :: searchRequest where
  "demo_request = \<lparr>r_baseDN = [], r_scope = 2, r_filter = PresentFilter ''cn'', r_attributes = []\<rparr>"

theorem authenticated_search_result_witness:
  "\<forall>order. fst (handleSearch order (env_config (\<lambda>_. [])) demo_server demo_bound demo_search) =
    search_reply order (m_id demo_search)
      (filter (search_matches demo_request)
        (entries_for (cs_user demo_bound) (BaseDN (sv_settings demo_server)) (w_db (sv_world demo_server))))
      (r_attributes demo_request) resultSuccess []"
proof (rule allI, rule authenticated_search_result)
  show "parseSearchRequest (m_op demo_search) = Inr demo_request" by code_simp
  show "fst (rate_allow (cs_searchLimiter demo_bound) (sv_now demo_server) (LDAPSearchRate (env_config (\<lambda>_. []))))"
    by (simp add: rate_allow_def demo_bound_def demo_conn_def new_conn_def bound_as_def sv_now_def demo_server_def
        demo_world_def env_config_def Let_def)
qed (simp_all add: demo_bound_def bound_as_def demo_server_def demo_world_def)

text \<open>C21: what a search answers does not depend on password hashes, disabled flags, time stamps or group
  descriptions: two servers that differ only in these give the same bytes to every request.\<close>

theorem search_hides_secrets:
  assumes "same_view (w_db (sv_world sv1)) (w_db (sv_world sv2))" "faults (sv_world sv1) = faults (sv_world sv2)"
    and "sv_settings sv1 = sv_settings sv2" "sv_now sv1 = sv_now sv2"
  shows "fst (handleSearch order cfg sv1 st msg) = fst (handleSearch order cfg sv2 st msg)"
  using assms by (intro handleSearch_view) (simp_all add: view_rel_def)

theorem search_hides_secrets_witness:
  "\<forall>order cfg st msg. fst (handleSearch order cfg demo_server st msg) =
    fst (handleSearch order cfg (demo_server\<lparr>sv_world := demo_world\<lparr>w_db := demo_db\<lparr>t_users :=
       [(hd (t_users demo_db))\<lparr>ur_password_hash := ''x'', ur_disabled := 1\<rparr>]\<rparr>\<rparr>\<rparr>) st msg)"
  by (intro allI, rule search_hides_secrets)
    (simp_all add: demo_server_def demo_world_def demo_db_def same_view_def shown_user_row_def sv_now_def)

section \<open>Responses\<close>

text \<open>The tag of the protocol operation that answers a request.\<close>

definition answer_tag :: "packet \<Rightarrow> nat" where
  "answer_tag op =
     (if pclass op = classApplication \<and> ptag op = 3 then 5
      else if pclass op = classApplication \<and> ptag op \<in> {6, 8, 10, 12} then ptag op + 1 else 1)"

definition is_unbind :: "packet \<Rightarrow> bool" where
  "is_unbind op \<longleftrightarrow> pclass op = classApplication \<and> ptag op = 2"

lemma handleMessage_answer:
  assumes "handleMessage idkey order cfg sv st msg = (Some (response, closeConn), st', sv')"
  shows "is_unbind (m_op msg) \<and> response = [] \<and> closeConn \<or>
    \<not> is_unbind (m_op msg) \<and> ((\<exists>code d. response = result_message (m_id msg) (answer_tag (m_op msg)) code d) \<or>
      answer_tag (m_op msg) = 5 \<and> (\<exists>entries attrs code d. response = search_reply order (m_id msg) entries attrs code d))"
  using assms
proof (cases rule: handleMessage_cases)
  case bind
  then show ?thesis using handleBind_reply [OF bind(1)] by (auto simp: answer_tag_def is_unbind_def)
next
  case (search response')
  obtain entries attrs code d where "response' = search_reply order (m_id msg) entries attrs code d"
    using handleSearch_reply [OF search(1)] .
  moreover have "answer_tag (m_op msg) = 5" "\<not> is_unbind (m_op msg)"
    using search by (simp_all add: answer_tag_def is_unbind_def)
  ultimately show ?thesis using search(2) by blast
qed (auto simp: answer_tag_def is_unbind_def)

text \<open>The messages a response consists of.\<close>

definition response_pieces :: "int \<Rightarrow> bytes \<Rightarrow> bytes list \<Rightarrow> bool" where
  "response_pieces i response pieces \<longleftrightarrow> response = concat pieces \<and> pieces \<noteq> [] \<and>
     list_all (\<lambda>x. \<exists>op. x = berMessage i op) pieces"

text \<open>What a client reads: \<open>n\<close> messages with the id of the request, the last of which is the result that
  belongs to the request, the others search result entries.\<close>

definition read_as :: "int \<Rightarrow> packet \<Rightarrow> nat \<Rightarrow> bytes \<Rightarrow> bool" where
  "read_as i op n response \<longleftrightarrow> (\<exists>ps p. decodeMessages response = Inr (ps @ [p]) \<and> Suc (length ps) = n \<and>
     message_with_id i p \<and> carries (answer_tag op) p \<and>
     list_all (\<lambda>q. message_with_id i q \<and> carries 4 q) ps \<and> (ps = [] \<or> answer_tag op = 5))"



section \<open>Connections\<close>

lemma readMessage_shorter: "readMessage r = Inr (msg, rest) \<Longrightarrow> length rest + 1 < length r"
  by (auto simp: readMessage_def dest: readPacket_shorter split: sum.splits if_splits)

text \<open>C23: serving a connection ends: whatever a client sends, as many turns as half the bytes it sent and one
  more are enough for \<open>handleConn\<close> to return (or for the process to panic).\<close>

theorem handleConn_ends:
  assumes "length r < 2 * length turns"
  shows "fst (handleConn idkey order pr cfg turns sv st r) \<noteq> Waiting"
  using assms
proof (induction turns arbitrary: sv st r)
  case (Cons t ts)
  show ?case
  proof (cases "readMessage r")
    case (Inr mr)
    obtain msg rest where mr: "mr = (msg, rest)" by (cases mr)
    then have "length rest < 2 * length ts" using readMessage_shorter [of r msg rest] Inr Cons.prems by simp
    then have IH: "fst (handleConn idkey order pr cfg ts sv' st' rest) \<noteq> Waiting" for sv' st' by (rule Cons.IH)
    obtain rep st1 sv1 where h: "handleMessage idkey order cfg (logRequest pr (set_turn t sv) st msg) st msg = (rep, st1, sv1)"
      by (cases "handleMessage idkey order cfg (logRequest pr (set_turn t sv) st msg) st msg")
    show ?thesis
      using IH [of "logResponse pr sv1 st1 msg (fst (the rep))" st1] h Inr mr
      by (cases rep) (auto simp: Let_def split: prod.splits)
  qed simp
qed simp

theorem handleConn_ends_witness:
  "\<forall>order pr. fst (handleConn (\<lambda>p s t m k l. Some p) order pr (env_config (\<lambda>_. []))
     [\<lparr>t_deadline_ok = True, t_write_ok = True, t_now = 0, t_faults = []\<rparr>] demo_server demo_conn [0x30]) \<noteq> Waiting"
  by (intro allI, rule handleConn_ends) simp


definition demo_system :: ldap_system where
  "demo_system = \<lparr>sy_server = demo_server, sy_conns = [(0, demo_conn)], sy_next = 1\<rparr>"


lemma demo_reachable:
  "ldap_reachable idkey order pr (env_config (\<lambda>_. [])) demo_server demo_system"
  using ldap_step.accept [of idkey order pr "env_config (\<lambda>_. [])" "initial_system demo_server" "''10.0.0.1:4711''"]
  by (simp add: Serve_accept_def token_free_def initial_system_def env_config_def demo_system_def demo_conn_def
      r_into_rtranclp)

text \<open>in every reachable state, whatever clients and administrators do and in whatever order: at most
  \<open>LDAPMaxConnections\<close> connections are open; a connection is bound exactly when it has had its one
  successful bind, without a user before that or when anonymous; otherwise its user was not disabled when
  bound, has a non-empty name in lower case, and its bind is in the audit log with the address of the
  client; tables and base DN satisfy their invariants.\<close>

theorem connections_authenticated:
  assumes "ldap_reachable idkey order pr cfg sv s" "db_inv (w_db (sv_world sv))" "settings_inv (sv_settings sv)"
    and "0 \<le> LDAPMaxConnections cfg"
  shows "int (length (sy_conns s)) \<le> LDAPMaxConnections cfg \<and> list_all (\<lambda>(i, st). conn_inv (sy_server s) st) (sy_conns s) \<and>
    db_inv (w_db (sv_world (sy_server s))) \<and> settings_inv (sv_settings (sy_server s))"
  using system_inv_reachable [OF assms] by (force simp: system_inv_def list_all_iff)

theorem connections_authenticated_witness:
  "int (length (sy_conns demo_system)) \<le> LDAPMaxConnections (env_config (\<lambda>_. [])) \<and>
    list_all (\<lambda>(i, st). conn_inv (sy_server demo_system) st) (sy_conns demo_system) \<and>
    db_inv (w_db (sv_world (sy_server demo_system))) \<and> settings_inv (sv_settings (sy_server demo_system))"
  by (rule connections_authenticated [OF demo_reachable [of "\<lambda>p s t m k l. Some p" id "\<lambda>_. True"]])
    (simp_all add: demo_server_def demo_world_def demo_db_inv demo_settings_inv env_config_def)

text \<open>A reachable state with a user bound, for the witnesses.\<close>

definition demo_bind_bytes :: bytes where
  "demo_bind_bytes = [0x30, 0x18, 0x02, 0x01, 0x01, 0x60, 0x13, 0x02, 0x01, 0x03, 0x04, 0x0c, 0x75, 0x69, 0x64, 0x3d,
     0x61, 0x6e, 0x6e, 0x2c, 0x64, 0x63, 0x3d, 0x61, 0x80, 0x00]"

definition demo_bind_read :: ldapMessage where
  "demo_bind_read = fst (projr (readMessage demo_bind_bytes))"

abbreviation demo_idkey :: idkey where
  "demo_idkey \<equiv> (\<lambda>p s t m k l. Some p)"

abbreviation demo_config :: config where
  "demo_config \<equiv> env_config (\<lambda>_. [])"

definition demo_user :: user where
  "demo_user = load_user demo_db (hd (t_users demo_db))"

lemma demo_read: "readMessage demo_bind_bytes = Inr (demo_bind_read, [])"
  "pclass (m_op demo_bind_read) = classApplication" "ptag (m_op demo_bind_read) = 0"
  "simple_bind (m_op demo_bind_read) ''uid=ann,dc=a'' []"
  by code_simp+

lemma demo_row: "w_db (sv_world sv) = demo_db \<Longrightarrow> BaseDN (sv_settings sv) = ''dc=a'' \<Longrightarrow>
    bind_row demo_idkey sv ''uid=ann,dc=a'' [] (hd (t_users demo_db))"
proof -
  assume d: "w_db (sv_world sv) = demo_db" "BaseDN (sv_settings sv) = ''dc=a''"
  have "canonical_username ''ann''" by code_simp
  then have "usernameFromDN ''dc=a'' (userDN ''dc=a'' ''ann'') = Some ''ann''" by (rule usernameFromDN_flat)
  moreover have "VerifyPassword demo_idkey (format_phc [] []) [] = Inr True"
    by (simp add: VerifyPassword_def parsePHC_format bytes_of_string_def)
  ultimately show ?thesis using d by (simp add: bind_row_def demo_db_def userDN_def)
qed

lemma demo_bind_works:
  assumes "sv_world sv = demo_world" "BaseDN (sv_settings sv) = ''dc=a''"
    and "fst (window_allow (sv_bindLimiter sv) (sv_now sv) (cs_sourceIP demo_conn))"
    and "handleBind demo_idkey sv demo_conn demo_bind_read = (rep, st', sv')"
  shows "st' = bound_as demo_user demo_conn \<and>
    rep = Some (result_message (m_id demo_bind_read) 1 resultSuccess [], False)"
proof -
  let ?sv = "sv\<lparr>sv_bindLimiter := snd (window_allow (sv_bindLimiter sv) (sv_now sv) (cs_sourceIP demo_conn))\<rparr>"
  have "\<not> cs_hadSuccessfulBind demo_conn" by (simp add: demo_conn_def new_conn_def)
  from handleBind_run [OF this assms(3) demo_read(4)]
  have run: "credentials_bind demo_idkey ?sv demo_conn demo_bind_read ''uid=ann,dc=a'' [] = (rep, st', sv')"
    using assms(4) by simp
  have row: "bind_row demo_idkey ?sv ''uid=ann,dc=a'' [] (hd (t_users demo_db))"
    by (rule demo_row) (simp_all add: assms(1,2) demo_world_def)
  have "db_inv (w_db (sv_world ?sv))" "faults (sv_world ?sv) = []"
    by (simp_all add: assms(1) demo_world_def demo_db_inv)
  from credentials_bind_ok [OF this row run] show ?thesis
    by (simp add: assms(1) demo_world_def demo_user_def)
qed

lemma demo_bound_reachable:
  "\<exists>sv. ldap_reachable demo_idkey order pr demo_config demo_server
     \<lparr>sy_server = sv, sy_conns = [(0, bound_as demo_user demo_conn)], sy_next = 1\<rparr>"
proof -
  let ?t = "\<lparr>t_deadline_ok = True, t_write_ok = True, t_now = second, t_faults = []\<rparr>"
  let ?sv = "logRequest pr (set_turn ?t demo_server) demo_conn demo_bind_read"
  obtain rep st' sv' where h: "handleBind demo_idkey ?sv demo_conn demo_bind_read = (rep, st', sv')"
    by (cases "handleBind demo_idkey ?sv demo_conn demo_bind_read")
  have w: "sv_world ?sv = demo_world" "BaseDN (sv_settings ?sv) = ''dc=a''"
    by (simp_all add: set_turn_def demo_server_def demo_world_def BaseDN_def)
  have "fst (window_allow (sv_bindLimiter ?sv) (sv_now ?sv) (cs_sourceIP demo_conn))"
    by (simp add: window_allow_def demo_server_def new_limiter_def Let_def sweepLocked_def bucket_def recent_def)
  from demo_bind_works [OF w this h] have b: "st' = bound_as demo_user demo_conn"
    "rep = Some (result_message (m_id demo_bind_read) 1 resultSuccess [], False)" by simp_all
  have "handleMessage demo_idkey order demo_config ?sv demo_conn demo_bind_read = (rep, st', sv')"
    using h demo_read(2,3) by (simp add: handleMessage_def Let_def)
  then have "\<exists>sv. serve_message demo_idkey order pr demo_config ?t 0 demo_conn demo_bind_read demo_system
      = Some \<lparr>sy_server = sv, sy_conns = [(0, bound_as demo_user demo_conn)], sy_next = 1\<rparr>"
    using b by (simp add: serve_message_def demo_system_def Let_def)
  then obtain sv where s: "serve_message demo_idkey order pr demo_config ?t 0 demo_conn demo_bind_read demo_system
      = Some \<lparr>sy_server = sv, sy_conns = [(0, bound_as demo_user demo_conn)], sy_next = 1\<rparr>" ..
  have "map_of (sy_conns demo_system) 0 = Some demo_conn" by (simp add: demo_system_def)
  from ldap_step.message [OF this demo_read(1) s] show ?thesis
    using demo_reachable by (meson rtranclp.rtrancl_into_rtrancl)
qed

lemma demo_invariants: "db_inv (w_db (sv_world demo_server))" "settings_inv (sv_settings demo_server)"
  "0 \<le> LDAPMaxConnections demo_config"
  by (simp_all add: demo_server_def demo_world_def demo_db_inv demo_settings_inv env_config_def)

text \<open>C25: a user whose stored name has an upper-case letter can never use LDAP: in no reachable state is a
  connection bound as that user, although the web interface creates and admits such users.\<close>

theorem upper_case_user_never_bound:
  assumes "ldap_reachable idkey order pr cfg sv s" "db_inv (w_db (sv_world sv))" "settings_inv (sv_settings sv)"
    and "0 \<le> LDAPMaxConnections cfg" "to_lower name \<noteq> name"
    and "(i, st) \<in> set (sy_conns s)" "cs_bound st" "\<not> cs_anonymous st"
  shows "u_Username (cs_user st) \<noteq> name"
proof -
  have "conn_inv (sy_server s) st"
    using system_inv_reachable [OF assms(1-4)] assms(6) by (force simp: system_inv_def)
  then show ?thesis using assms(5,7,8) by (auto simp: conn_inv_def)
qed

theorem upper_case_user_never_bound_witness:
  "\<exists>s st. ldap_reachable demo_idkey id (\<lambda>_. True) demo_config demo_server s \<and> (0, st) \<in> set (sy_conns s) \<and>
     u_Username (cs_user st) \<noteq> ''Ann''"
proof -
  obtain sv where s: "ldap_reachable demo_idkey id (\<lambda>_. True) demo_config demo_server
     \<lparr>sy_server = sv, sy_conns = [(0, bound_as demo_user demo_conn)], sy_next = 1\<rparr>"
    using demo_bound_reachable by blast
  have "to_lower ''Ann'' \<noteq> ''Ann''" by code_simp
  from upper_case_user_never_bound [OF s demo_invariants this, of 0 "bound_as demo_user demo_conn"] s
  show ?thesis by (fastforce simp: bound_as_def)
qed

section \<open>The identity of a connection\<close>

definition same_identity :: "connState \<Rightarrow> connState \<Rightarrow> bool" where
  "same_identity st st' \<longleftrightarrow> cs_bound st' \<and> cs_user st' = cs_user st \<and> cs_anonymous st' = cs_anonymous st"

lemma handleMessage_identity:
  assumes "handleMessage idkey order cfg sv st msg = (rep, st', sv')" "cs_bound st" "cs_hadSuccessfulBind st"
  shows "same_identity st st'"
  using assms(1)
proof (cases rule: handleMessage_cases)
  case bind
  from bind(1) show ?thesis
    by (cases rule: handleBind_cases) (use assms(2,3) in \<open>auto simp: same_identity_def\<close>)
next
  case (search response)
  then show ?thesis
    using assms(2) by (subst handleSearch_frame(6) [OF search(1)]) (simp add: same_identity_def)
qed (use assms(2) in \<open>auto simp: same_identity_def\<close>)

definition identity_kept :: "nat \<Rightarrow> connState \<Rightarrow> ldap_system \<Rightarrow> bool" where
  "identity_kept i st s \<longleftrightarrow> i < sy_next s \<and> (\<forall>st'. map_of (sy_conns s) i = Some st' \<longrightarrow> same_identity st st')"

lemma identity_kept_step:
  assumes "ldap_step idkey order pr cfg s s'" "system_inv cfg s" "identity_kept i st s"
  shows "identity_kept i st s'"
  using assms(1)
proof (cases rule: ldap_stepE)
  case (accept addr)
  then show ?thesis
    using assms(3)
    by (auto simp: identity_kept_def Serve_accept_def map_add_def split: option.splits if_splits)
next
  case (message j st0 r msg rest t)
  let ?sv = "logRequest pr (set_turn t (sy_server s)) st0 msg"
  obtain response closeConn st1 sv1 where h: "handleMessage idkey order cfg ?sv st0 msg = (Some (response, closeConn), st1, sv1)"
    and s': "s' = (if closeConn \<or> length response > 0 \<and> \<not> t_write_ok t then end_connection j
        (s\<lparr>sy_server := logResponse pr sv1 st1 msg response, sy_conns := AList.update j st1 (sy_conns s)\<rparr>)
      else s\<lparr>sy_server := logResponse pr sv1 st1 msg response, sy_conns := AList.update j st1 (sy_conns s)\<rparr>)"
    using message(3) by (auto simp: serve_message_def Let_def split: prod.splits option.splits)
  have "same_identity st st1" if "j = i"
  proof -
    have st0: "same_identity st st0" using assms(3) message(1) that by (simp add: identity_kept_def)
    have "conn_inv (sy_server s) st0"
      using assms(2) message(1) by (force simp: system_inv_def dest: map_of_SomeD)
    then have "same_identity st0 st1"
      using handleMessage_identity [OF h] st0 by (simp add: conn_inv_def same_identity_def)
    then show ?thesis using st0 by (simp add: same_identity_def)
  qed
  then show ?thesis
    using assms(3) unfolding s'
    by (auto simp: identity_kept_def end_connection_def map_of_adelete update_conv')
qed (use assms(3) in \<open>auto simp: identity_kept_def end_connection_def map_of_adelete split: if_splits\<close>)

text \<open>C24: who a connection acts as is settled by its bind: as long as it stays open, no message, no other
  connection and no administrative change (deleting or disabling the user, changing its groups) alters
  the user and the group memberships its searches are answered for.\<close>

theorem identity_never_changes:
  assumes "ldap_reachable idkey order pr cfg sv s" "db_inv (w_db (sv_world sv))" "settings_inv (sv_settings sv)"
    and "0 \<le> LDAPMaxConnections cfg" "map_of (sy_conns s) i = Some st" "cs_bound st"
    and "(ldap_step idkey order pr cfg)\<^sup>*\<^sup>* s s'" "map_of (sy_conns s') i = Some st'"
  shows "cs_bound st' \<and> cs_user st' = cs_user st \<and> cs_anonymous st' = cs_anonymous st"
proof -
  have inv: "system_inv cfg s" by (rule system_inv_reachable [OF assms(1-4)])
  have "system_inv cfg s' \<and> identity_kept i st s'"
    using assms(7)
  proof (induction rule: rtranclp_induct)
    case base
    have "i \<in> fst ` set (sy_conns s)" using assms(5) by (force dest: map_of_SomeD)
    then show ?case using inv assms(5,6) by (auto simp: identity_kept_def same_identity_def system_inv_def)
  qed (use system_inv_step identity_kept_step in blast)
  then show ?thesis using assms(8) by (simp add: identity_kept_def same_identity_def)
qed

theorem identity_never_changes_witness:
  "\<exists>s s' st'. ldap_reachable demo_idkey id (\<lambda>_. True) demo_config demo_server s \<and>
     (ldap_step demo_idkey id (\<lambda>_. True) demo_config)\<^sup>*\<^sup>* s s' \<and> w_db (sv_world (sy_server s')) =
       w_db (snd (store_step demo_idkey (sv_world (sy_server s)) (OpDeleteUser 1))) \<and>
     map_of (sy_conns s') 0 = Some st' \<and>
     cs_bound st' \<and> cs_user st' = cs_user (bound_as demo_user demo_conn) \<and>
     cs_anonymous st' = cs_anonymous (bound_as demo_user demo_conn)"
proof -
  obtain sv where s: "ldap_reachable demo_idkey id (\<lambda>_. True) demo_config demo_server
     \<lparr>sy_server = sv, sy_conns = [(0, bound_as demo_user demo_conn)], sy_next = 1\<rparr>" (is "ldap_reachable _ _ _ _ _ ?s")
    using demo_bound_reachable by blast
  let ?s' = "?s\<lparr>sy_server := (sy_server ?s)\<lparr>sv_world := snd (store_step demo_idkey (sv_world (sy_server ?s)) (OpDeleteUser 1))\<rparr>\<rparr>"
  have step: "(ldap_step demo_idkey id (\<lambda>_. True) demo_config)\<^sup>*\<^sup>* ?s ?s'"
    by (intro r_into_rtranclp ldap_step.store_change)
  have "map_of (sy_conns ?s) 0 = Some (bound_as demo_user demo_conn)" "cs_bound (bound_as demo_user demo_conn)"
    "map_of (sy_conns ?s') 0 = Some (bound_as demo_user demo_conn)" by (simp_all add: bound_as_def)
  from identity_never_changes [OF s demo_invariants this(1,2) step this(3)] s step this(3)
  show ?thesis by (intro exI [of _ ?s] exI [of _ ?s'] exI [of _ "bound_as demo_user demo_conn"]) simp
qed

section \<open>The debug log\<close>

text \<open>How \<open>logRequest\<close> writes a message that \<open>readMessage\<close> has accepted.\<close>

lemma logged_message:
  assumes "readMessage r = Inr (msg, rest)"
  shows "formatDebugMessage pr (m_raw msg) =
    ''LDAPMessage{id='' @ itoa (m_id msg) @ '', op='' @ formatDebugPacket pr (m_op msg) @ ''}''"
  using assms
  by (auto simp: readMessage_def formatDebugMessage_def split: sum.splits if_splits)

text \<open>A bind request with simple authentication, and two that differ in nothing but the password.\<close>

definition simple_auth :: "packet \<Rightarrow> bool" where
  "simple_auth op \<longleftrightarrow> pclass op = classApplication \<and> ptag op = 0 \<and> length (children op) \<ge> 3 \<and>
     pclass (children op ! 2) = classContext \<and> ptag (children op ! 2) = 0"

definition same_but_password :: "packet \<Rightarrow> packet \<Rightarrow> bool" where
  "same_but_password op op' \<longleftrightarrow> simple_auth op \<and> simple_auth op' \<and>
     children op ! 0 = children op' ! 0 \<and> children op ! 1 = children op' ! 1"

lemma bind_text:
  assumes "simple_auth op"
  shows "formatDebugPacket pr op = ''BindRequest{version='' @ itoa (int_or_zero (children op ! 0)) @
    '', dn='' @ go_quote pr (packet_str (children op ! 1)) @
    '', authentication=simple('' @ [CHR 34] @ ''<redacted>'' @ [CHR 34] @ '')}''"
  using assms
  by (simp add: simple_auth_def formatDebugPacket_def formatBindRequest_def formatAuthChoice_def
      expectChildren_def)

text \<open>C33: the debug log never shows the password of a simple bind: two accepted messages that differ in
  nothing but the password leave the same log behind, and what they add is a single line without control
  characters.\<close>

theorem simple_bind_redacted:
  assumes "readMessage r = Inr (msg, rest)" "readMessage r' = Inr (msg', rest')"
    and "m_id msg = m_id msg'" "same_but_password (m_op msg) (m_op msg')"
  shows "logRequest pr sv st msg = logRequest pr sv st msg' \<and> one_line (formatDebugMessage pr (m_raw msg))"
proof -
  have op: "formatDebugPacket pr (m_op msg) = formatDebugPacket pr (m_op msg')" "ptag (m_op msg) = ptag (m_op msg')"
    using assms(4) by (simp_all add: same_but_password_def bind_text simp_thms) (simp add: simple_auth_def)
  have "one_line (formatDebugPacket pr (m_op msg))"
    using assms(4) by (simp add: same_but_password_def bind_text)
  then show ?thesis
    using op assms(3) by (simp add: logRequest_def log_head_def logged_message [OF assms(1)] logged_message [OF assms(2)])
qed

theorem simple_bind_redacted_witness:
  "\<exists>msg'. packet_str (children (m_op msg') ! 2) = ''x'' \<and>
     logRequest (\<lambda>_. True) demo_server demo_conn demo_bind_read = logRequest (\<lambda>_. True) demo_server demo_conn msg' \<and>
     one_line (formatDebugMessage (\<lambda>_. True) (m_raw demo_bind_read))"
proof -
  let ?bytes = "[0x30, 0x19, 0x02, 0x01, 0x01, 0x60, 0x14] @ take 17 (drop 7 demo_bind_bytes) @ [0x80, 0x01, 0x78]"
  let ?msg = "fst (projr (readMessage ?bytes))"
  have r: "readMessage ?bytes = Inr (?msg, [])" "m_id demo_bind_read = m_id ?msg"
    "same_but_password (m_op demo_bind_read) (m_op ?msg)" "packet_str (children (m_op ?msg) ! 2) = ''x''"
    by code_simp+
  from simple_bind_redacted [OF demo_read(1) r(1,2,3), of "\<lambda>_. True" demo_server demo_conn] r(4) show ?thesis by blast
qed

lemma search_text:
  assumes "length (children op) \<ge> 8"
  shows "\<exists>before after. formatSearchRequest pr op = before @ formatFilterPacket pr (children op ! 6) @ after"
proof -
  let ?before = "''SearchRequest{baseDN='' @ go_quote pr (packet_str (children op ! 0)) @
    '', scope='' @ scopeName (int_or_zero (children op ! 1)) @
    '', derefAliases='' @ itoa (int_or_zero (children op ! 2)) @ '', sizeLimit='' @ itoa (int_or_zero (children op ! 3)) @
    '', timeLimit='' @ itoa (int_or_zero (children op ! 4)) @ '', typesOnly='' @ bool_text (packet_boolean (children op ! 5)) @
    '', filter=''"
  let ?after = "'', attributes=['' @
    join_with '', '' (map (\<lambda>attr. go_quote pr (packet_str attr)) (children (children op ! 7))) @ '']}''"
  have "formatSearchRequest pr op = ?before @ formatFilterPacket pr (children op ! 6) @ ?after"
    using assms by (simp add: formatSearchRequest_def expectChildren_def)
  then show ?thesis by blast
qed

text \<open>filters are written to the debug log without quoting: the attribute of a presence filter stands in
  the log as the client sent it, line breaks included, so that any client, bound or not, can add lines of
  its choice.\<close>

theorem present_filter_unescaped:
  assumes "readMessage r = Inr (msg, rest)" "pclass (m_op msg) = classApplication" "ptag (m_op msg) = 3"
    and "length (children (m_op msg)) \<ge> 8" "children (m_op msg) ! 6 = Packet classContext 7 con body cs"
    and "sv_debugLog sv = Some ls"
  shows "\<exists>before after. sv_debugLog (logRequest pr sv st msg) = Some (ls @ [before @ string_of_bytes body @ after])"
proof -
  have f: "formatFilterPacket pr (children (m_op msg) ! 6) = ''present('' @ string_of_bytes body @ '')''"
    using assms(5) by (simp add: packet_str_def class_defs)
  obtain b0 a0 where "formatSearchRequest pr (m_op msg) = b0 @ formatFilterPacket pr (children (m_op msg) ! 6) @ a0"
    using search_text [OF assms(4)] by blast
  then obtain before after where "formatDebugPacket pr (m_op msg) = before @ string_of_bytes body @ after"
    using f assms(2,3) that [of "b0 @ ''present(''" "'')'' @ a0"] by (simp add: formatDebugPacket_def)
  then have "log_head ''request'' st msg @ '' payload='' @ formatDebugMessage pr (m_raw msg) =
      (log_head ''request'' st msg @ '' payload=LDAPMessage{id='' @ itoa (m_id msg) @ '', op='' @ before)
        @ string_of_bytes body @ after @ ''}''"
    by (simp add: logged_message [OF assms(1)])
  moreover have "sv_debugLog (logRequest pr sv st msg) = Some (ls @ [log_head ''request'' st msg @ '' payload='' @
      formatDebugMessage pr (m_raw msg)])"
    using assms(6) by (simp add: logRequest_def debug_print_def)
  ultimately show ?thesis by (simp only:) blast
qed

definition demo_search_bytes :: bytes where
  "demo_search_bytes = [0x30, 0x1c, 0x02, 0x01, 0x02, 0x63, 0x17, 0x04, 0x00, 0x0a, 0x01, 0x02, 0x0a, 0x01, 0x00,
     0x02, 0x01, 0x00, 0x02, 0x01, 0x00, 0x01, 0x01, 0x00, 0x87, 0x02, 0x41, 0x0a, 0x30, 0x00]"

theorem present_filter_unescaped_witness:
  "\<exists>before after. sv_debugLog (logRequest (\<lambda>_. True) demo_server demo_conn (fst (projr (readMessage demo_search_bytes))))
     = Some ([] @ [before @ string_of_bytes [0x41, 0x0a] @ after]) \<and> string_of_bytes [0x41, 0x0a] = [CHR ''A'', CHR 10]"
proof -
  let ?msg = "fst (projr (readMessage demo_search_bytes))"
  have r: "readMessage demo_search_bytes = Inr (?msg, [])" "pclass (m_op ?msg) = classApplication" "ptag (m_op ?msg) = 3"
    "length (children (m_op ?msg)) \<ge> 8" "children (m_op ?msg) ! 6 = Packet classContext 7 False [0x41, 0x0a] []"
    "string_of_bytes [0x41, 0x0a] = [CHR ''A'', CHR 10]"
    by code_simp+
  have "sv_debugLog demo_server = Some []" by (simp add: demo_server_def)
  from present_filter_unescaped [OF r(1-5) this] r(6) show ?thesis by blast
qed

end
