(* ===== verification/Http_Log.thy ===== *)
theory Http_Log
  imports Go_Strings
begin

text \<open>
  The error log of the HTTP servers (\<open>internal/httplog/filter.go\<close>): a writer between \<open>log.Logger\<close> and standard
  error that drops the lines about rejected certificates. The destination is the text written so far and
  the outcomes of the writes to come: \<open>Some n\<close> for an error after \<open>n\<close> bytes; none left means success.
\<close>

record sink =
  sink_text :: string
  sink_faults :: "nat option list"

record filterWriter =
  fw_dst :: sink
  fw_pending :: string

abbreviation newline :: char where
  "newline \<equiv> CHR 0x0A"

text \<open>\<open>io.WriteString\<close>, with whether it succeeded.\<close>

definition WriteString :: "sink \<Rightarrow> string \<Rightarrow> bool \<times> sink" where
  "WriteString dst line =
     (case sink_faults dst of
        [] \<Rightarrow> (True, dst\<lparr>sink_text := sink_text dst @ line\<rparr>)
      | None # fs \<Rightarrow> (True, dst\<lparr>sink_text := sink_text dst @ line, sink_faults := fs\<rparr>)
      | Some n # fs \<Rightarrow> (False, dst\<lparr>sink_text := sink_text dst @ take n line, sink_faults := fs\<rparr>))"

text \<open>\<open>strings.IndexByte\<close>.\<close>

fun index_byte :: "char \<Rightarrow> string \<Rightarrow> nat option" where
  "index_byte c [] = None"
| "index_byte c (x # xs) = (if x = c then Some 0 else map_option Suc (index_byte c xs))"

definition NewServerErrorLogger :: "sink \<Rightarrow> filterWriter" where
  "NewServerErrorLogger dst = \<lparr>fw_dst = dst, fw_pending = []\<rparr>"

definition shouldSuppress :: "string \<Rightarrow> bool" where
  "shouldSuppress line \<longleftrightarrow> contains_str line ''http: TLS handshake error'' \<and>
     contains_str line ''remote error: tls: unknown certificate''"

lemma index_byte_less: "index_byte c s = Some i \<Longrightarrow> i < length s"
  by (induction s arbitrary: i) (auto split: if_splits)

text \<open>The loop of \<open>Write\<close>; \<open>True\<close> when it ends without an error.\<close>

function filter_loop :: "filterWriter \<Rightarrow> bool \<times> filterWriter" where
  "filter_loop w =
     (case index_byte newline (fw_pending w) of
        None \<Rightarrow> (True, w)
      | Some idx \<Rightarrow>
          let line = take (idx + 1) (fw_pending w);
              w = w\<lparr>fw_pending := drop (idx + 1) (fw_pending w)\<rparr>
          in if shouldSuppress line then filter_loop w
             else case WriteString (fw_dst w) line of
                    (ok, dst) \<Rightarrow>
                      let w = w\<lparr>fw_dst := dst\<rparr>
                      in if \<not> ok then (False, w) else filter_loop w)"
  by pat_completeness auto
termination
  by (relation "measure (\<lambda>w. length (fw_pending w))") (auto dest: index_byte_less)

declare filter_loop.simps [simp del]

definition filter_Write :: "filterWriter \<Rightarrow> string \<Rightarrow> (nat \<times> bool) \<times> filterWriter" where
  "filter_Write w p =
     (case filter_loop (w\<lparr>fw_pending := fw_pending w @ p\<rparr>) of
        (ok, w) \<Rightarrow> (if ok then (length p, True) else (0, False), w))"

section \<open>The specification\<close>

text \<open>What is visible of a text: its complete lines, without those to suppress. The abstract writer keeps the
  whole text it was given.\<close>

definition visible_text :: "string \<Rightarrow> string" where
  "visible_text text =
     concat (filter (\<lambda>line. \<not> shouldSuppress line) (map (\<lambda>l. l @ [newline]) (butlast (split_on newline text))))"

definition unfinished_line :: "string \<Rightarrow> string" where
  "unfinished_line text = last (split_on newline text)"

definition spec_Write :: "string \<Rightarrow> string \<Rightarrow> (nat \<times> bool) \<times> string" where
  "spec_Write text p = ((length p, True), text @ p)"

definition writer_rel :: "filterWriter \<Rightarrow> string \<Rightarrow> bool" where
  "writer_rel w text \<longleftrightarrow> sink_faults (fw_dst w) = [] \<and> sink_text (fw_dst w) = visible_text text \<and>
     fw_pending w = unfinished_line text"

lemma index_byte_None: "index_byte c s = None \<longleftrightarrow> c \<notin> set s"
  by (induction s) auto

lemma index_byte_Some: "index_byte c s = Some i \<Longrightarrow> \<exists>a b. s = a @ c # b \<and> length a = i \<and> c \<notin> set a"
proof (induction s arbitrary: i)
  case (Cons x s)
  show ?case
  proof (cases "x = c")
    case True
    then show ?thesis using Cons.prems by (intro exI [of _ "[]"] exI [of _ s]) auto
  next
    case False
    then obtain j where "index_byte c s = Some j" "i = Suc j" using Cons.prems by auto
    with Cons.IH obtain a b where "s = a @ c # b" "length a = j" "c \<notin> set a" by blast
    then show ?thesis using False \<open>i = Suc j\<close> by (intro exI [of _ "x # a"] exI [of _ b]) auto
  qed
qed simp

text \<open>One round of the loop, on a pending text that starts with a complete line.\<close>

lemma filter_loop_line:
  assumes "fw_pending w = a @ newline # b" "newline \<notin> set a" "sink_faults (fw_dst w) = []"
  shows "filter_loop w = filter_loop (w\<lparr>fw_pending := b, fw_dst := (fw_dst w)\<lparr>sink_text :=
     sink_text (fw_dst w) @ (if shouldSuppress (a @ [newline]) then [] else a @ [newline])\<rparr>\<rparr>)"
proof -
  have "index_byte newline (a @ newline # b) = Some (length a)"
    using assms(2) by (induction a) auto
  then show ?thesis
    using assms by (subst filter_loop.simps) (simp add: Let_def WriteString_def)
qed

lemma visible_line:
  "newline \<notin> set a \<Longrightarrow> visible_text (a @ newline # b) = (if shouldSuppress (a @ [newline]) then [] else a @ [newline]) @ visible_text b"
  by (simp add: visible_text_def split_on_append)

lemma filter_loop_spec:
  "sink_faults (fw_dst w) = [] \<Longrightarrow> filter_loop w =
     (True, w\<lparr>fw_dst := (fw_dst w)\<lparr>sink_text := sink_text (fw_dst w) @ visible_text (fw_pending w)\<rparr>,
              fw_pending := unfinished_line (fw_pending w)\<rparr>)"
proof (induction "length (fw_pending w)" arbitrary: w rule: less_induct)
  case less
  show ?case
  proof (cases "index_byte newline (fw_pending w)")
    case None
    then have "visible_text (fw_pending w) = []" "unfinished_line (fw_pending w) = fw_pending w"
      by (simp_all add: index_byte_None visible_text_def unfinished_line_def)
    then show ?thesis by (subst filter_loop.simps) (simp add: None)
  next
    case (Some i)
    then obtain a b where ab: "fw_pending w = a @ newline # b" "newline \<notin> set a"
      using index_byte_Some by blast
    have "unfinished_line (a @ newline # b) = unfinished_line b"
      using ab(2) by (simp add: unfinished_line_def split_on_append)
    then show ?thesis
      unfolding filter_loop_line [OF ab less.prems]
      by (subst less.hyps) (simp_all add: ab visible_line less.prems)
  qed
qed

text \<open>A text can be cut anywhere.\<close>

lemma split_on_cut: "split_on c (a @ b) = butlast (split_on c a) @ split_on c (last (split_on c a) @ b)"
proof (induction a)
  case (Cons x a)
  show ?case
  proof (cases "x = c")
    case False
    obtain p ps where s: "split_on c a = p # ps" using split_on_not_Nil [of c a] by (cases "split_on c a") auto
    show ?thesis
      using Cons.IH False s by (cases ps) auto
  qed (use Cons.IH in simp)
qed simp

lemma visible_cut: "visible_text (a @ b) = visible_text a @ visible_text (unfinished_line a @ b)"
  unfolding visible_text_def unfinished_line_def split_on_cut [of newline a b] by (simp add: butlast_append)

lemma unfinished_cut: "unfinished_line (a @ b) = unfinished_line (unfinished_line a @ b)"
  unfolding unfinished_line_def split_on_cut [of newline a b] by simp

interpretation log_filter: simulation filter_Write spec_Write writer_rel "\<lambda>_ _. True"
proof unfold_locales
  fix w t p
  assume "writer_rel w t"
  then show "fst (filter_Write w p) = fst (spec_Write t p)"
    and "writer_rel (snd (filter_Write w p)) (snd (spec_Write t p))"
    unfolding writer_rel_def filter_Write_def spec_Write_def
    by (simp_all add: filter_loop_spec visible_cut [of t p] unfinished_cut [of t p])
qed

section \<open>Properties\<close>

lemma spec_text: "final_state spec_Write t ps = t @ concat ps"
  by (induction ps arbitrary: t) (simp_all add: spec_Write_def)

text \<open>C39: however the log text is cut into writes, as long as the destination takes them, what arrives there is
  the complete lines of the whole text except the handshake errors about unknown certificates, every write
  reports all its bytes, and only an unfinished last line is held back.\<close>

theorem log_filter_ignores_chunks:
  assumes "sink_faults dst = []" "sink_text dst = []"
  shows "case final_state filter_Write (NewServerErrorLogger dst) ps of w \<Rightarrow>
      sink_text (fw_dst w) = visible_text (concat ps) \<and> fw_pending w = unfinished_line (concat ps) \<and>
      outputs filter_Write (NewServerErrorLogger dst) ps = map (\<lambda>p. (length p, True)) ps"
proof -
  have rel: "writer_rel (NewServerErrorLogger dst) []"
    using assms by (simp add: writer_rel_def NewServerErrorLogger_def visible_text_def unfinished_line_def)
  have ok: "log_filter.admissible t ps" for t by (induction ps arbitrary: t) simp_all
  have "outputs spec_Write t ps = map (\<lambda>p. (length p, True)) ps" for t
    by (induction ps arbitrary: t) (simp_all add: spec_Write_def)
  then show ?thesis
    using log_filter.runs_related [OF rel ok] log_filter.runs_agree [OF rel ok]
    by (simp add: writer_rel_def spec_text)
qed

theorem log_filter_ignores_chunks_witness:
  "case final_state filter_Write (NewServerErrorLogger \<lparr>sink_text = [], sink_faults = []\<rparr>) [''a'', [newline], ''b''] of w \<Rightarrow>
      sink_text (fw_dst w) = visible_text (concat [''a'', [newline], ''b'']) \<and>
      fw_pending w = unfinished_line (concat [''a'', [newline], ''b'']) \<and>
      outputs filter_Write (NewServerErrorLogger \<lparr>sink_text = [], sink_faults = []\<rparr>) [''a'', [newline], ''b'']
        = map (\<lambda>p. (length p, True)) [''a'', [newline], ''b'']"
  by (rule log_filter_ignores_chunks) simp_all

end
