(* ===== verification/Tls_Pair.thy ===== *)
theory Tls_Pair
  imports Go_Strings
begin

text \<open>
  The certificate of the servers (\<open>internal/tlsutil/cert.go\<close>). Files are a map from names to contents. The
  functions of \<open>crypto/x509\<close>, \<open>crypto/tls\<close> and \<open>encoding/pem\<close> are the record \<open>crypto\<close>, \<open>None\<close> being an error;
  the outcomes of one call, the new key, the serial number, the name of the host, the time and what becomes
  of its writes, are the record \<open>cert_env\<close>. \<open>add_years\<close> is \<open>AddDate(n, 0, 0)\<close>.
\<close>

type_synonym files = "string \<Rightarrow> string option"

datatype key_usage = DigitalSignature | ServerAuth

record certificate_template =
  ct_SerialNumber :: int
  ct_CommonName :: string
  ct_Organization :: "string list"
  ct_NotBefore :: time
  ct_NotAfter :: time
  ct_KeyUsage :: key_usage
  ct_ExtKeyUsage :: "key_usage list"
  ct_BasicConstraintsValid :: bool
  ct_DNSNames :: "string list"
  ct_IPAddresses :: "string list"

record ('k, 'c) crypto =
  create_certificate :: "certificate_template \<Rightarrow> 'k \<Rightarrow> string option"
  marshal_key :: "'k \<Rightarrow> string option"
  pem_encode :: "string \<Rightarrow> string \<Rightarrow> string"
  x509_key_pair :: "string \<Rightarrow> string \<Rightarrow> 'c option"

text \<open>What becomes of \<open>os.WriteFile\<close>: done, or an error before or after the file is truncated, with this many
  bytes written.\<close>

datatype write_outcome = Written | NotOpened | Truncated nat

record 'k cert_env =
  ce_key :: "'k option"
  ce_serial :: "int option"
  ce_hostname :: string
  ce_now :: time
  ce_add_years :: "nat \<Rightarrow> time \<Rightarrow> time"
  ce_unreadable :: "string list"
  ce_write_cert :: write_outcome
  ce_write_key :: write_outcome

definition WriteFile :: "write_outcome \<Rightarrow> string \<Rightarrow> string \<Rightarrow> files \<Rightarrow> bool \<times> files" where
  "WriteFile out name contents fs = (case out of
       Written \<Rightarrow> (True, fs(name \<mapsto> contents))
     | NotOpened \<Rightarrow> (False, fs)
     | Truncated n \<Rightarrow> (False, fs(name \<mapsto> take n contents)))"

definition ReadFile :: "'k cert_env \<Rightarrow> string \<Rightarrow> files \<Rightarrow> string option" where
  "ReadFile env name fs = (if List.member (ce_unreadable env) name then None else fs name)"

text \<open>\<open>tls.LoadX509KeyPair\<close>: reads both files and calls \<open>X509KeyPair\<close>.\<close>

definition LoadX509KeyPair :: "('k, 'c) crypto \<Rightarrow> 'k cert_env \<Rightarrow> string \<Rightarrow> string \<Rightarrow> files \<Rightarrow> 'c option" where
  "LoadX509KeyPair cr env certFile keyFile fs =
     (case ReadFile env certFile fs of
        None \<Rightarrow> None
      | Some certPEM \<Rightarrow>
          (case ReadFile env keyFile fs of None \<Rightarrow> None | Some keyPEM \<Rightarrow> x509_key_pair cr certPEM keyPEM))"

definition server_template :: "'k cert_env \<Rightarrow> int \<Rightarrow> certificate_template" where
  "server_template env serial =
     \<lparr>ct_SerialNumber = serial, ct_CommonName = ''NanoLDAP'', ct_Organization = [''NanoLDAP''],
      ct_NotBefore = ce_now env - 60 * minute, ct_NotAfter = ce_add_years env 10 (ce_now env),
      ct_KeyUsage = DigitalSignature, ct_ExtKeyUsage = [ServerAuth], ct_BasicConstraintsValid = True,
      ct_DNSNames = [''localhost'', ce_hostname env], ct_IPAddresses = [''127.0.0.1'', ''::1'']\<rparr>"

text \<open>The part of \<open>EnsurePair\<close> after the two files were not both found.\<close>

definition generate_pair ::
  "('k, 'c) crypto \<Rightarrow> 'k cert_env \<Rightarrow> string \<Rightarrow> string \<Rightarrow> files \<Rightarrow> (string \<times> 'c) option \<times> files" where
  "generate_pair cr env certFile keyFile fs =
     (case ce_key env of
        None \<Rightarrow> (None, fs)
      | Some privateKey \<Rightarrow>
     (case ce_serial env of
        None \<Rightarrow> (None, fs)
      | Some serial \<Rightarrow>
     (case create_certificate cr (server_template env serial) privateKey of
        None \<Rightarrow> (None, fs)
      | Some der \<Rightarrow>
          let certPEM = pem_encode cr ''CERTIFICATE'' der
          in case marshal_key cr privateKey of
               None \<Rightarrow> (None, fs)
             | Some keyDER \<Rightarrow>
                 let keyPEM = pem_encode cr ''PRIVATE KEY'' keyDER;
                     (ok, fs) = WriteFile (ce_write_cert env) certFile certPEM fs
                 in if \<not> ok then (None, fs)
                    else
                      let (ok, fs) = WriteFile (ce_write_key env) keyFile keyPEM fs
                      in if \<not> ok then (None, fs)
                         else (map_option (Pair certPEM) (x509_key_pair cr certPEM keyPEM), fs))))"

definition EnsurePair ::
  "('k, 'c) crypto \<Rightarrow> 'k cert_env \<Rightarrow> string \<Rightarrow> string \<Rightarrow> files \<Rightarrow> (string \<times> 'c) option \<times> files" where
  "EnsurePair cr env certFile keyFile fs =
     (if fs certFile \<noteq> None \<and> fs keyFile \<noteq> None then
        (case ReadFile env certFile fs of
           None \<Rightarrow> (None, fs)
         | Some certPEM \<Rightarrow> (map_option (Pair certPEM) (LoadX509KeyPair cr env certFile keyFile fs), fs))
      else generate_pair cr env certFile keyFile fs)"

section \<open>Properties\<close>

text \<open>The pair that was returned is the one in the files.\<close>

definition pair_on_disk :: "('k, 'c) crypto \<Rightarrow> string \<Rightarrow> string \<Rightarrow> files \<Rightarrow> string \<times> 'c \<Rightarrow> bool" where
  "pair_on_disk cr certFile keyFile fs p \<longleftrightarrow>
     (\<exists>keyPEM. fs certFile = Some (fst p) \<and> fs keyFile = Some keyPEM \<and> x509_key_pair cr (fst p) keyPEM = Some (snd p))"

lemma generate_pair_on_disk:
  assumes "generate_pair cr env certFile keyFile fs = (Some p, fs')" "certFile \<noteq> keyFile"
  shows "pair_on_disk cr certFile keyFile fs' p"
  using assms
  by (auto simp: generate_pair_def WriteFile_def pair_on_disk_def Let_def split: option.splits write_outcome.splits if_splits)

lemma EnsurePair_on_disk:
  assumes "EnsurePair cr env certFile keyFile fs = (Some p, fs')" "certFile \<noteq> keyFile"
  shows "pair_on_disk cr certFile keyFile fs' p"
proof (cases "fs certFile \<noteq> None \<and> fs keyFile \<noteq> None")
  case True
  then show ?thesis
    using assms(1)
    by (auto simp: EnsurePair_def LoadX509KeyPair_def ReadFile_def pair_on_disk_def split: option.splits if_splits)
next
  case False
  then have "generate_pair cr env certFile keyFile fs = (Some p, fs')" using assms(1) by (auto simp: EnsurePair_def)
  then show ?thesis using generate_pair_on_disk assms(2) by blast
qed

text \<open>C40: a pair that \<open>EnsurePair\<close> has returned is used from then on: every later call that can read the files
  returns the same certificate and changes no file.\<close>

theorem EnsurePair_stable:
  assumes "EnsurePair cr env certFile keyFile fs = (Some p, fs')" "certFile \<noteq> keyFile"
    and "certFile \<notin> set (ce_unreadable env')" "keyFile \<notin> set (ce_unreadable env')"
  shows "EnsurePair cr env' certFile keyFile fs' = (Some p, fs')"
proof -
  obtain keyPEM where "fs' certFile = Some (fst p)" "fs' keyFile = Some keyPEM" "x509_key_pair cr (fst p) keyPEM = Some (snd p)"
    using EnsurePair_on_disk [OF assms(1,2)] by (auto simp: pair_on_disk_def)
  then show ?thesis
    using assms(3,4) by (simp add: EnsurePair_def LoadX509KeyPair_def ReadFile_def)
qed

definition sample_crypto :: "(string, string) crypto" where
  "sample_crypto = \<lparr>create_certificate = (\<lambda>t k. Some k), marshal_key = Some, pem_encode = (\<lambda>t d. t @ d),
     x509_key_pair = (\<lambda>c k. Some (c @ k))\<rparr>"

definition sample_env :: "string \<Rightarrow> string cert_env" where
  "sample_env k = \<lparr>ce_key = Some k, ce_serial = Some 5, ce_hostname = ''h'', ce_now = 0, ce_add_years = (\<lambda>n t. t),
     ce_unreadable = [], ce_write_cert = Written, ce_write_key = Written\<rparr>"

theorem EnsurePair_stable_witness:
  "case EnsurePair sample_crypto (sample_env ''k1'') ''c'' ''k'' (\<lambda>_. None) of (r, fs') \<Rightarrow>
     EnsurePair sample_crypto (sample_env ''k2'') ''c'' ''k'' fs' = (r, fs')"
proof -
  obtain fs' where run: "EnsurePair sample_crypto (sample_env ''k1'') ''c'' ''k'' (\<lambda>_. None)
      = (Some (''CERTIFICATEk1'', ''CERTIFICATEk1PRIVATE KEYk1''), fs')"
    by (simp add: EnsurePair_def generate_pair_def sample_crypto_def sample_env_def WriteFile_def Let_def)
  show ?thesis
    unfolding run prod.case by (rule EnsurePair_stable [OF run]) (simp_all add: sample_env_def)
qed

end
