(* ===== verification/App.thy ===== *)
theory App
  imports Web_Props Ldap_Props Http_Log Tls_Pair
begin

text \<open>
  The program as a whole: \<open>New\<close> and \<open>Close\<close> of \<open>internal/app/app.go\<close>, the start and the end of the services in
  \<open>cmd/nanoldap/main.go\<close>, and the running program, in which web requests and the LDAP connections interleave
  on the one database, the one base DN and the one audit log.
\<close>

section \<open>\<open>app.New\<close>\<close>

datatype app_error = NoCertificate | StoreFailed store_error | BadSettings dn_error | AuditUnavailable | Panicked

text \<open>\<open>web.New\<close> parses the templates and keeps the rest; the web server is made when it is asked for.\<close>

record 'c app =
  ap_cfg :: config
  ap_store :: world
  ap_audit :: "audit_logger option"
  ap_sessions :: session_store
  ap_settings :: dir_settings
  ap_certPEM :: string
  ap_tlsCert :: 'c

definition store_error_of :: "store_error \<Rightarrow> app_error" where
  "store_error_of e = (if e = AuthFailure Argon2Panic then Panicked else StoreFailed e)"

definition App_New ::
  "idkey \<Rightarrow> (string \<times> 'c) option \<Rightarrow> bool \<Rightarrow> config \<Rightarrow> world \<Rightarrow> (app_error + 'c app) \<times> world" where
  "App_New idkey pair audit_open cfg w =
     (case pair of
        None \<Rightarrow> (Inl NoCertificate, w)
      | Some (certPEM, tlsCert) \<Rightarrow>
     (case Open_store w of
        (Inl e, w) \<Rightarrow> (Inl (StoreFailed e), w)
      | (Inr _, w) \<Rightarrow>
     (case SeedDefaults idkey w of
        (Inl e, w) \<Rightarrow> (Inl (store_error_of e), w)
      | (Inr _, w) \<Rightarrow>
     (case EnsureBaseDN (cfg_BaseDN cfg) w of
        (Inl e, w) \<Rightarrow> (Inl (StoreFailed e), w)
      | (Inr baseDN, w) \<Rightarrow>
     (case NewSettings baseDN of
        Inl e \<Rightarrow> (Inl (BadSettings e), w)
      | Inr settings \<Rightarrow>
     (case audit_New (AuditLog cfg) audit_open of
        None \<Rightarrow> (Inl AuditUnavailable, w)
      | Some auditLog \<Rightarrow>
          (Inr \<lparr>ap_cfg = cfg, ap_store = w, ap_audit = Some auditLog,
                ap_sessions = new_session_store (SessionIdleTimeout cfg) (SessionMax cfg), ap_settings = settings,
                ap_certPEM = certPEM, ap_tlsCert = tlsCert\<rparr>, w)))))))"

definition app_web :: "'c app \<Rightarrow> web" where
  "app_web a = new_web (ap_cfg a) (ap_settings a) (ap_store a) (ap_sessions a) (ap_audit a)"

lemma NewSettings_normalized: "normalized_base_dn b \<Longrightarrow> NewSettings b = Inr \<lparr>base_dn = b\<rparr>"
  by (simp add: NewSettings_def NormalizeBaseDN_canonical)

text \<open>What a successful start has gone through.\<close>

lemma App_New_Inr:
  assumes "App_New idkey pair audit_open cfg w = (Inr a, w')"
  obtains w1 w2 b where "Open_store w = (Inr (), w1)" "SeedDefaults idkey w1 = (Inr (), w2)"
    "EnsureBaseDN (cfg_BaseDN cfg) w2 = (Inr b, w')" "NewSettings b = Inr (ap_settings a)"
    "ap_store a = w'" "ap_sessions a = new_session_store (SessionIdleTimeout cfg) (SessionMax cfg)"
    "ap_audit a = Some \<lparr>au_records = []\<rparr>" "ap_cfg a = cfg"
  using assms unfolding App_New_def
  by (auto simp: audit_New_def split: option.splits prod.splits sum.splits if_splits)

lemma App_New_inv:
  assumes "App_New idkey pair audit_open cfg w = (Inr a, w')" "data_ok (w_db w)"
  shows "web_inv (app_web a)"
proof -
  obtain w1 w2 b where st: "Open_store w = (Inr (), w1)" "SeedDefaults idkey w1 = (Inr (), w2)"
    "EnsureBaseDN (cfg_BaseDN cfg) w2 = (Inr b, w')" "NewSettings b = Inr (ap_settings a)"
    and a: "ap_store a = w'" "ap_sessions a = new_session_store (SessionIdleTimeout cfg) (SessionMax cfg)"
    using App_New_Inr [OF assms(1)] by metis
  have "db_inv (w_db w1)" using Open_store_inv [OF st(1) assms(2)] .
  then have "db_inv (w_db w2)" using keepsD [OF keeps_SeedDefaults, of w1 idkey] st(2) by simp
  moreover from this have "db_inv (w_db w')" using keepsD [OF keeps_EnsureBaseDN, of w2 "cfg_BaseDN cfg"] st(3) by simp
  moreover from calculation have "normalized_base_dn b" "map_of (t_settings (w_db w')) ''base_dn'' = Some b"
    using EnsureBaseDN_Inr [OF st(3)] by simp_all
  moreover from this have "ap_settings a = \<lparr>base_dn = b\<rparr>" using st(4) NewSettings_normalized by simp
  ultimately show ?thesis
    using a by (simp add: web_inv_def app_web_def new_web_def stored_base_def settings_inv_def BaseDN_def session_inv_def
        new_session_store_def)
qed

section \<open>Services\<close>

datatype service = HTTP | HTTPS | LDAP | LDAPS

text \<open>Services are ordered as \<open>run\<close> starts them.\<close>

fun start_index :: "service \<Rightarrow> nat" where
  "start_index HTTP = 0"
| "start_index HTTPS = 1"
| "start_index LDAP = 2"
| "start_index LDAPS = 3"

instantiation service :: linorder
begin

definition less_eq_service :: "service \<Rightarrow> service \<Rightarrow> bool" where
  "less_eq_service a b \<longleftrightarrow> start_index a \<le> start_index b"

definition less_service :: "service \<Rightarrow> service \<Rightarrow> bool" where
  "less_service a b \<longleftrightarrow> start_index a < start_index b"

instance
proof
  fix a b :: service
  show "a \<le> b \<Longrightarrow> b \<le> a \<Longrightarrow> a = b" by (cases a; cases b; simp add: less_eq_service_def)
qed (auto simp: less_eq_service_def less_service_def)

end

definition service_port :: "config \<Rightarrow> service \<Rightarrow> int" where
  "service_port cfg s = (case s of
       HTTP \<Rightarrow> HTTPPort cfg | HTTPS \<Rightarrow> HTTPSPort cfg | LDAP \<Rightarrow> LDAPPort cfg | LDAPS \<Rightarrow> LDAPSPort cfg)"

definition hasEnabledListener :: "config \<Rightarrow> bool" where
  "hasEnabledListener cfg = list_ex (\<lambda>port. port > 0) [HTTPPort cfg, HTTPSPort cfg, LDAPPort cfg, LDAPSPort cfg]"

text \<open>\<open>listens\<close> says whether \<open>net.Listen\<close> and, for LDAPS, \<open>TLSListener\<close> succeed for an address. The pair is the
  services started, in order, and the first that failed.\<close>

fun start_services ::
  "config \<Rightarrow> (service \<Rightarrow> string \<Rightarrow> bool) \<Rightarrow> service list \<Rightarrow> service list \<Rightarrow> service list \<times> service option" where
  "start_services cfg listens started [] = (started, None)"
| "start_services cfg listens started (s # ss) =
     (if service_port cfg s > 0 then
        (if listens s (Addr cfg (service_port cfg s)) then start_services cfg listens (started @ [s]) ss
         else (started, Some s))
      else start_services cfg listens started ss)"

text \<open>\<open>shutdownAll\<close>: the loop from the last element to the first.\<close>

fun shutdown_loop :: "'a list \<Rightarrow> nat \<Rightarrow> 'a list" where
  "shutdown_loop shutdowns 0 = []"
| "shutdown_loop shutdowns (Suc i) = (shutdowns ! i) # shutdown_loop shutdowns i"

definition shutdownAll :: "'a list \<Rightarrow> 'a list" where
  "shutdownAll shutdowns = shutdown_loop shutdowns (length shutdowns)"

text \<open>How \<open>run\<close> ends: with an error before anything was started, with a listener that failed while the services
  before it run on, or, after a signal (\<open>None\<close>) or an error of a service, with all services shut down.\<close>

datatype run_end =
    NoListeners
  | NotStarted app_error
  | ListenFailed "service list" service
  | Stopped "service list" "service option"

definition run_program ::
  "idkey \<Rightarrow> (string \<times> 'c) option \<Rightarrow> bool \<Rightarrow> (service \<Rightarrow> string \<Rightarrow> bool) \<Rightarrow> service option \<Rightarrow> config \<Rightarrow> world \<Rightarrow>
     run_end \<times> world" where
  "run_program idkey pair audit_open listens failing cfg w =
     (if \<not> hasEnabledListener cfg then (NoListeners, w)
      else case App_New idkey pair audit_open cfg w of
             (Inl e, w) \<Rightarrow> (NotStarted e, w)
           | (Inr instance, w) \<Rightarrow>
               (case start_services cfg listens [] [HTTP, HTTPS, LDAP, LDAPS] of
                  (started, Some s) \<Rightarrow> (ListenFailed started s, w)
                | (started, None) \<Rightarrow> (Stopped (shutdownAll started) failing, w)))"

lemma shutdown_loop_take: "n \<le> length xs \<Longrightarrow> shutdown_loop xs n = rev (take n xs)"
  by (induction n) (simp_all add: take_Suc_conv_app_nth)

lemma shutdownAll_rev: "shutdownAll xs = rev xs"
  by (simp add: shutdownAll_def shutdown_loop_take)

definition enabled_services :: "config \<Rightarrow> service list" where
  "enabled_services cfg = filter (\<lambda>s. service_port cfg s > 0) [HTTP, HTTPS, LDAP, LDAPS]"

definition can_listen :: "config \<Rightarrow> (service \<Rightarrow> string \<Rightarrow> bool) \<Rightarrow> service \<Rightarrow> bool" where
  "can_listen cfg listens s \<longleftrightarrow> listens s (Addr cfg (service_port cfg s))"

lemma start_services_run:
  "start_services cfg listens started ss =
     (started @ takeWhile (can_listen cfg listens) (filter (\<lambda>s. service_port cfg s > 0) ss),
      case dropWhile (can_listen cfg listens) (filter (\<lambda>s. service_port cfg s > 0) ss) of [] \<Rightarrow> None | s # _ \<Rightarrow> Some s)"
  by (induction ss arbitrary: started) (simp_all add: can_listen_def)

lemma hasEnabledListener_iff: "hasEnabledListener cfg \<longleftrightarrow> enabled_services cfg \<noteq> []"
  by (simp add: hasEnabledListener_def enabled_services_def service_port_def)

lemma sorted_enabled: "sorted_wrt (<) (enabled_services cfg)"
  unfolding enabled_services_def by (rule sorted_wrt_filter) (simp add: less_service_def)

text \<open>once the program runs, the services with a positive port were started in the order HTTP, HTTPS, LDAP,
  LDAPS and are shut down in the opposite order; a listener that fails stops the start right there, and
  without any such port, or when the application cannot be set up, nothing is started.\<close>

theorem run_starts_enabled_services:
  assumes "run_program idkey pair audit_open listens failing cfg w = (e, w')"
  shows "case e of
      NoListeners \<Rightarrow> enabled_services cfg = [] \<and> w' = w
    | NotStarted err \<Rightarrow> App_New idkey pair audit_open cfg w = (Inl err, w')
    | ListenFailed started s \<Rightarrow> (\<exists>rest. enabled_services cfg = started @ s # rest) \<and> sorted_wrt (<) (started @ [s]) \<and>
        \<not> can_listen cfg listens s \<and> list_all (can_listen cfg listens) started
    | Stopped order f \<Rightarrow> f = failing \<and> order = rev (enabled_services cfg) \<and> sorted_wrt (>) order \<and> order \<noteq> [] \<and>
        list_all (can_listen cfg listens) order"
proof (cases "hasEnabledListener cfg")
  case False
  then show ?thesis using assms by (auto simp: run_program_def hasEnabledListener_iff)
next
  case True
  then have enabled: "enabled_services cfg \<noteq> []" by (simp add: hasEnabledListener_iff)
  obtain r w1 where app: "App_New idkey pair audit_open cfg w = (r, w1)" by (cases "App_New idkey pair audit_open cfg w")
  note run = assms [unfolded run_program_def app start_services_run, folded enabled_services_def]
  show ?thesis
  proof (cases r)
    case (Inl err)
    then show ?thesis using run True app by auto
  next
    case (Inr a)
    show ?thesis
    proof (cases "dropWhile (can_listen cfg listens) (enabled_services cfg)")
      case Nil
      then have all: "list_all (can_listen cfg listens) (enabled_services cfg)"
        by (simp add: dropWhile_eq_Nil_conv list_all_iff)
      then have take: "takeWhile (can_listen cfg listens) (enabled_services cfg) = enabled_services cfg"
        by (simp add: takeWhile_eq_all_conv list_all_iff)
      have "e = Stopped (rev (enabled_services cfg)) failing"
        using run True Inr Nil unfolding take by (simp add: shutdownAll_rev)
      then show ?thesis using all enabled sorted_enabled [of cfg] by (simp add: sorted_wrt_rev list_all_iff)
    next
      case (Cons s rest)
      let ?started = "takeWhile (can_listen cfg listens) (enabled_services cfg)"
      have split: "enabled_services cfg = ?started @ s # rest" using Cons takeWhile_dropWhile_id by metis
      have "\<not> can_listen cfg listens s" using Cons by (metis hd_dropWhile list.sel(1) list.simps(3))
      moreover have "sorted_wrt (<) (?started @ [s])"
        using sorted_enabled [of cfg] by (subst (asm) split) (simp add: sorted_wrt_append)
      moreover have "list_all (can_listen cfg listens) ?started" by (auto simp: list_all_iff dest: set_takeWhileD)
      moreover have "e = ListenFailed ?started s" using run True Inr Cons by simp
      ultimately show ?thesis using split by auto
    qed
  qed
qed

theorem run_starts_enabled_services_witness:
  "case run_program web_idkey (None :: (string \<times> string) option) True (\<lambda>_ _. True) None
      ((env_config (\<lambda>_. []))\<lparr>LDAPPort := 389\<rparr>) (wb_world web_demo) of (e, w') \<Rightarrow>
    (case e of
      NoListeners \<Rightarrow> enabled_services ((env_config (\<lambda>_. []))\<lparr>LDAPPort := 389\<rparr>) = [] \<and> w' = wb_world web_demo
    | NotStarted err \<Rightarrow> App_New web_idkey (None :: (string \<times> string) option) True
        ((env_config (\<lambda>_. []))\<lparr>LDAPPort := 389\<rparr>) (wb_world web_demo) = (Inl err, w')
    | ListenFailed started s \<Rightarrow>
        (\<exists>rest. enabled_services ((env_config (\<lambda>_. []))\<lparr>LDAPPort := 389\<rparr>) = started @ s # rest) \<and>
        sorted_wrt (<) (started @ [s]) \<and>
        \<not> can_listen ((env_config (\<lambda>_. []))\<lparr>LDAPPort := 389\<rparr>) (\<lambda>_ _. True) s \<and>
        list_all (can_listen ((env_config (\<lambda>_. []))\<lparr>LDAPPort := 389\<rparr>) (\<lambda>_ _. True)) started
    | Stopped order f \<Rightarrow> f = None \<and> order = rev (enabled_services ((env_config (\<lambda>_. []))\<lparr>LDAPPort := 389\<rparr>)) \<and>
        sorted_wrt (>) order \<and> order \<noteq> [] \<and>
        list_all (can_listen ((env_config (\<lambda>_. []))\<lparr>LDAPPort := 389\<rparr>) (\<lambda>_ _. True)) order)"
  by (cases "run_program web_idkey (None :: (string \<times> string) option) True (\<lambda>_ _. True) None
      ((env_config (\<lambda>_. []))\<lparr>LDAPPort := 389\<rparr>) (wb_world web_demo)", simp only: prod.case,
    erule run_starts_enabled_services)

end
