(* ===== verification/Program.thy ===== *)
theory Program
  imports App
begin

text \<open>
  The running program: web requests, LDAP connections and messages, and changes of the environment, one
  after the other in any order, on the state that \<open>app.New\<close> has set up. The web server and the LDAP server
  share the database, the settings and the audit log; the LDAP server alone has the limiter and the debug
  log. Both LDAP listeners feed the same server.
\<close>

record program =
  pr_web :: web
  pr_limiter :: windowLimiter
  pr_debugLog :: "string list option"
  pr_conns :: "(nat \<times> connState) list"
  pr_next :: nat

definition ldap_view :: "program \<Rightarrow> ldap_system" where
  "ldap_view p = \<lparr>sy_server = \<lparr>sv_world = wb_world (pr_web p), sv_settings = wb_settings (pr_web p),
       sv_audit = wb_audit (pr_web p), sv_debugLog = pr_debugLog p, sv_bindLimiter = pr_limiter p\<rparr>,
     sy_conns = pr_conns p, sy_next = pr_next p\<rparr>"

definition with_ldap :: "program \<Rightarrow> ldap_system \<Rightarrow> program" where
  "with_ldap p s = (let sv = sy_server s in
     \<lparr>pr_web = (pr_web p)\<lparr>wb_world := sv_world sv, wb_settings := sv_settings sv, wb_audit := sv_audit sv\<rparr>,
      pr_limiter = sv_bindLimiter sv, pr_debugLog = sv_debugLog sv, pr_conns = sy_conns s, pr_next = sy_next s\<rparr>)"

definition start_program :: "'c app \<Rightarrow> string list option \<Rightarrow> program" where
  "start_program a debugSink =
     (let sv = new_server (ap_cfg a) (ap_settings a) (ap_store a) (ap_audit a) debugSink
      in with_ldap \<lparr>pr_web = app_web a, pr_limiter = sv_bindLimiter sv, pr_debugLog = sv_debugLog sv, pr_conns = [],
           pr_next = 0\<rparr> (initial_system sv))"

inductive program_step ::
  "idkey \<Rightarrow> error_texts \<Rightarrow> map_order \<Rightarrow> print_table \<Rightarrow> config \<Rightarrow> program \<Rightarrow> program \<Rightarrow> bool"
  for idkey et order pr cfg where
  secure_request: "SecureMux idkey et cfg r (pr_web p) = (resp, s) \<Longrightarrow>
    program_step idkey et order pr cfg p (p\<lparr>pr_web := s\<rparr>)"
| public_request: "PublicMux r (pr_web p) = (resp, s) \<Longrightarrow> program_step idkey et order pr cfg p (p\<lparr>pr_web := s\<rparr>)"
| accept: "program_step idkey et order pr cfg p (with_ldap p (Serve_accept cfg addr (ldap_view p)))"
| message: "\<lbrakk>map_of (pr_conns p) i = Some st; readMessage b = Inr (msg, rest);
    serve_message idkey order pr cfg t i st msg (ldap_view p) = Some s\<rbrakk> \<Longrightarrow>
    program_step idkey et order pr cfg p (with_ldap p s)"
| close: "program_step idkey et order pr cfg p (with_ldap p (end_connection i (ldap_view p)))"
| environment: "program_step idkey et order pr cfg p
    (p\<lparr>pr_web := (pr_web p)\<lparr>wb_world := (wb_world (pr_web p))\<lparr>faults := fs, entropy := rnd, w_now := now\<rparr>\<rparr>\<rparr>)"

inductive_cases program_stepE [consumes 1, case_names secure_request public_request accept message close environment]:
  "program_step idkey et order pr cfg p p'"

abbreviation program_reachable ::
  "idkey \<Rightarrow> error_texts \<Rightarrow> map_order \<Rightarrow> print_table \<Rightarrow> config \<Rightarrow> program \<Rightarrow> program \<Rightarrow> bool" where
  "program_reachable idkey et order pr cfg \<equiv> (program_step idkey et order pr cfg)\<^sup>*\<^sup>*"

lemma ldap_view_with [simp]: "ldap_view (with_ldap p s) = s"
  by (simp add: ldap_view_def with_ldap_def Let_def)

lemma with_ldap_web [simp]:
  "wb_world (pr_web (with_ldap p s)) = sv_world (sy_server s)" "wb_settings (pr_web (with_ldap p s)) = sv_settings (sy_server s)"
  "wb_audit (pr_web (with_ldap p s)) = sv_audit (sy_server s)" "wb_sessions (pr_web (with_ldap p s)) = wb_sessions (pr_web p)"
  by (simp_all add: with_ldap_def Let_def)

section \<open>The invariant of the program\<close>

definition program_inv :: "config \<Rightarrow> program \<Rightarrow> bool" where
  "program_inv cfg p \<longleftrightarrow> web_inv (pr_web p) \<and> system_inv cfg (ldap_view p)"

lemma serve_message_keeps:
  assumes "serve_message idkey order pr cfg t i st msg s = Some s'"
  shows "sv_settings (sy_server s') = sv_settings (sy_server s) \<and> w_db (sv_world (sy_server s')) = w_db (sv_world (sy_server s))"
proof -
  let ?sv = "logRequest pr (set_turn t (sy_server s)) st msg"
  obtain response closeConn st' sv' where h: "handleMessage idkey order cfg ?sv st msg = (Some (response, closeConn), st', sv')"
    using assms by (auto simp: serve_message_def split: prod.splits option.splits)
  show ?thesis
    using assms h handleMessage_keeps [OF h] by (auto simp: serve_message_def Let_def end_connection_def split: if_splits)
qed

lemma program_inv_web:
  assumes "program_inv cfg p" "web_inv s" "audit_extends (wb_audit (pr_web p)) (wb_audit s)"
  shows "program_inv cfg (p\<lparr>pr_web := s\<rparr>)"
proof -
  have "audit_grows (sy_server (ldap_view p)) (sy_server (ldap_view (p\<lparr>pr_web := s\<rparr>)))"
    using assms(3) by (auto simp: audit_grows_def audit_extends_def ldap_view_def)
  note conn = conn_inv_grows [OF _ this]
  show ?thesis
    using assms(1,2) conn unfolding program_inv_def system_inv_def web_inv_def stored_base_def
    by (auto simp: ldap_view_def)
qed

lemma program_inv_ldap:
  assumes "program_inv cfg p" "system_inv cfg s" "sv_settings (sy_server s) = wb_settings (pr_web p)"
    and "w_db (sv_world (sy_server s)) = w_db (wb_world (pr_web p))"
  shows "program_inv cfg (with_ldap p s)"
  using assms by (simp add: program_inv_def web_inv_def)

lemma program_inv_step:
  assumes "program_step idkey et order pr cfg p p'" "program_inv cfg p"
  shows "program_inv cfg p'"
  using assms(1)
proof (cases rule: program_stepE)
  case (secure_request r resp s)
  have "web_inv s" using SecureMux_inv [of "pr_web p" idkey et cfg r] assms(2) secure_request by (simp add: program_inv_def)
  moreover have "audit_extends (wb_audit (pr_web p)) (wb_audit s)"
    using SecureMux_books [of "pr_web p" idkey et cfg r] secure_request by simp
  ultimately show ?thesis using program_inv_web [OF assms(2)] secure_request by simp
next
  case (public_request r resp s)
  then have "s = pr_web p" by (auto simp: PublicMux_def Let_def split: if_splits)
  then show ?thesis using assms(2) public_request by simp
next
  case (accept addr)
  have "system_inv cfg (Serve_accept cfg addr (ldap_view p))"
    using assms(2) system_inv_accept by (simp add: program_inv_def)
  then show ?thesis
    unfolding accept by (rule program_inv_ldap [OF assms(2)]) (simp_all add: Serve_accept_def ldap_view_def)
next
  case (message i st b msg rest t s)
  have "system_inv cfg s"
    using system_inv_message [OF _ _ message(4)] message(2) assms(2) by (simp add: program_inv_def ldap_view_def)
  then show ?thesis
    unfolding message(1) using serve_message_keeps [OF message(4)]
    by (intro program_inv_ldap [OF assms(2)]) (simp_all add: ldap_view_def)
next
  case (close i)
  have "system_inv cfg (end_connection i (ldap_view p))"
    using assms(2) system_inv_end by (simp add: program_inv_def)
  then show ?thesis
    unfolding close by (rule program_inv_ldap [OF assms(2)]) (simp_all add: end_connection_def ldap_view_def)
next
  case (environment now rnd fs)
  have "web_inv ((pr_web p)\<lparr>wb_world := (wb_world (pr_web p))\<lparr>faults := fs, entropy := rnd, w_now := now\<rparr>\<rparr>)"
    using assms(2) by (simp add: program_inv_def web_inv_def)
  then show ?thesis unfolding environment by (rule program_inv_web [OF assms(2)]) simp
qed

lemma program_inv_reachable:
  "program_reachable idkey et order pr cfg p p' \<Longrightarrow> program_inv cfg p \<Longrightarrow> program_inv cfg p'"
  by (induction rule: rtranclp_induct) (blast intro: program_inv_step)+

lemma start_program_inv:
  assumes "App_New idkey pair audit_open cfg w = (Inr a, w')" "data_ok (w_db w)" "0 \<le> LDAPMaxConnections cfg"
  shows "program_inv cfg (start_program a sink)"
proof -
  have "web_inv (app_web a)" using App_New_inv [OF assms(1,2)] .
  then show ?thesis
    using assms(3)
    by (simp add: program_inv_def system_inv_def start_program_def with_ldap_def Let_def initial_system_def new_server_def
        ldap_view_def app_web_def new_web_def web_inv_def stored_base_def)
qed

text \<open>The limits of the session store never change.\<close>

lemma program_limits_step:
  "program_step idkey et order pr cfg p p' \<Longrightarrow> snd (books (pr_web p')) = snd (books (pr_web p))"
proof (induction rule: program_step.induct)
  case (secure_request r p resp s)
  then show ?case using SecureMux_books [of "pr_web p" idkey et cfg r] by simp
next
  case (public_request r p resp s)
  then show ?case by (auto simp: PublicMux_def Let_def split: if_splits)
qed (simp_all add: books_def)

lemma program_limits_reachable:
  "program_reachable idkey et order pr cfg p p' \<Longrightarrow> snd (books (pr_web p')) = snd (books (pr_web p))"
  by (induction rule: rtranclp_induct) (auto dest: program_limits_step)

section \<open>Properties\<close>

text \<open>C1: from a configuration that loads and a database with consistent contents, after a successful start and
  any interleaving of web requests, LDAP messages, connections and failing statements: the tables are
  consistent, the base DN in use is the stored one and normalised, there are at most 3 sessions and 16
  LDAP connections, and every connection bound as a user belongs to an enabled user with a successful
  bind in the audit log.\<close>

theorem program_is_consistent:
  assumes "Load env args = Some cfg" "data_ok (w_db w)" "App_New idkey pair audit_open cfg w = (Inr a, w')"
    and "program_reachable idkey et order pr cfg (start_program a sink) p"
  shows "db_inv (w_db (wb_world (pr_web p))) \<and>
    map_of (t_settings (w_db (wb_world (pr_web p)))) ''base_dn'' = Some (BaseDN (wb_settings (pr_web p))) \<and>
    normalized_base_dn (BaseDN (wb_settings (pr_web p))) \<and>
    session_inv (wb_sessions (pr_web p)) \<and> length (sessions (wb_sessions (pr_web p))) \<le> 3 \<and>
    length (pr_conns p) \<le> 16 \<and> list_all (\<lambda>(i, st). conn_inv (sy_server (ldap_view p)) st) (pr_conns p)"
proof -
  have cfg: "fixed_limits cfg"
    by (rule flag_args_limits [OF assms(1) [unfolded Load_def]]) (simp add: fixed_limits_def env_config_def)
  then have "program_inv cfg (start_program a sink)"
    by (intro start_program_inv [OF assms(3,2)]) (simp add: fixed_limits_def)
  then have inv: "program_inv cfg p" by (rule program_inv_reachable [OF assms(4)])
  have "ap_cfg a = cfg" "ap_sessions a = new_session_store (SessionIdleTimeout cfg) (SessionMax cfg)"
    using App_New_Inr [OF assms(3)] by metis+
  then have "ss_max (wb_sessions (pr_web p)) = 3"
    using program_limits_reachable [OF assms(4)] cfg
    by (simp add: start_program_def Let_def initial_system_def new_server_def app_web_def new_web_def books_def
        new_session_store_def fixed_limits_def)
  then have "length (sessions (wb_sessions (pr_web p))) \<le> 3"
    using inv by (simp add: program_inv_def web_inv_def session_inv_def)
  moreover have "length (pr_conns p) \<le> 16"
    using inv cfg by (simp add: program_inv_def system_inv_def ldap_view_def fixed_limits_def)
  moreover have "list_all (\<lambda>(i, st). conn_inv (sy_server (ldap_view p)) st) (pr_conns p)"
    using inv by (force simp: program_inv_def system_inv_def ldap_view_def list_all_iff)
  ultimately show ?thesis
    using inv by (simp add: program_inv_def web_inv_def stored_base_def settings_inv_def)
qed

definition demo_disk :: world where
  "demo_disk = \<lparr>w_db = web_db\<lparr>foreign_keys := False\<rparr>, faults = [], entropy = [Some [171]], w_now = 7\<rparr>"

definition demo_start :: "(app_error + string app) \<times> world" where
  "demo_start = App_New web_idkey (Some (''cert'', ''key'')) True (env_config (\<lambda>_. [])) demo_disk"

definition demo_app :: "string app" where
  "demo_app = projr (fst demo_start)"

definition demo_logged_in :: program where
  "demo_logged_in = (let p = start_program demo_app None
     in p\<lparr>pr_web := snd (SecureMux web_idkey (\<lambda>_. []) (env_config (\<lambda>_. [])) login_request (pr_web p))\<rparr>)"

lemma demo_load: "Load (\<lambda>_. []) [] = Some (env_config (\<lambda>_. []))"
  by (simp add: Load_def flag_args.simps parse_one_def)

lemma demo_disk_ok: "data_ok (w_db demo_disk)"
proof -
  have "(web_db\<lparr>foreign_keys := False\<rparr>)\<lparr>foreign_keys := True\<rparr> = web_db" by (simp add: web_db_def)
  then show ?thesis using web_db_inv by (simp add: demo_disk_def data_ok_def)
qed

lemma demo_App_New:
  "App_New web_idkey (Some (''cert'', ''key'')) True (env_config (\<lambda>_. [])) demo_disk = (Inr demo_app, snd demo_start)"
proof -
  have "is_ok (fst demo_start)" by code_simp
  then show ?thesis
    by (cases "fst demo_start") (simp_all add: demo_app_def demo_start_def [symmetric] prod_eq_iff)
qed

lemma program_demo_reachable:
  "program_reachable web_idkey (\<lambda>_. []) id (\<lambda>_. True) (env_config (\<lambda>_. [])) (start_program demo_app None) demo_logged_in"
proof -
  have "program_step web_idkey (\<lambda>_. []) id (\<lambda>_. True) (env_config (\<lambda>_. [])) (start_program demo_app None) demo_logged_in"
    unfolding demo_logged_in_def Let_def by (rule program_step.secure_request) (rule prod.collapse [symmetric])
  then show ?thesis by blast
qed

theorem program_is_consistent_witness:
  "db_inv (w_db (wb_world (pr_web demo_logged_in))) \<and>
    map_of (t_settings (w_db (wb_world (pr_web demo_logged_in)))) ''base_dn'' = Some (BaseDN (wb_settings (pr_web demo_logged_in))) \<and>
    normalized_base_dn (BaseDN (wb_settings (pr_web demo_logged_in))) \<and>
    session_inv (wb_sessions (pr_web demo_logged_in)) \<and> length (sessions (wb_sessions (pr_web demo_logged_in))) \<le> 3 \<and>
    length (pr_conns demo_logged_in) \<le> 16 \<and>
    list_all (\<lambda>(i, st). conn_inv (sy_server (ldap_view demo_logged_in)) st) (pr_conns demo_logged_in)"
  by (rule program_is_consistent [OF demo_load demo_disk_ok demo_App_New program_demo_reachable])

end
