(* ===== verification/First_Start.thy ===== *)
theory First_Start
  imports Program
begin

text \<open>
  The first start on a machine without a database: the tables are created and filled with the default groups
  and users, and the default administrator can log in.
\<close>

section \<open>Single steps when nothing fails\<close>

abbreviation calm :: "db \<Rightarrow> bytes option list \<Rightarrow> time \<Rightarrow> world" where
  "calm d rnd now \<equiv> \<lparr>w_db = d, faults = [], entropy = rnd, w_now = now\<rparr>"

lemma calm_steps [simp]:
  "query f (calm d rnd now) = (f d, calm d rnd now)"
  "exec g (calm d rnd now) = (case g d of Inl e \<Rightarrow> (Inl e, calm d rnd now) | Inr (x, d') \<Rightarrow> (Inr x, calm d' rnd now))"
  "driver_point (calm d rnd now) = (Inr (), calm d rnd now)"
  by (simp_all add: query_def exec_def driver_point_def fault_def split: sum.splits)

lemma first_row_last: "P r \<Longrightarrow> \<exists>r'. first_row P (rows @ [r]) = Inr r'"
  by (cases "first_row P (rows @ [r])") (auto simp: first_row_Inl)

definition add_group :: "db \<Rightarrow> group_input \<Rightarrow> db" where
  "add_group d g = d\<lparr>t_groups := t_groups d @ [\<lparr>gr_id = groups_seq d + 1, gr_name = in_Name g, gr_description = in_Description g\<rparr>],
     groups_seq := groups_seq d + 1\<rparr>"

definition plain :: "string \<Rightarrow> bool" where
  "plain s \<longleftrightarrow> s \<noteq> [] \<and> trim_space s = s"

lemma CreateGroup_calm:
  assumes "plain (in_Name g)" "trim_space (in_Description g) = in_Description g"
    and "in_Name g \<notin> gr_name ` set (t_groups d)" "groups_seq d < max_rowid"
  shows "\<exists>r. CreateGroup g (calm d rnd now) = (Inr r, calm (add_group d g) rnd now)"
proof -
  have "\<exists>r. first_row (\<lambda>r. gr_id r = groups_seq d + 1) (t_groups (add_group d g)) = Inr r"
    unfolding add_group_def by (simp, rule first_row_last) simp
  then obtain r where "first_row (\<lambda>r. gr_id r = groups_seq d + 1) (t_groups (add_group d g)) = Inr r" ..
  moreover have "sql_insert_group (in_Name g) (in_Description g) (calm d rnd now)
      = (Inr (groups_seq d + 1), calm (add_group d g) rnd now)"
    using assms(3,4) by (simp add: sql_insert_group_def add_group_def)
  ultimately show ?thesis
    using assms(1,2)
    by (simp add: CreateGroup_def plain_def io_bind_def GetGroupByID_def scanGroup_def sql_group_by_id_def groupMembers_def
        sql_group_members_def io_return_def)
qed

definition add_user :: "db \<Rightarrow> user_input \<Rightarrow> string \<Rightarrow> time \<Rightarrow> int \<Rightarrow> db" where
  "add_user d input phc now gid = d\<lparr>t_users := t_users d @ [\<lparr>ur_id = users_seq d + 1, ur_username = in_Username input,
       ur_password_hash = phc, ur_display_name = in_DisplayName input, ur_disabled = boolInt (in_Disabled input),
       ur_created_at = now, ur_updated_at = now\<rparr>],
     users_seq := users_seq d + 1, t_user_groups := t_user_groups d @ [(users_seq d + 1, gid)]\<rparr>"

lemma CreateUser_calm:
  assumes "plain (in_Username input)" "plain (in_Password input)" "plain (in_DisplayName input)"
    and "in_GroupNames input = [g]" "plain g" "first_row (\<lambda>r. gr_name r = g) (t_groups d) = Inr gr"
    and "in_Username input \<notin> ur_username ` set (t_users d)" "users_seq d < max_rowid"
    and "(users_seq d + 1, gr_id gr) \<notin> set (t_user_groups d)"
    and "HashPassword idkey (Some salt) (in_Password input) = Inr phc"
  shows "\<exists>u. CreateUser idkey input (calm d (Some salt # rnd) now) = (Inr u, calm (add_user d input phc now (gr_id gr)) rnd now)"
proof -
  let ?d = "add_user d input phc now (gr_id gr)"
  have gr: "gr \<in> set (t_groups d)" using first_row_Inr [OF assms(6)] by simp
  have names: "uniqueNames [g] = [g]" using assms(5) by (simp add: uniqueNames_def plain_def)
  have display: "displayOrUsername (in_DisplayName input) (in_Username input) = in_DisplayName input"
    using assms(3) by (simp add: displayOrUsername_def plain_def)
  have "\<exists>r. first_row (\<lambda>r. ur_id r = users_seq d + 1) (t_users ?d) = Inr r"
    unfolding add_user_def by (simp, rule first_row_last) simp
  then have read: "\<exists>u. GetUserByID (users_seq d + 1) (calm ?d rnd now) = (Inr u, calm ?d rnd now)"
    by (auto simp: GetUserByID_def scanUser_def sql_user_by_id_def userGroups_def sql_user_groups_def io_bind_def io_return_def)
  have hash: "hash_password idkey (in_Password input) (calm d (Some salt # rnd) now) = (Inr phc, calm d rnd now)"
    using assms(10) by (simp add: hash_password_def take_random_def)
  let ?d1 = "d\<lparr>t_users := t_users d @ [\<lparr>ur_id = users_seq d + 1, ur_username = in_Username input,
       ur_password_hash = phc, ur_display_name = in_DisplayName input, ur_disabled = boolInt (in_Disabled input),
       ur_created_at = now, ur_updated_at = now\<rparr>], users_seq := users_seq d + 1\<rparr>"
  have insert: "sql_insert_user (in_Username input) phc (in_DisplayName input) (boolInt (in_Disabled input)) now now
      (calm d rnd now) = (Inr (users_seq d + 1), calm ?d1 rnd now)"
    using assms(7,8) by (simp add: sql_insert_user_def)
  have assign: "assignGroupsTx (users_seq d + 1) [g] (calm ?d1 rnd now) = (Inr (), calm ?d rnd now)"
    using assms(6,9) gr
    by (auto simp: assignGroupsTx_def names io_bind_def io_return_def sql_group_by_name_def sql_insert_user_group_def
        add_user_def)
  have body: "transaction
          (io_bind (sql_insert_user (in_Username input) phc (in_DisplayName input) (boolInt (in_Disabled input)) now now) (\<lambda>userID.
           io_bind driver_point (\<lambda>_.
           io_bind (assignGroupsTx userID [g]) (\<lambda>_.
           io_return userID)))) (calm d rnd now) = (Inr (users_seq d + 1), calm ?d rnd now)"
    by (simp add: transaction_def io_bind_def insert assign io_return_def)
  show ?thesis
    using read assms(1,2,4)
    by (simp add: CreateUser_def plain_def io_bind_def hash now_of_run display body)
qed

section \<open>Seeding\<close>

definition fresh :: "db \<Rightarrow> bool" where
  "fresh d \<longleftrightarrow> t_users d = [] \<and> t_groups d = [] \<and> t_user_groups d = [] \<and> users_seq d = 0 \<and> groups_seq d = 0 \<and> foreign_keys d"

definition seeded_groups :: "group_row list" where
  "seeded_groups =
     [\<lparr>gr_id = 1, gr_name = ''admins'', gr_description = ''Administrative users''\<rparr>,
      \<lparr>gr_id = 2, gr_name = ''mvradmins'', gr_description = ''Privileged LDAP service accounts''\<rparr>,
      \<lparr>gr_id = 3, gr_name = ''users'', gr_description = ''Standard users''\<rparr>,
      \<lparr>gr_id = 4, gr_name = ''guests'', gr_description = ''Guest users''\<rparr>]"

definition seeded_user :: "int \<Rightarrow> string \<Rightarrow> string \<Rightarrow> string \<Rightarrow> time \<Rightarrow> user_row" where
  "seeded_user i name display phc now = \<lparr>ur_id = i, ur_username = name, ur_password_hash = phc, ur_display_name = display,
     ur_disabled = 0, ur_created_at = now, ur_updated_at = now\<rparr>"

definition seeded :: "db \<Rightarrow> string \<Rightarrow> string \<Rightarrow> string \<Rightarrow> string \<Rightarrow> time \<Rightarrow> db" where
  "seeded d p1 p2 p3 p4 now = d\<lparr>
     t_users := [seeded_user 1 ''admin'' ''Administrator'' p1 now, seeded_user 2 ''mvradmin'' ''MVR Administrator'' p2 now,
       seeded_user 3 ''user'' ''Standard User'' p3 now, seeded_user 4 ''guest'' ''Guest User'' p4 now],
     t_groups := seeded_groups, t_user_groups := [(1, 1), (2, 2), (3, 3), (4, 4)], users_seq := 4, groups_seq := 4\<rparr>"

lemma plain_defaults:
  "list_all (\<lambda>g. plain (in_Name g) \<and> trim_space (in_Description g) = in_Description g) default_groups"
  "list_all (\<lambda>u. plain (in_Username u) \<and> plain (in_Password u) \<and> plain (in_DisplayName u) \<and> plain (hd (in_GroupNames u)))
     default_users"
  by code_simp+

lemma run_all_step:
  "m w = (Inr r, w') \<Longrightarrow> run_all (io_bind m (\<lambda>_. io_return ()) # ms) w = run_all ms w'"
  by (simp add: io_bind_def io_return_def)

text \<open>Adding a list of groups, or of users that each belong to one group, to tables without a clash.\<close>

lemma seeding_groups:
  assumes "list_all (\<lambda>g. plain (in_Name g) \<and> trim_space (in_Description g) = in_Description g) gs"
    and "distinct (map gr_name (t_groups d) @ map in_Name gs)" "groups_seq d + int (length gs) \<le> max_rowid"
  shows "run_all (map (\<lambda>g. io_bind (CreateGroup g) (\<lambda>_. io_return ())) gs) (calm d rnd now)
    = (Inr (), calm (foldl add_group d gs) rnd now)"
  using assms
proof (induction gs arbitrary: d)
  case (Cons g gs)
  have "\<exists>r. CreateGroup g (calm d rnd now) = (Inr r, calm (add_group d g) rnd now)"
    using Cons.prems by (intro CreateGroup_calm) auto
  then obtain r where "CreateGroup g (calm d rnd now) = (Inr r, calm (add_group d g) rnd now)" ..
  moreover have "run_all (map (\<lambda>g. io_bind (CreateGroup g) (\<lambda>_. io_return ())) gs) (calm (add_group d g) rnd now)
      = (Inr (), calm (foldl add_group (add_group d g) gs) rnd now)"
    using Cons.prems by (intro Cons.IH) (auto simp: add_group_def)
  ultimately show ?case by (simp add: run_all_step del: run_all.simps)
qed (simp add: io_return_def)

definition add_default :: "idkey \<Rightarrow> time \<Rightarrow> db \<Rightarrow> user_input \<times> bytes \<times> int \<Rightarrow> db" where
  "add_default idkey now d = (\<lambda>(u, salt, gid). case HashPassword idkey (Some salt) (in_Password u) of
     Inl _ \<Rightarrow> d | Inr phc \<Rightarrow> add_user d u phc now gid)"

definition default_ok :: "idkey \<Rightarrow> db \<Rightarrow> user_input \<times> bytes \<times> int \<Rightarrow> bool" where
  "default_ok idkey d = (\<lambda>(u, salt, gid). plain (in_Username u) \<and> plain (in_Password u) \<and> plain (in_DisplayName u) \<and>
     (\<exists>g gr. in_GroupNames u = [g] \<and> plain g \<and> first_row (\<lambda>r. gr_name r = g) (t_groups d) = Inr gr \<and> gr_id gr = gid) \<and>
     (\<exists>phc. HashPassword idkey (Some salt) (in_Password u) = Inr phc))"

lemma default_ok_add_user: "default_ok idkey (add_user d v phc now gid') = default_ok idkey d"
  by (rule ext) (simp add: default_ok_def add_user_def)

lemma seeding_users:
  assumes "list_all (default_ok idkey d) us" "distinct (map ur_username (t_users d) @ map (in_Username \<circ> fst) us)"
    and "users_seq d + int (length us) \<le> max_rowid" "\<forall>(u, g)\<in>set (t_user_groups d). u \<le> users_seq d"
  shows "run_all (map (\<lambda>u. io_bind (CreateUser idkey u) (\<lambda>_. io_return ())) (map fst us))
      (calm d (map (\<lambda>x. Some (fst (snd x))) us @ rnd) now)
    = (Inr (), calm (foldl (add_default idkey now) d us) rnd now)"
  using assms
proof (induction us arbitrary: d)
  case (Cons x us)
  obtain u salt gid where x: "x = (u, salt, gid)" by (cases x)
  obtain g gr phc where ok: "plain (in_Username u)" "plain (in_Password u)" "plain (in_DisplayName u)"
      "in_GroupNames u = [g]" "plain g" "first_row (\<lambda>r. gr_name r = g) (t_groups d) = Inr gr"
    and gid: "gid = gr_id gr" and phc: "HashPassword idkey (Some salt) (in_Password u) = Inr phc"
    using Cons.prems(1) by (auto simp: x default_ok_def)
  let ?rnd = "map (\<lambda>x. Some (fst (snd x))) us @ rnd"
  have "\<exists>v. CreateUser idkey u (calm d (Some salt # ?rnd) now) = (Inr v, calm (add_user d u phc now (gr_id gr)) ?rnd now)"
    using ok phc Cons.prems by (intro CreateUser_calm) (auto simp: x)
  then obtain v where "CreateUser idkey u (calm d (Some salt # ?rnd) now) = (Inr v, calm (add_user d u phc now (gr_id gr)) ?rnd now)" ..
  moreover have "add_default idkey now d x = add_user d u phc now (gr_id gr)"
    by (simp add: add_default_def x phc gid)
  moreover have "run_all (map (\<lambda>u. io_bind (CreateUser idkey u) (\<lambda>_. io_return ())) (map fst us))
      (calm (add_user d u phc now (gr_id gr)) ?rnd now)
      = (Inr (), calm (foldl (add_default idkey now) (add_user d u phc now (gr_id gr)) us) rnd now)"
  proof (rule Cons.IH)
    show "list_all (default_ok idkey (add_user d u phc now (gr_id gr))) us"
      using Cons.prems(1) by (simp add: default_ok_add_user)
  qed (use Cons.prems in \<open>auto simp: add_user_def x\<close>)
  ultimately show ?case by (simp add: run_all_step x del: run_all.simps)
qed (simp add: io_return_def)

lemma HashPassword_result:
  assumes "idkey (bytes_of_string p) salt 1 65536 4 32 = Some h"
  shows "HashPassword idkey (Some salt) p = Inr (format_phc salt h)"
  using assms by (simp add: HashPassword_def argonTime_def argonMemory_def argonThreads_def argonKeyLen_def)

text \<open>The memberships of the default users, and the database that seeding leaves when the four salts are known.\<close>

definition default_members :: "bytes \<Rightarrow> bytes \<Rightarrow> bytes \<Rightarrow> bytes \<Rightarrow> (user_input \<times> bytes \<times> int) list" where
  "default_members s1 s2 s3 s4 = zip default_users (zip [s1, s2, s3, s4] [1, 2, 3, 4])"

lemma default_members_fst: "map fst (default_members s1 s2 s3 s4) = default_users"
  "map (\<lambda>x. Some (fst (snd x))) (default_members s1 s2 s3 s4) = [Some s1, Some s2, Some s3, Some s4]"
  by (simp_all add: default_members_def default_users_def)

lemma add_groups_default:
  "fresh d \<Longrightarrow> foldl add_group d default_groups = d\<lparr>t_groups := seeded_groups, groups_seq := 4\<rparr>"
  by (simp add: default_groups_def add_group_def fresh_def seeded_groups_def)

lemma seeding:
  assumes "fresh d" "\<And>p s. \<exists>h. idkey p s 1 65536 4 32 = Some h"
  shows "SeedDefaults idkey (calm d (Some s1 # Some s2 # Some s3 # Some s4 # rnd) now)
    = (Inr (), calm (foldl (add_default idkey now) (d\<lparr>t_groups := seeded_groups, groups_seq := 4\<rparr>)
        (default_members s1 s2 s3 s4)) rnd now)"
proof -
  let ?d = "d\<lparr>t_groups := seeded_groups, groups_seq := 4\<rparr>"
  have hash: "\<exists>phc. HashPassword idkey (Some s) p = Inr phc" for s p
    using HashPassword_result assms(2) by metis
  have rid: "4 \<le> max_rowid" by (simp add: max_rowid_def)
  have groups: "run_all (map (\<lambda>g. io_bind (CreateGroup g) (\<lambda>_. io_return ())) default_groups)
      (calm d (Some s1 # Some s2 # Some s3 # Some s4 # rnd) now) = (Inr (), calm ?d (Some s1 # Some s2 # Some s3 # Some s4 # rnd) now)"
    using seeding_groups [OF plain_defaults(1), of d] assms(1) rid
    by (simp add: add_groups_default) (simp add: fresh_def default_groups_def)
  have ok: "list_all (default_ok idkey ?d) (default_members s1 s2 s3 s4)"
    using plain_defaults(2) hash
    by (simp add: default_members_def default_users_def default_user_def default_ok_def seeded_groups_def first_row_def)
  have users: "run_all (map (\<lambda>u. io_bind (CreateUser idkey u) (\<lambda>_. io_return ())) default_users)
      (calm ?d (Some s1 # Some s2 # Some s3 # Some s4 # rnd) now)
    = (Inr (), calm (foldl (add_default idkey now) ?d (default_members s1 s2 s3 s4)) rnd now)"
    using seeding_users [OF ok, of rnd now] assms(1) rid
    by (simp add: default_members_fst) (simp add: fresh_def default_members_def default_users_def default_user_def)
  have "sql_count_users (calm d (Some s1 # Some s2 # Some s3 # Some s4 # rnd) now)
      = (Inr 0, calm d (Some s1 # Some s2 # Some s3 # Some s4 # rnd) now)"
    using assms(1) by (simp add: sql_count_users_def fresh_def)
  then show ?thesis unfolding SeedDefaults_def by (simp add: io_bind_def [where 'a = int] io_bind_def [where 'a = unit] groups users)
qed

lemma seeded_by_adding:
  assumes "fresh d" "idkey (bytes_of_string ''admin'') s1 1 65536 4 32 = Some h1"
    "idkey (bytes_of_string ''mvradmin'') s2 1 65536 4 32 = Some h2" "idkey (bytes_of_string ''user'') s3 1 65536 4 32 = Some h3"
    "idkey (bytes_of_string ''guest'') s4 1 65536 4 32 = Some h4"
  shows "foldl (add_default idkey now) (d\<lparr>t_groups := seeded_groups, groups_seq := 4\<rparr>) (default_members s1 s2 s3 s4)
    = seeded d (format_phc s1 h1) (format_phc s2 h2) (format_phc s3 h3) (format_phc s4 h4) now"
  using assms(1) HashPassword_result [of idkey "''admin''", OF assms(2)] HashPassword_result [of idkey "''mvradmin''", OF assms(3)]
    HashPassword_result [of idkey "''user''", OF assms(4)] HashPassword_result [of idkey "''guest''", OF assms(5)]
  by (simp add: default_members_def default_users_def default_user_def add_default_def add_user_def seeded_def seeded_user_def
      fresh_def boolInt_def)

section \<open>The first start\<close>

lemma sql_create_calm:
  "\<exists>sch. run_all (map sql_create names) (calm d rnd now) = (Inr (), calm (d\<lparr>schema := sch\<rparr>) rnd now)"
proof (induction names arbitrary: d)
  case Nil
  show ?case by (rule exI [of _ "schema d"]) (simp add: io_return_def)
next
  case (Cons n names)
  obtain sch where n: "sql_create n (calm d rnd now) = (Inr (), calm (d\<lparr>schema := sch\<rparr>) rnd now)"
    by (cases "n \<in> set (schema d)") (auto simp: sql_create_def intro: that [of "schema d"])
  show ?case using Cons.IH [of "d\<lparr>schema := sch\<rparr>"] by (simp add: io_bind_def n)
qed

lemma Open_store_calm:
  "\<exists>sch. Open_store (calm d rnd now) = (Inr (), calm (d\<lparr>foreign_keys := True, schema := sch\<rparr>) rnd now)"
proof -
  let ?names = "[''users'', ''groups'', ''user_groups'', ''settings'', ''idx_user_groups_user_id'', ''idx_user_groups_group_id'']"
  obtain sch where sch: "run_all (map sql_create ?names) (calm (d\<lparr>foreign_keys := True\<rparr>) rnd now)
      = (Inr (), calm (d\<lparr>foreign_keys := True, schema := sch\<rparr>) rnd now)"
    using sql_create_calm [of ?names "d\<lparr>foreign_keys := True\<rparr>" rnd now] by auto
  have mig: "Migrate = io_bind sql_pragma_foreign_keys (\<lambda>_. run_all (map sql_create ?names))"
    by (simp add: Migrate_def migrations_def)
  have "sql_pragma_foreign_keys (calm (d\<lparr>foreign_keys := False\<rparr>) rnd now) = (Inr (), calm (d\<lparr>foreign_keys := True\<rparr>) rnd now)"
    by (simp add: sql_pragma_foreign_keys_def)
  then have "Open_store (calm d rnd now) = (Inr (), calm (d\<lparr>foreign_keys := True, schema := sch\<rparr>) rnd now)"
    unfolding Open_store_def mig by (simp add: new_connection_def io_bind_def sch del: run_all.simps list.map)
  then show ?thesis by blast
qed

lemma EnsureBaseDN_calm:
  assumes "NormalizeBaseDN fallback = Inr b" "t_settings d = []"
  shows "EnsureBaseDN fallback (calm d rnd now) = (Inr b, calm (d\<lparr>t_settings := [(''base_dn'', b)]\<rparr>) rnd now)"
  using assms NormalizeBaseDN_canonical [OF NormalizeBaseDN_normalized [OF assms(1)]]
  by (simp add: EnsureBaseDN_def store_BaseDN_def io_bind_def sql_get_base_dn_def normalize_base_def io_lift_def
      sql_insert_base_dn_def)

definition first_world :: "db \<Rightarrow> string \<Rightarrow> string \<Rightarrow> string \<Rightarrow> string \<Rightarrow> string \<Rightarrow> bytes option list \<Rightarrow> time \<Rightarrow> world" where
  "first_world d p1 p2 p3 p4 b rnd now = calm ((seeded d p1 p2 p3 p4 now)\<lparr>t_settings := [(''base_dn'', b)]\<rparr>) rnd now"

lemma first_App_New:
  assumes "NormalizeBaseDN (cfg_BaseDN cfg) = Inr b" "\<And>p s. \<exists>h. idkey p s 1 65536 4 32 = Some h \<and> length h = 32"
  obtains a d h1 h2 h3 h4 where
    "App_New idkey (Some pair) True cfg (calm empty_db (Some s1 # Some s2 # Some s3 # Some s4 # rnd) now) = (Inr a, ap_store a)"
    "ap_store a = first_world d (format_phc s1 h1) (format_phc s2 h2) (format_phc s3 h3) (format_phc s4 h4) b rnd now"
    "ap_settings a = \<lparr>base_dn = b\<rparr>"
    "list_all (\<lambda>(p, s, h). idkey (bytes_of_string p) s 1 65536 4 32 = Some h \<and> length h = 32)
       [(''admin'', s1, h1), (''mvradmin'', s2, h2), (''user'', s3, h3), (''guest'', s4, h4)]"
proof -
  obtain h1 h2 h3 h4 where h: "idkey (bytes_of_string ''admin'') s1 1 65536 4 32 = Some h1"
    "idkey (bytes_of_string ''mvradmin'') s2 1 65536 4 32 = Some h2" "idkey (bytes_of_string ''user'') s3 1 65536 4 32 = Some h3"
    "idkey (bytes_of_string ''guest'') s4 1 65536 4 32 = Some h4"
    and l: "length h1 = 32" "length h2 = 32" "length h3 = 32" "length h4 = 32"
    using assms(2) [of "bytes_of_string ''admin''" s1] assms(2) [of "bytes_of_string ''mvradmin''" s2]
      assms(2) [of "bytes_of_string ''user''" s3] assms(2) [of "bytes_of_string ''guest''" s4] by blast
  let ?rnd = "Some s1 # Some s2 # Some s3 # Some s4 # rnd"
  obtain d where op: "Open_store (calm empty_db ?rnd now) = (Inr (), calm d ?rnd now)" and d: "fresh d" "t_settings d = []"
    using Open_store_calm [of empty_db ?rnd now] by (auto simp: fresh_def empty_db_def)
  have seed: "SeedDefaults idkey (calm d ?rnd now)
      = (Inr (), calm (seeded d (format_phc s1 h1) (format_phc s2 h2) (format_phc s3 h3) (format_phc s4 h4) now) rnd now)"
    using seeding [OF d(1), of idkey] seeded_by_adding [of d idkey, OF d(1) h] assms(2)
    by metis
  have ensure: "EnsureBaseDN (cfg_BaseDN cfg)
      (calm (seeded d (format_phc s1 h1) (format_phc s2 h2) (format_phc s3 h3) (format_phc s4 h4) now) rnd now)
      = (Inr b, first_world d (format_phc s1 h1) (format_phc s2 h2) (format_phc s3 h3) (format_phc s4 h4) b rnd now)"
    using d(2) by (simp add: EnsureBaseDN_calm [OF assms(1)] seeded_def first_world_def)
  show thesis
    by (rule that [of "\<lparr>ap_cfg = cfg, ap_store = first_world d (format_phc s1 h1) (format_phc s2 h2) (format_phc s3 h3)
          (format_phc s4 h4) b rnd now, ap_audit = Some \<lparr>au_records = []\<rparr>,
          ap_sessions = new_session_store (SessionIdleTimeout cfg) (SessionMax cfg), ap_settings = \<lparr>base_dn = b\<rparr>,
          ap_certPEM = fst pair, ap_tlsCert = snd pair\<rparr>" d h1 h2 h3 h4])
      (simp_all add: App_New_def op seed ensure audit_New_def NewSettings_normalized NormalizeBaseDN_normalized [OF assms(1)] h l
        split: prod.split)
qed

lemma first_App_New_inv:
  assumes "App_New idkey (Some pair) True cfg (calm empty_db rnd now) = (Inr a, w')"
  shows "db_inv (w_db (ap_store a))"
proof -
  have "data_ok (w_db (calm empty_db rnd now))" using empty_db_inv by (simp add: data_ok_def)
  from App_New_inv [OF assms this] show ?thesis by (simp add: web_inv_def app_web_def new_web_def stored_base_def)
qed

definition in_group :: "user \<Rightarrow> string \<Rightarrow> bool" where
  "in_group u g \<longleftrightarrow> map g_Name (u_Groups u) = [g]"

lemma first_world_users:
  assumes "(p, gname, s, h) \<in> set [(''admin'', ''admins'', s1, h1), (''mvradmin'', ''mvradmins'', s2, h2),
      (''user'', ''users'', s3, h3), (''guest'', ''guests'', s4, h4)]"
  shows "\<exists>row\<in>set (t_users (w_db (first_world d (format_phc s1 h1) (format_phc s2 h2) (format_phc s3 h3) (format_phc s4 h4) b rnd now))).
    ur_username row = p \<and> ur_password_hash row = format_phc s h \<and> ur_disabled row = 0 \<and>
    in_group (load_user (w_db (first_world d (format_phc s1 h1) (format_phc s2 h2) (format_phc s3 h3) (format_phc s4 h4) b rnd now)) row) gname"
  using assms
  by (auto simp: first_world_def seeded_def seeded_user_def seeded_groups_def load_user_def groups_of_def scanned_group_def
      in_group_def)

abbreviation default_accounts :: "(string \<times> string) list" where
  "default_accounts \<equiv> [(''admin'', ''admins''), (''mvradmin'', ''mvradmins''), (''user'', ''users''), (''guest'', ''guests'')]"

definition default_row :: "idkey \<Rightarrow> world \<Rightarrow> string \<Rightarrow> string \<Rightarrow> user_row \<Rightarrow> bool" where
  "default_row idkey w p g r \<longleftrightarrow> r \<in> set (t_users (w_db w)) \<and> ur_username r = p \<and> ur_disabled r = 0 \<and>
     VerifyPassword idkey (ur_password_hash r) p = Inr True \<and> in_group (load_user (w_db w) r) g"

lemma first_world_default_row:
  assumes "list_all (\<lambda>(p, s, h). idkey (bytes_of_string p) s 1 65536 4 32 = Some h \<and> length h = 32)
       [(''admin'', s1, h1), (''mvradmin'', s2, h2), (''user'', s3, h3), (''guest'', s4, h4)]"
    and "(p, g) \<in> set default_accounts"
  shows "\<exists>r. default_row idkey
     (first_world d (format_phc s1 h1) (format_phc s2 h2) (format_phc s3 h3) (format_phc s4 h4) b rnd now) p g r"
proof -
  obtain s hh where m: "(p, g, s, hh) \<in> set [(''admin'', ''admins'', s1, h1), (''mvradmin'', ''mvradmins'', s2, h2),
    (''user'', ''users'', s3, h3), (''guest'', ''guests'', s4, h4)]" using assms(2) by auto
  then have "idkey (bytes_of_string p) s 1 65536 4 32 = Some hh" "length hh = 32" using assms(1) by auto
  then have "VerifyPassword idkey (format_phc s hh) p = Inr True" by (simp add: VerifyPassword_format)
  then show ?thesis using first_world_users [OF m] unfolding default_row_def by metis
qed

lemma default_row_authenticates:
  assumes "db_inv (w_db w)" "faults w = []" "default_row idkey w p g r"
  shows "\<exists>u. AuthenticateUser idkey p p w = (Inr u, w) \<and> u_Username u = p \<and> in_group u g \<and> \<not> u_Disabled u"
proof -
  have "u_Username (load_user (w_db w) r) = ur_username r" "u_Disabled (load_user (w_db w) r) \<longleftrightarrow> ur_disabled r = 1"
    by (simp_all add: load_user_def scanned_user_def)
  then show ?thesis using AuthenticateUser_ok [OF assms(1,2), of r p idkey p] assms(3) by (simp add: default_row_def)
qed

lemma admin_text: "trim_space ''admin'' = ''admin''" "equal_fold ''admins'' ''admins''"
  by code_simp+

lemma default_row_signs_in:
  assumes "db_inv (w_db (wb_world s))" "faults (wb_world s) = []" "entropy (wb_world s) = Some token # rest"
    and "wb_sessions s = new_session_store t m" "0 < m" "default_row idkey (wb_world s) ''admin'' ''admins'' row"
    and "rq_form r = Some [(''username'', [''admin'']), (''password'', [''admin''])]"
  shows "case handleLogin idkey cfg r w s of (resp, s') \<Rightarrow>
      resp = Some (Redirect ''/users'' 303 (setSessionCookie cfg s r (hex_encode token) w)) \<and>
      map sess_Username (map snd (sessions (wb_sessions s'))) = [''admin'']"
proof -
  have "may_log_in idkey (w_db (wb_world s)) [(''username'', [''admin'']), (''password'', [''admin''])] row"
    using assms(6) by (auto simp: may_log_in_def default_row_def Form_Get_def IsMemberOf_def in_group_def admin_text)
  moreover have "session_room (wb_sessions s) (wb_now s)"
    using assms(4,5) by (simp add: session_room_def new_session_store_def alive_sessions_def)
  ultimately show ?thesis
    using login_succeeds [OF assms(1,2,7,3) _ _ refl, of idkey row cfg w] assms(4)
    by (simp add: Let_def audit_login_def new_session_store_def alive_sessions_def opened_session_def Form_Get_def admin_text)
qed

section \<open>Property\<close>

text \<open>C3: on a machine without a database, with a valid base DN, a certificate and a writable audit log,
  the program starts for any \<open>IDKey\<close> that gives 32-byte keys for its fixed parameters and any random salts;
  the base DN is the configured one; the four default accounts can authenticate with their names as passwords,
  each as a member of its own group only; and the login form signs the default administrator in.\<close>

theorem first_start_serves:
  assumes "NormalizeBaseDN (cfg_BaseDN cfg) = Inr b" "\<And>p s. \<exists>h. idkey p s 1 65536 4 32 = Some h \<and> length h = 32"
    and "0 < SessionMax cfg" "rq_form r = Some [(''username'', [''admin'']), (''password'', [''admin''])]"
  shows "\<exists>a. App_New idkey (Some pair) True cfg
        (calm empty_db (Some s1 # Some s2 # Some s3 # Some s4 # Some token # rnd) now) = (Inr a, ap_store a) \<and>
    BaseDN (ap_settings a) = b \<and>
    list_all (\<lambda>(name, g). \<exists>u. AuthenticateUser idkey name name (ap_store a) = (Inr u, ap_store a) \<and> u_Username u = name \<and>
        in_group u g \<and> \<not> u_Disabled u) default_accounts \<and>
    (case handleLogin idkey cfg r w (app_web a) of (resp, s) \<Rightarrow>
      resp = Some (Redirect ''/users'' 303 (setSessionCookie cfg (app_web a) r (hex_encode token) w)) \<and>
      map sess_Username (map snd (sessions (wb_sessions s))) = [''admin''])"
proof -
  obtain a d h1 h2 h3 h4 where
    app: "App_New idkey (Some pair) True cfg (calm empty_db (Some s1 # Some s2 # Some s3 # Some s4 # Some token # rnd) now)
        = (Inr a, ap_store a)"
    and st: "ap_store a = first_world d (format_phc s1 h1) (format_phc s2 h2) (format_phc s3 h3) (format_phc s4 h4) b (Some token # rnd) now"
    and base: "ap_settings a = \<lparr>base_dn = b\<rparr>"
    and h: "list_all (\<lambda>(p, s, h). idkey (bytes_of_string p) s 1 65536 4 32 = Some h \<and> length h = 32)
       [(''admin'', s1, h1), (''mvradmin'', s2, h2), (''user'', s3, h3), (''guest'', s4, h4)]"
    by (rule first_App_New [of cfg b idkey pair s1 s2 s3 s4 "Some token # rnd" now, OF assms(1,2)])
  have inv: "db_inv (w_db (ap_store a))" and nofault: "faults (ap_store a) = []"
    using first_App_New_inv [OF app] by (simp_all add: st first_world_def)
  have row: "\<exists>r. default_row idkey (ap_store a) p g r" if "(p, g) \<in> set default_accounts" for p g
    unfolding st by (rule first_world_default_row [of idkey, OF h that])
  then have auth: "\<exists>u. AuthenticateUser idkey p p (ap_store a) = (Inr u, ap_store a) \<and> u_Username u = p \<and> in_group u g \<and>
      \<not> u_Disabled u" if "(p, g) \<in> set default_accounts" for p g
    using that default_row_authenticates [OF inv nofault] by blast
  obtain r0 where r0: "default_row idkey (ap_store a) ''admin'' ''admins'' r0" using row [of "''admin''" "''admins''"] by auto
  have web: "wb_world (app_web a) = ap_store a" "wb_sessions (app_web a) = new_session_store (SessionIdleTimeout cfg) (SessionMax cfg)"
    using App_New_Inr [OF app] by (simp_all add: app_web_def new_web_def)
  have "entropy (ap_store a) = Some token # rnd" by (simp add: st first_world_def)
  with default_row_signs_in [of "app_web a" token rnd "SessionIdleTimeout cfg" "SessionMax cfg" idkey r0 r cfg w]
  show ?thesis
    using app auth base web inv nofault r0 assms(3,4) by (intro exI [of _ a]) (simp add: BaseDN_def)
qed

text \<open>An \<open>IDKey\<close> that spreads the password over 32 bytes.\<close>

definition padded_idkey :: idkey where
  "padded_idkey = (\<lambda>p s t m k l. if t = 0 \<or> k = 0 then None else Some (take (unat l) (p @ replicate (unat l) 0)))"

theorem first_start_serves_witness:
  "\<exists>a. App_New padded_idkey (Some (''cert'', ''key'')) True (env_config (\<lambda>_. []))
        (calm empty_db (Some [1] # Some [2] # Some [3] # Some [4] # Some [171] # []) 7) = (Inr a, ap_store a) \<and>
    BaseDN (ap_settings a) = ''dc=example,dc=com'' \<and>
    list_all (\<lambda>(name, g). \<exists>u. AuthenticateUser padded_idkey name name (ap_store a) = (Inr u, ap_store a) \<and>
        u_Username u = name \<and> in_group u g \<and> \<not> u_Disabled u) default_accounts \<and>
    (case handleLogin padded_idkey (env_config (\<lambda>_. []))
        (web_request ''POST'' ''/login'' [] [(''username'', [''admin'']), (''password'', [''admin''])]) empty_response (app_web a) of
      (resp, s) \<Rightarrow>
      resp = Some (Redirect ''/users'' 303 (setSessionCookie (env_config (\<lambda>_. [])) (app_web a)
        (web_request ''POST'' ''/login'' [] [(''username'', [''admin'']), (''password'', [''admin''])]) (hex_encode [171]) empty_response)) \<and>
      map sess_Username (map snd (sessions (wb_sessions s))) = [''admin''])"
proof (rule first_start_serves)
  show "NormalizeBaseDN (cfg_BaseDN (env_config (\<lambda>_. []))) = Inr ''dc=example,dc=com''" by code_simp
  show "\<exists>h. padded_idkey p s 1 65536 4 32 = Some h \<and> length h = 32" for p s
    by (simp add: padded_idkey_def)
qed (simp_all add: env_config_def web_request_def)

end
