(* ===== verification/Panic_Free.thy ===== *)
theory Panic_Free
  imports Store_Props
begin

text \<open>
  Store operations and the panic of \<open>argon2.IDKey\<close>: on consistent tables no operation runs into it, for any
  \<open>IDKey\<close> that panics only for zero passes or zero threads.
\<close>

named_theorems calm_intros "store operations that do not panic"

section \<open>Store operations\<close>

text \<open>The documented behaviour of \<open>argon2.IDKey\<close>: it panics only for zero passes or zero threads.\<close>

definition panics_on_zero :: "idkey \<Rightarrow> bool" where
  "panics_on_zero idkey \<longleftrightarrow> (\<forall>p s t m k l. idkey p s t m k l = None \<longrightarrow> t = 0 \<or> k = 0)"

definition no_panic :: "'a io \<Rightarrow> bool" where
  "no_panic m \<longleftrightarrow> (\<forall>w w'. m w \<noteq> (Inl (AuthFailure Argon2Panic), w'))"

lemma no_panic_bind [calm_intros]: "no_panic m \<Longrightarrow> (\<And>x. no_panic (f x)) \<Longrightarrow> no_panic (io_bind m f)"
  by (auto simp: no_panic_def io_bind_Inl)

lemma no_panic_basic [calm_intros]:
  "no_panic (io_return x)" "no_panic now_of" "e \<noteq> AuthFailure Argon2Panic \<Longrightarrow> no_panic (io_fail e)"
  "no_panic m \<Longrightarrow> no_panic m' \<Longrightarrow> no_panic (if c then m else m')"
  by (simp_all add: no_panic_def io_return_def now_of_def io_fail_def)

lemma no_panic_query: "(\<And>d. f d \<noteq> Inl (AuthFailure Argon2Panic)) \<Longrightarrow> no_panic (query f)"
  by (auto simp: no_panic_def query_def split: prod.splits)

lemma no_panic_exec: "(\<And>d. f d \<noteq> Inl (AuthFailure Argon2Panic)) \<Longrightarrow> no_panic (exec f)"
  by (fastforce simp: no_panic_def exec_def split: prod.splits sum.splits)

lemma no_panic_transaction [calm_intros]: "no_panic m \<Longrightarrow> no_panic (transaction m)"
proof -
  have d: "no_panic driver_point" unfolding driver_point_def by (rule no_panic_query) simp
  assume "no_panic m"
  then have "no_panic (io_bind m (\<lambda>x. io_bind driver_point (\<lambda>_. io_return x)))"
    by (intro calm_intros d)
  then show ?thesis
    using d unfolding no_panic_def transaction_def by (auto split: prod.splits sum.splits)
qed

lemma no_panic_statements [calm_intros]:
  "no_panic driver_point" "no_panic (sql_insert_user a b c d e f)" "no_panic (sql_update_user i n p z t)"
  "no_panic (sql_delete_user_groups i)" "no_panic (sql_insert_user_group i g)" "no_panic (sql_user_by_id i)"
  "no_panic (sql_user_groups i)" "no_panic (sql_user_by_name n)" "no_panic (sql_group_by_id i)" "no_panic sql_users"
  "no_panic sql_groups" "no_panic (sql_group_members i)" "no_panic (sql_delete_user i)" "no_panic (sql_delete_group i)"
  "no_panic (sql_insert_group n p)" "no_panic (sql_update_group i n p)" "no_panic (sql_upsert_base_dn n)"
  unfolding driver_point_def sql_insert_user_def sql_update_user_def sql_delete_user_groups_def sql_insert_user_group_def
    sql_user_by_id_def sql_user_groups_def sql_user_by_name_def sql_group_by_id_def sql_users_def sql_groups_def
    sql_group_members_def sql_delete_user_def sql_delete_group_def sql_insert_group_def sql_update_group_def
    sql_upsert_base_dn_def
  by (rule no_panic_query no_panic_exec; auto simp: first_row_def split: option.splits)+

lemma no_panic_assign [calm_intros]: "no_panic (assignGroupsTx i names)"
proof -
  have look: "no_panic (\<lambda>w. case sql_group_by_name name w of (Inl e, w) \<Rightarrow> (Inl (GroupLookup name e), w)
      | (Inr r, w) \<Rightarrow> (Inr (gr_id r), w))" for name
    by (auto simp: no_panic_def split: prod.splits sum.splits)
  have "no_panic (assign_names i ns)" for ns
    by (induction ns) (auto intro!: calm_intros look)
  then show ?thesis by (simp add: assignGroupsTx_def)
qed

lemma no_panic_reads [calm_intros]:
  "no_panic (userGroups i)" "no_panic (groupMembers i)" "no_panic (GetUserByID i)" "no_panic (getUserTx i)"
  unfolding GetUserByID_def getUserTx_def scanUser_def userGroups_def groupMembers_def by (intro calm_intros)+

lemma no_panic_hash [calm_intros]: "panics_on_zero idkey \<Longrightarrow> no_panic (hash_password idkey p)"
  by (fastforce simp: no_panic_def hash_password_def HashPassword_def panics_on_zero_def argonTime_def argonThreads_def
      split: prod.splits sum.splits option.splits)

lemma no_panic_users [calm_intros]:
  assumes "panics_on_zero idkey"
  shows "no_panic (CreateUser idkey input)" "no_panic (UpdateUser idkey i input)"
  unfolding CreateUser_def UpdateUser_def Let_def by (intro calm_intros assms; simp)+

lemma no_panic_Authenticate:
  assumes "panics_on_zero idkey" "db_inv (w_db w)"
  shows "AuthenticateUser idkey name password w \<noteq> (Inl (AuthFailure Argon2Panic), w')"
proof -
  have "\<And>p s t m k l. t \<noteq> 0 \<Longrightarrow> k \<noteq> 0 \<Longrightarrow> idkey p s t m k l \<noteq> None"
    using assms(1) unfolding panics_on_zero_def by blast
  from AuthenticateUser_no_hash_error [of w idkey name password Argon2Panic, OF assms(2) this] show ?thesis by auto
qed

end
