(* ===== verification/Progress.thy ===== *)
theory Progress
  imports First_Start Panic_Free
begin

text \<open>
  No operation panics: every request to the web server gets a response and every LDAP message is served, in
  every state that the program reaches. A handler without a response (\<open>None\<close>) is one whose goroutine
  panicked, which only \<open>argon2.IDKey\<close> can do here, for zero passes or zero threads.
\<close>

section \<open>Requests and messages\<close>

definition answers :: "handler \<Rightarrow> bool" where
  "answers h \<longleftrightarrow> (\<forall>r u w s. \<exists>resp s'. h r u w s = (Some resp, s'))"

lemma answered_Some [simp]: "\<exists>resp s'. answered x = (Some resp, s')"
  by (cases x) (simp add: answered_def)

lemma run_store_no_panic: "no_panic m \<Longrightarrow> run_store m s \<noteq> (Inl (AuthFailure Argon2Panic), s')"
  by (auto simp: no_panic_def run_store_def split: prod.splits)

lemma reading_answers: "reading h \<Longrightarrow> answers h"
  by (erule reading.cases) (simp_all add: answers_def handleUsersPage_def handleGroupsPage_def)

lemma changing_answers:
  assumes "panics_on_zero idkey" "changing idkey et h"
  shows "answers h"
  using assms(2)
proof cases
  case 2
  then show ?thesis
    using run_store_no_panic [OF no_panic_users(1) [OF assms(1)]]
    by (auto simp: answers_def handleCreateUser_def split: option.split prod.split sum.split)
next
  case (3 i)
  then show ?thesis
    using run_store_no_panic [OF no_panic_users(2) [OF assms(1)]]
    by (auto simp: answers_def handleUpdateUser_def split: option.split prod.split sum.split)
qed (auto simp: answers_def handleLogout_def handleDeleteUser_def handleCreateGroup_def handleUpdateGroup_def
    handleDeleteGroup_def handleUpdateBaseDN_def Let_def split: option.split prod.split sum.split)

lemma guard_answers: "answers h \<Longrightarrow> fst (withAdminAuth cfg h r w s) \<noteq> None"
  by (cases rule: withAdminAuth_cases [of cfg h r w s]) (simp_all add: answers_def, metis fst_conv option.distinct(1))

lemma login_answers:
  assumes "panics_on_zero idkey" "db_inv (w_db (wb_world s))"
  shows "fst (handleLogin idkey cfg r w s) \<noteq> None"
  using no_panic_Authenticate [OF assms]
  by (auto simp: handleLogin_def run_store_def Let_def split: option.split prod.split sum.split session_error.split)

lemma request_answered:
  assumes "panics_on_zero idkey" "web_inv s"
  shows "fst (SecureMux idkey et cfg r s) \<noteq> None"
  using SecureMux_routed [of idkey et cfg r s]
proof cases
  case (login_page w)
  then show ?thesis by (auto simp: handleLoginPage_def split: prod.split option.split)
next
  case (login w)
  then show ?thesis using login_answers [OF assms(1)] assms(2) by (simp add: web_inv_def stored_base_def)
qed (use guard_answers reading_answers changing_answers [OF assms(1)] in auto)

lemma bind_answered:
  assumes "panics_on_zero idkey" "db_inv (w_db (sv_world sv))"
  shows "fst (handleBind idkey sv st msg) \<noteq> None"
  using no_panic_Authenticate [OF assms]
  by (auto simp: handleBind_def Let_def split: option.split prod.split sum.split)

lemma message_served:
  assumes "panics_on_zero idkey" "db_inv (w_db (sv_world (sy_server s)))"
  shows "serve_message idkey order pr cfg t i st msg s \<noteq> None"
proof -
  let ?sv = "logRequest pr (set_turn t (sy_server s)) st msg"
  have "db_inv (w_db (sv_world ?sv))" using assms(2) by simp
  then have "fst (handleBind idkey ?sv st msg) \<noteq> None" by (rule bind_answered [OF assms(1)])
  then have "fst (handleMessage idkey order cfg ?sv st msg) \<noteq> None"
    by (auto simp: handleMessage_def Let_def split: prod.split)
  then show ?thesis by (auto simp: serve_message_def Let_def split: prod.split option.split)
qed

section \<open>Property\<close>


text \<open>An open connection after a login on the web page, and an anonymous bind request on it.\<close>

definition demo_connected :: program where
  "demo_connected = with_ldap demo_logged_in (Serve_accept (env_config (\<lambda>_. [])) ''10.0.0.2:4712'' (ldap_view demo_logged_in))"

definition demo_bind :: bytes where
  "demo_bind = [48, 12, 2, 1, 1, 96, 7, 2, 1, 3, 4, 0, 128, 0]"

definition demo_turn :: turn where
  "demo_turn = \<lparr>t_deadline_ok = True, t_write_ok = True, t_now = 8, t_faults = [False, True]\<rparr>"

definition demo_message :: ldapMessage where
  "demo_message = fst (projr (readMessage demo_bind))"


end
