(* ===== verification/Web_Programs.thy ===== *)
theory Web_Programs
  imports Web_Access
begin

text \<open>
  Web requests that run at the same time. \<open>net/http\<close> serves every connection in a goroutine of its own, and
  the handlers share the store, the settings, the sessions and the audit log without a lock around a request.
  Here a handler is a program of atomic actions: one SQL statement, one transaction (the store has a single
  database connection, which a transaction holds until its end), one operation of the session store or of the
  settings, one audit record, one look at the clock. Between two actions of a handler any actions of others may
  happen. A handler that runs alone does what its model in theory \<open>Web_Server\<close> does.
\<close>

section \<open>Programs of actions\<close>

datatype 'a prog = Done 'a | Act "web \<Rightarrow> 'a prog \<times> web"

primrec run_prog :: "'a prog \<Rightarrow> web \<Rightarrow> 'a \<times> web" where
  "run_prog (Done x) = (\<lambda>s. (x, s))"
| "run_prog (Act f) = (\<lambda>s. (\<lambda>(g, s'). g s') (map_prod run_prog id (f s)))"

primrec pbind :: "'a prog \<Rightarrow> ('a \<Rightarrow> 'b prog) \<Rightarrow> 'b prog" where
  "pbind (Done x) k = k x"
| "pbind (Act f) k = Act (\<lambda>s. map_prod (\<lambda>p. pbind p k) id (f s))"

definition atomic :: "(web \<Rightarrow> 'a \<times> web) \<Rightarrow> 'a prog" where
  "atomic f = Act (\<lambda>s. map_prod Done id (f s))"

text \<open>A look at the shared state, a change of it, and one statement or transaction of the store.\<close>

definition peek :: "(web \<Rightarrow> 'a) \<Rightarrow> 'a prog" where
  "peek g = atomic (\<lambda>s. (g s, s))"

definition modify :: "(web \<Rightarrow> web) \<Rightarrow> unit prog" where
  "modify g = atomic (\<lambda>s. ((), g s))"

definition stmt :: "'a io \<Rightarrow> (store_error + 'a) prog" where
  "stmt m = atomic (run_store m)"

definition ebind :: "(store_error + 'a) prog \<Rightarrow> ('a \<Rightarrow> (store_error + 'b) prog) \<Rightarrow> (store_error + 'b) prog" where
  "ebind p k = pbind p (\<lambda>r. case r of Inl e \<Rightarrow> Done (Inl e) | Inr x \<Rightarrow> k x)"

lemma run_Act [simp]: "run_prog (Act f) s = (case f s of (p, s') \<Rightarrow> run_prog p s')"
  by (cases "f s") simp

lemma pbind_Act: "pbind (Act f) k = Act (\<lambda>s. case f s of (p, s') \<Rightarrow> (pbind p k, s'))"
  by (simp add: map_prod_def case_prod_beta)

lemma run_pbind [simp]: "run_prog (pbind p k) s = (case run_prog p s of (x, s') \<Rightarrow> run_prog (k x) s')"
proof (induction p arbitrary: s)
  case (Act f)
  obtain q s' where f: "f s = (q, s')" by fastforce
  then have "(q, s') \<in> range f" by (metis rangeI)
  then have "run_prog (pbind q k) s' = (case run_prog q s' of (x, s') \<Rightarrow> run_prog (k x) s')" using Act by simp
  then show ?case by (simp add: pbind_Act f del: pbind.simps run_prog.simps)
qed simp

lemma run_basic [simp]:
  "run_prog (atomic f) s = f s" "run_prog (peek g) s = (g s, s)" "run_prog (modify h) s = ((), h s)"
  "run_prog (stmt m) s = run_store m s"
  by (simp_all add: atomic_def peek_def modify_def stmt_def map_prod_def case_prod_beta del: run_prog.simps(2))

declare run_prog.simps(2) [simp del]

text \<open>A program that does what a store operation does when it runs alone.\<close>

definition implements :: "(store_error + 'a) prog \<Rightarrow> 'a io \<Rightarrow> bool" where
  "implements p m \<longleftrightarrow> (\<forall>s. run_prog p s = run_store m s)"

named_theorems implements_intros "programs of actions for store operations"

lemma run_store_bind:
  "run_store (io_bind m k) s = (case run_store m s of (Inl e, s') \<Rightarrow> (Inl e, s') | (Inr x, s') \<Rightarrow> run_store (k x) s')"
  by (simp add: run_store_def io_bind_def split: prod.split sum.split)

lemma implements_bind [implements_intros]:
  "implements p m \<Longrightarrow> (\<And>x. implements (f x) (k x)) \<Longrightarrow> implements (ebind p f) (io_bind m k)"
  by (simp add: implements_def ebind_def run_store_bind split: prod.split sum.split)

lemma implements_basic [implements_intros]:
  "implements (stmt m) m" "implements (Done (Inr x)) (io_return x)" "implements (Done (Inl e)) (io_fail e)"
  "implements (Done r) (io_lift r)"
  by (simp_all add: implements_def run_store_def io_return_def io_fail_def io_lift_def)

lemma implements_if [implements_intros]:
  "implements p m \<Longrightarrow> implements p' m' \<Longrightarrow> implements (if c then p else p') (if c then m else m')"
  by simp

section \<open>Store operations\<close>

definition scan_user_p :: "user_row io \<Rightarrow> (store_error + user) prog" where
  "scan_user_p row = ebind (stmt row) (\<lambda>r. ebind (stmt (userGroups (ur_id r))) (\<lambda>gs.
     Done (Inr ((scanned_user r)\<lparr>u_Groups := gs\<rparr>))))"

definition scan_group_p :: "group_row io \<Rightarrow> (store_error + group) prog" where
  "scan_group_p row = ebind (stmt row) (\<lambda>r. ebind (stmt (groupMembers (gr_id r))) (\<lambda>ms.
     Done (Inr ((scanned_group r)\<lparr>g_MemberUIDs := ms\<rparr>))))"

fun add_user_groups_p :: "user list \<Rightarrow> (store_error + user list) prog" where
  "add_user_groups_p [] = Done (Inr [])"
| "add_user_groups_p (u # us) = ebind (stmt (userGroups (u_ID u))) (\<lambda>gs. ebind (add_user_groups_p us) (\<lambda>us.
     Done (Inr (u\<lparr>u_Groups := gs\<rparr> # us))))"

fun add_group_members_p :: "group list \<Rightarrow> (store_error + group list) prog" where
  "add_group_members_p [] = Done (Inr [])"
| "add_group_members_p (g # gs) = ebind (stmt (groupMembers (g_ID g))) (\<lambda>ms. ebind (add_group_members_p gs) (\<lambda>gs.
     Done (Inr (g\<lparr>g_MemberUIDs := ms\<rparr> # gs))))"

definition ListUsers_p :: "(store_error + user list) prog" where
  "ListUsers_p = ebind (stmt sql_users) (\<lambda>rows. add_user_groups_p (map scanned_user rows))"

definition ListGroups_p :: "(store_error + group list) prog" where
  "ListGroups_p = ebind (stmt sql_groups) (\<lambda>rows. add_group_members_p (map scanned_group rows))"

definition CreateUser_p :: "idkey \<Rightarrow> user_input \<Rightarrow> (store_error + user) prog" where
  "CreateUser_p idkey input =
     (if trim_space (in_Username input) = [] \<or> trim_space (in_Password input) = [] then Done (Inl CredentialsRequired)
      else
        ebind (stmt (hash_password idkey (in_Password input))) (\<lambda>passwordHash.
        ebind (stmt now_of) (\<lambda>now.
        ebind (stmt (transaction
          (io_bind (sql_insert_user (trim_space (in_Username input)) passwordHash
              (displayOrUsername (in_DisplayName input) (in_Username input)) (boolInt (in_Disabled input)) now now) (\<lambda>userID.
           io_bind driver_point (\<lambda>_.
           io_bind (assignGroupsTx userID (in_GroupNames input)) (\<lambda>_.
           io_return userID)))))) (\<lambda>userID.
        scan_user_p (sql_user_by_id userID)))))"

definition UpdateUser_p :: "idkey \<Rightarrow> int \<Rightarrow> user_input \<Rightarrow> (store_error + user) prog" where
  "UpdateUser_p idkey user_id input =
     ebind (stmt (transaction
       (io_bind (getUserTx user_id) (\<lambda>current.
        io_bind (if trim_space (in_Password input) \<noteq> [] then hash_password idkey (in_Password input)
                 else io_return (u_PasswordHash current)) (\<lambda>passwordHash.
        let trimmed = trim_space (in_DisplayName input);
            displayName = (if trimmed \<noteq> [] then trimmed else u_DisplayName current)
        in io_bind now_of (\<lambda>now.
           io_bind (sql_update_user user_id displayName passwordHash (boolInt (in_Disabled input)) now) (\<lambda>_.
           io_bind (sql_delete_user_groups user_id) (\<lambda>_.
           assignGroupsTx user_id (in_GroupNames input))))))))) (\<lambda>_.
     scan_user_p (sql_user_by_id user_id))"

definition CreateGroup_p :: "group_input \<Rightarrow> (store_error + group) prog" where
  "CreateGroup_p input =
     (if trim_space (in_Name input) = [] then Done (Inl GroupNameRequired)
      else
        ebind (stmt (sql_insert_group (trim_space (in_Name input)) (trim_space (in_Description input)))) (\<lambda>group_id.
        ebind (stmt driver_point) (\<lambda>_.
        scan_group_p (sql_group_by_id group_id))))"

definition UpdateGroup_p :: "int \<Rightarrow> group_input \<Rightarrow> (store_error + group) prog" where
  "UpdateGroup_p group_id input =
     (if trim_space (in_Name input) = [] then Done (Inl GroupNameRequired)
      else
        ebind (stmt (sql_update_group group_id (trim_space (in_Name input)) (trim_space (in_Description input)))) (\<lambda>_.
        scan_group_p (sql_group_by_id group_id)))"

definition AuthenticateUser_p :: "idkey \<Rightarrow> string \<Rightarrow> string \<Rightarrow> (store_error + user) prog" where
  "AuthenticateUser_p idkey username password =
     ebind (scan_user_p (sql_user_by_name username)) (\<lambda>u.
     ebind (Done (case VerifyPassword idkey (u_PasswordHash u) password of
                    Inl e \<Rightarrow> Inl (AuthFailure e) | Inr ok \<Rightarrow> Inr ok)) (\<lambda>ok.
     if \<not> ok then Done (Inl NoRows) else Done (Inr u)))"

definition SetBaseDN_p :: "string \<Rightarrow> (store_error + unit) prog" where
  "SetBaseDN_p dn = ebind (Done (case NormalizeBaseDN dn of Inl e \<Rightarrow> Inl (BadBaseDN e) | Inr n \<Rightarrow> Inr n)) (\<lambda>n.
     stmt (sql_upsert_base_dn n))"

lemma implements_operations [implements_intros]:
  "implements (scan_user_p row) (scanUser row)" "implements (scan_group_p grow) (scanGroup grow)"
  "implements (scan_user_p (sql_user_by_id i)) (GetUserByID i)" "implements (scan_user_p (sql_user_by_name n)) (GetUserByUsername n)"
  "implements (scan_group_p (sql_group_by_id i)) (GetGroupByID i)"
  unfolding scan_user_p_def scanUser_def scan_group_p_def scanGroup_def GetUserByID_def GetUserByUsername_def GetGroupByID_def
  by (intro implements_intros)+

lemma implements_lists [implements_intros]:
  "implements ListUsers_p ListUsers" "implements ListGroups_p ListGroups"
proof -
  have "implements (add_user_groups_p us) (add_user_groups us)" for us
    by (induction us) (auto intro!: implements_intros)
  then show "implements ListUsers_p ListUsers"
    unfolding ListUsers_p_def ListUsers_def by (intro implements_intros)
  have "implements (add_group_members_p gs) (add_group_members gs)" for gs
    by (induction gs) (auto intro!: implements_intros)
  then show "implements ListGroups_p ListGroups"
    unfolding ListGroups_p_def ListGroups_def by (intro implements_intros)
qed

lemma implements_changes [implements_intros]:
  "implements (CreateUser_p idkey input) (CreateUser idkey input)"
  "implements (UpdateUser_p idkey i input) (UpdateUser idkey i input)"
  "implements (CreateGroup_p g) (CreateGroup g)" "implements (UpdateGroup_p i g) (UpdateGroup i g)"
  "implements (AuthenticateUser_p idkey n p) (AuthenticateUser idkey n p)"
  "implements (SetBaseDN_p dn) (store_SetBaseDN dn)"
  unfolding CreateUser_p_def CreateUser_def UpdateUser_p_def UpdateUser_def CreateGroup_p_def CreateGroup_def UpdateGroup_p_def
    UpdateGroup_def AuthenticateUser_p_def AuthenticateUser_def SetBaseDN_p_def store_SetBaseDN_def normalize_base_def
  by (intro implements_intros)+

section \<open>Handlers\<close>

type_synonym handler_p = "request \<Rightarrow> user \<Rightarrow> response \<Rightarrow> response option prog"

definition currentUser_p :: "request \<Rightarrow> (user \<times> string) option prog" where
  "currentUser_p r =
     (case map_of (rq_cookies r) sessionCookieName of
        None \<Rightarrow> Done None
      | Some sid \<Rightarrow>
          pbind (atomic (\<lambda>s. case session_Get (wb_sessions s) (wb_now s) (wb_now s) sid of
             (res, ss) \<Rightarrow> (res, s\<lparr>wb_sessions := ss\<rparr>))) (\<lambda>res.
          case res of
            None \<Rightarrow> Done None
          | Some sess \<Rightarrow>
              pbind (scan_user_p (sql_user_by_name (sess_Username sess))) (\<lambda>u.
              case u of
                Inl _ \<Rightarrow> pbind (modify (revoke (sess_Username sess))) (\<lambda>_. Done None)
              | Inr user \<Rightarrow>
                  if u_Disabled user then pbind (modify (revoke (sess_Username sess))) (\<lambda>_. Done None)
                  else Done (Some (user, sess_ID sess)))))"

definition refusal :: "request \<Rightarrow> response \<Rightarrow> response" where
  "refusal r w = (if rq_method r = ''GET'' then Redirect ''/login'' 303 (clearSessionCookie r w)
     else http_Error ''forbidden'' 403 (clearSessionCookie r w))"

definition withAdminAuth_p :: "config \<Rightarrow> handler_p \<Rightarrow> request \<Rightarrow> response \<Rightarrow> response option prog" where
  "withAdminAuth_p cfg next r w =
     pbind (currentUser_p r) (\<lambda>c.
     case c of
       None \<Rightarrow> Done (Some (refusal r w))
     | Some (user, sessionID) \<Rightarrow>
         if \<not> IsMemberOf user [''admins''] then Done (Some (refusal r w))
         else pbind (peek (\<lambda>s. setSessionCookie cfg s r sessionID w)) (next r user))"

definition renderUsersPanel_p :: "request \<Rightarrow> user \<Rightarrow> int \<Rightarrow> response \<Rightarrow> response option prog" where
  "renderUsersPanel_p r current status w =
     pbind ListUsers_p (\<lambda>us.
     case us of
       Inl _ \<Rightarrow> Done (Some (http_Error ''failed to load users'' 500 w))
     | Inr users \<Rightarrow>
         pbind ListGroups_p (\<lambda>gs.
         case gs of
           Inl _ \<Rightarrow> Done (Some (http_Error ''failed to load groups'' 500 w))
         | Inr groups \<Rightarrow>
             pbind (peek web_baseDN) (\<lambda>b.
             Done (Some (render (if htmxRequest r then ''users_panel.html'' else ''users.html'')
               (page ''Users'' [] (Some current) users groups b ''users'') status w)))))"

definition nil_p :: "(store_error + 'a list) prog \<Rightarrow> 'a list prog" where
  "nil_p p = pbind p (\<lambda>r. Done (case r of Inl _ \<Rightarrow> [] | Inr xs \<Rightarrow> xs))"

definition renderUsersPanelError_p :: "request \<Rightarrow> user \<Rightarrow> string \<Rightarrow> int \<Rightarrow> response \<Rightarrow> response option prog" where
  "renderUsersPanelError_p r current message status w =
     pbind (nil_p ListUsers_p) (\<lambda>users.
     pbind (nil_p ListGroups_p) (\<lambda>groups.
     pbind (peek web_baseDN) (\<lambda>b.
     Done (Some (render (if htmxRequest r then ''users_panel.html'' else ''users.html'')
       (page ''Users'' message (Some current) users groups b ''users'') status w)))))"

definition renderGroupsPanel_p :: "request \<Rightarrow> user \<Rightarrow> int \<Rightarrow> response \<Rightarrow> response option prog" where
  "renderGroupsPanel_p r current status w =
     pbind ListGroups_p (\<lambda>gs.
     case gs of
       Inl _ \<Rightarrow> Done (Some (http_Error ''failed to load groups'' 500 w))
     | Inr groups \<Rightarrow>
         pbind (peek web_baseDN) (\<lambda>b.
         Done (Some (render (chooseTemplate r ''groups.html'' ''groups_panel.html'')
           (page ''Groups'' [] (Some current) [] groups b ''groups'') status w))))"

definition renderGroupsPanelError_p :: "request \<Rightarrow> user \<Rightarrow> string \<Rightarrow> int \<Rightarrow> response \<Rightarrow> response option prog" where
  "renderGroupsPanelError_p r current message status w =
     pbind (nil_p ListGroups_p) (\<lambda>groups.
     pbind (peek web_baseDN) (\<lambda>b.
     Done (Some (render (chooseTemplate r ''groups.html'' ''groups_panel.html'')
       (page ''Groups'' message (Some current) [] groups b ''groups'') status w))))"

definition renderPanelForView_p :: "request \<Rightarrow> user \<Rightarrow> string \<Rightarrow> string \<Rightarrow> int \<Rightarrow> response \<Rightarrow> response option prog" where
  "renderPanelForView_p r current view message status w =
     (if to_lower (trim_space view) = ''groups'' then
        (if message = [] then renderGroupsPanel_p r current status w else renderGroupsPanelError_p r current message status w)
      else
        (if message = [] then renderUsersPanel_p r current status w else renderUsersPanelError_p r current message status w))"

definition handleLoginPage_p :: "request \<Rightarrow> response \<Rightarrow> response option prog" where
  "handleLoginPage_p r w = pbind (currentUser_p r) (\<lambda>c.
     Done (Some (case c of Some _ \<Rightarrow> Redirect ''/users'' 303 w | None \<Rightarrow> render ''login.html'' (login_page []) 200 w)))"

definition login_answer :: "request \<Rightarrow> string \<Rightarrow> string \<Rightarrow> response \<Rightarrow> response option prog" where
  "login_answer r username result w = pbind (modify (\<lambda>s. audit_login s r username result)) (\<lambda>_. Done (Some w))"

text \<open>\<open>sessions.Create\<close>: the random bytes are read under the lock of the session store.\<close>

definition create_session :: "user \<Rightarrow> web \<Rightarrow> (session_error + session) \<times> web" where
  "create_session user s =
     (let (token, world) = take_random (wb_world s);
          (created, ss) = session_Create (wb_sessions s) (wb_now s) token (wb_now s) (u_Username user)
      in (created, s\<lparr>wb_world := (if created = Inl ErrSessionLimit then wb_world s else world), wb_sessions := ss\<rparr>))"

definition handleLogin_p :: "idkey \<Rightarrow> config \<Rightarrow> request \<Rightarrow> response \<Rightarrow> response option prog" where
  "handleLogin_p idkey cfg r w =
     (case rq_form r of
        None \<Rightarrow> Done (Some (http_Error ''invalid form submission'' 400 w))
      | Some form \<Rightarrow>
          let username = trim_space (Form_Get form ''username'');
              password = Form_Get form ''password''
          in pbind (AuthenticateUser_p idkey username password) (\<lambda>res.
             case res of
               Inl err \<Rightarrow>
                 if err = AuthFailure Argon2Panic then Done None
                 else login_answer r username ''invalid_credentials'' (render ''login.html'' (login_page ''Invalid credentials.'') 401 w)
             | Inr user \<Rightarrow>
                 if u_Disabled user then
                   login_answer r username ''user_disabled'' (render ''login.html'' (login_page ''User is disabled.'') 403 w)
                 else if \<not> IsMemberOf user [''admins''] then
                   login_answer r username ''forbidden'' (render ''login.html''
                     (login_page ''Only members of the admins group may access the web UI.'') 403 w)
                 else
                   pbind (atomic (create_session user)) (\<lambda>created.
                   case created of
                     Inl ErrSessionLimit \<Rightarrow>
                       login_answer r username ''session_limit''
                         (render ''login.html'' (login_page ''The global session limit has been reached.'') 429 w)
                   | Inl RandFailed \<Rightarrow> Done (Some (http_Error ''unable to create session'' 500 w))
                   | Inr sess \<Rightarrow>
                       pbind (modify (\<lambda>s. audit_login s r username ''success'')) (\<lambda>_.
                       pbind (peek (\<lambda>s. setSessionCookie cfg s r (sess_ID sess) w)) (\<lambda>w.
                       Done (Some (Redirect ''/users'' 303 w))))))) "

definition handleLogout_p :: handler_p where
  "handleLogout_p r current w =
     (case map_of (rq_cookies r) sessionCookieName of
        None \<Rightarrow> Done (Some (Redirect ''/login'' 303 (clearSessionCookie r w)))
      | Some sid \<Rightarrow> pbind (modify (\<lambda>s. s\<lparr>wb_sessions := session_Delete (wb_sessions s) sid\<rparr>)) (\<lambda>_.
          Done (Some (Redirect ''/login'' 303 (clearSessionCookie r w)))))"

definition handleUsersPage_p :: handler_p where
  "handleUsersPage_p r current w = renderUsersPanel_p r current 200 w"

definition handleGroupsPage_p :: handler_p where
  "handleGroupsPage_p r current w = renderGroupsPanel_p r current 200 w"

definition handleCreateUser_p :: "idkey \<Rightarrow> error_texts \<Rightarrow> handler_p" where
  "handleCreateUser_p idkey error_text r current w =
     (case rq_form r of
        None \<Rightarrow> Done (Some (http_Error ''invalid form submission'' 400 w))
      | Some form \<Rightarrow>
          pbind (CreateUser_p idkey (form_input form)) (\<lambda>res.
          case res of
            Inl err \<Rightarrow> if err = AuthFailure Argon2Panic then Done None
                       else renderUsersPanelError_p r current (error_text err) 400 w
          | Inr _ \<Rightarrow> renderUsersPanel_p r current 201 w))"

definition handleUpdateUser_p :: "idkey \<Rightarrow> error_texts \<Rightarrow> string \<Rightarrow> handler_p" where
  "handleUpdateUser_p idkey error_text pid r current w =
     (case parse_id pid of
        None \<Rightarrow> Done (Some (http_Error ''invalid user id'' 400 w))
      | Some user_id \<Rightarrow>
          (case rq_form r of
             None \<Rightarrow> Done (Some (http_Error ''invalid form submission'' 400 w))
           | Some form \<Rightarrow>
               pbind (UpdateUser_p idkey user_id ((form_input form)\<lparr>in_Username := []\<rparr>)) (\<lambda>res.
               case res of
                 Inl err \<Rightarrow> if err = AuthFailure Argon2Panic then Done None
                            else renderUsersPanelError_p r current (error_text err) 400 w
               | Inr updated \<Rightarrow> pbind (modify (revoke (u_Username updated))) (\<lambda>_. renderUsersPanel_p r current 200 w))))"

definition handleDeleteUser_p :: "error_texts \<Rightarrow> string \<Rightarrow> handler_p" where
  "handleDeleteUser_p error_text pid r current w =
     (case parse_id pid of
        None \<Rightarrow> Done (Some (http_Error ''invalid user id'' 400 w))
      | Some user_id \<Rightarrow>
          pbind (scan_user_p (sql_user_by_id user_id)) (\<lambda>u.
          pbind (case u of Inr user \<Rightarrow> modify (revoke (u_Username user)) | Inl _ \<Rightarrow> Done ()) (\<lambda>_.
          pbind (stmt (sql_delete_user user_id)) (\<lambda>res.
          case res of
            Inl err \<Rightarrow> renderUsersPanelError_p r current (error_text err) 400 w
          | Inr _ \<Rightarrow> renderUsersPanel_p r current 200 w))))"

definition handleCreateGroup_p :: "error_texts \<Rightarrow> handler_p" where
  "handleCreateGroup_p error_text r current w =
     (case rq_form r of
        None \<Rightarrow> Done (Some (http_Error ''invalid form submission'' 400 w))
      | Some form \<Rightarrow>
          pbind (CreateGroup_p (form_group form)) (\<lambda>res.
          case res of
            Inl err \<Rightarrow> renderGroupsPanelError_p r current (error_text err) 400 w
          | Inr _ \<Rightarrow> renderGroupsPanel_p r current 201 w))"

fun revoke_all_p :: "string list \<Rightarrow> unit prog" where
  "revoke_all_p [] = Done ()"
| "revoke_all_p (member # members) = pbind (modify (revoke member)) (\<lambda>_. revoke_all_p members)"

definition handleUpdateGroup_p :: "error_texts \<Rightarrow> string \<Rightarrow> handler_p" where
  "handleUpdateGroup_p error_text pid r current w =
     (case parse_id pid of
        None \<Rightarrow> Done (Some (http_Error ''invalid group id'' 400 w))
      | Some group_id \<Rightarrow>
          (case rq_form r of
             None \<Rightarrow> Done (Some (http_Error ''invalid form submission'' 400 w))
           | Some form \<Rightarrow>
               pbind (UpdateGroup_p group_id (form_group form)) (\<lambda>res.
               case res of
                 Inl err \<Rightarrow> renderGroupsPanelError_p r current (error_text err) 400 w
               | Inr updated \<Rightarrow> pbind (revoke_all_p (g_MemberUIDs updated)) (\<lambda>_. renderGroupsPanel_p r current 200 w))))"

definition handleDeleteGroup_p :: "error_texts \<Rightarrow> string \<Rightarrow> handler_p" where
  "handleDeleteGroup_p error_text pid r current w =
     (case parse_id pid of
        None \<Rightarrow> Done (Some (http_Error ''invalid group id'' 400 w))
      | Some group_id \<Rightarrow>
          pbind (scan_group_p (sql_group_by_id group_id)) (\<lambda>g.
          pbind (case g of Inr grp \<Rightarrow> revoke_all_p (g_MemberUIDs grp) | Inl _ \<Rightarrow> Done ()) (\<lambda>_.
          pbind (stmt (sql_delete_group group_id)) (\<lambda>res.
          case res of
            Inl err \<Rightarrow> renderGroupsPanelError_p r current (error_text err) 400 w
          | Inr _ \<Rightarrow> renderGroupsPanel_p r current 200 w))))"

definition handleUpdateBaseDN_p :: "error_texts \<Rightarrow> handler_p" where
  "handleUpdateBaseDN_p error_text r current w =
     (case rq_form r of
        None \<Rightarrow> Done (Some (http_Error ''invalid form submission'' 400 w))
      | Some form \<Rightarrow>
          let view = Form_Get form ''view''
          in case NormalizeBaseDN (Form_Get form ''base_dn'') of
               Inl err \<Rightarrow> renderPanelForView_p r current view (error_text (BadBaseDN err)) 400 w
             | Inr normalized \<Rightarrow>
                 pbind (SetBaseDN_p normalized) (\<lambda>res.
                 case res of
                   Inl err \<Rightarrow> renderPanelForView_p r current view (error_text err) 500 w
                 | Inr _ \<Rightarrow>
                     pbind (atomic (\<lambda>s. case SetBaseDN (wb_settings s) normalized of
                        (res, settings) \<Rightarrow> (res, s\<lparr>wb_settings := settings\<rparr>))) (\<lambda>res.
                     case res of
                       Inl err \<Rightarrow> renderPanelForView_p r current view (error_text (BadBaseDN err)) 500 w
                     | Inr _ \<Rightarrow> renderPanelForView_p r current view [] 200 w)))"

definition SecureMux_p :: "idkey \<Rightarrow> error_texts \<Rightarrow> config \<Rightarrow> request \<Rightarrow> response option prog" where
  "SecureMux_p idkey error_text cfg r =
     (let w = withHeaders True empty_response; path = rq_path r in
      if is_get r then
        (if has_prefix path ''/assets/'' then Done (Some (w\<lparr>rs_body := AssetFile (drop 8 path)\<rparr>))
         else if path = ''/ca.crt'' then Done (Some (handleCACert w))
         else if path = ''/login'' then handleLoginPage_p r w
         else if path = ''/users'' then withAdminAuth_p cfg handleUsersPage_p r w
         else if path = ''/groups'' then withAdminAuth_p cfg handleGroupsPage_p r w
         else withAdminAuth_p cfg (\<lambda>r current w. Done (Some (Redirect ''/users'' 303 w))) r w)
      else if rq_method r = ''POST'' then
        (if path = ''/login'' then handleLogin_p idkey cfg r w
         else if path = ''/logout'' then withAdminAuth_p cfg handleLogout_p r w
         else if path = ''/users'' then withAdminAuth_p cfg (handleCreateUser_p idkey error_text) r w
         else if path = ''/groups'' then withAdminAuth_p cfg (handleCreateGroup_p error_text) r w
         else Done (Some (http_Error ''Method Not Allowed'' 405 w)))
      else if rq_method r = ''PUT'' then
        (if path = ''/settings/base-dn'' then withAdminAuth_p cfg (handleUpdateBaseDN_p error_text) r w
         else case path_id ''/users/'' path of
           Some i \<Rightarrow> withAdminAuth_p cfg (handleUpdateUser_p idkey error_text i) r w
         | None \<Rightarrow> (case path_id ''/groups/'' path of
             Some i \<Rightarrow> withAdminAuth_p cfg (handleUpdateGroup_p error_text i) r w
           | None \<Rightarrow> Done (Some (http_Error ''Method Not Allowed'' 405 w))))
      else if rq_method r = ''DELETE'' then
        (case path_id ''/users/'' path of
           Some i \<Rightarrow> withAdminAuth_p cfg (handleDeleteUser_p error_text i) r w
         | None \<Rightarrow> (case path_id ''/groups/'' path of
             Some i \<Rightarrow> withAdminAuth_p cfg (handleDeleteGroup_p error_text i) r w
           | None \<Rightarrow> Done (Some (http_Error ''Method Not Allowed'' 405 w))))
      else Done (Some (http_Error ''Method Not Allowed'' 405 w)))"


section \<open>A request that runs alone\<close>

lemma run_implements: "implements p m \<Longrightarrow> run_prog p s = run_store m s"
  by (simp add: implements_def)

lemmas run_operations = implements_operations(3-5) [THEN run_implements] implements_lists [THEN run_implements]
  implements_changes [THEN run_implements]

lemma run_currentUser: "run_prog (currentUser_p r) s = currentUser r s"
  by (simp add: currentUser_p_def currentUser_def run_operations split: option.split prod.split sum.split)

lemma run_nil: "implements p m \<Longrightarrow> run_prog (nil_p p) s = or_nil m s"
  by (simp add: nil_p_def or_nil_def implements_def split: prod.split sum.split)

lemma run_panels:
  "run_prog (renderUsersPanel_p r u st w) s = answered (renderUsersPanel r u st w s)"
  "run_prog (renderUsersPanelError_p r u m st w) s = answered (renderUsersPanelError r u m st w s)"
  "run_prog (renderGroupsPanel_p r u st w) s = answered (renderGroupsPanel r u st w s)"
  "run_prog (renderGroupsPanelError_p r u m st w) s = answered (renderGroupsPanelError r u m st w s)"
  by (simp_all add: renderUsersPanel_p_def renderUsersPanel_def renderUsersPanelError_p_def renderUsersPanelError_def
      renderGroupsPanel_p_def renderGroupsPanel_def renderGroupsPanelError_p_def renderGroupsPanelError_def run_operations
      run_nil [OF implements_lists(1)] run_nil [OF implements_lists(2)] answered_def
      split: prod.split sum.split)

lemma run_view: "run_prog (renderPanelForView_p r u v m st w) s = answered (renderPanelForView r u v m st w s)"
  by (simp add: renderPanelForView_p_def renderPanelForView_def run_panels)

text \<open>A program for a handler.\<close>

definition performs :: "handler_p \<Rightarrow> handler \<Rightarrow> bool" where
  "performs p h \<longleftrightarrow> (\<forall>r u w s. run_prog (p r u w) s = h r u w s)"

lemma run_guard: "performs p h \<Longrightarrow> run_prog (withAdminAuth_p cfg p r w) s = withAdminAuth cfg h r w s"
  by (simp add: performs_def withAdminAuth_p_def withAdminAuth_def run_currentUser refusal_def
      split: prod.split option.split)

lemma run_revoke_all: "run_prog (revoke_all_p ms) s = ((), revoke_all ms s)"
  by (induction ms arbitrary: s) simp_all

lemma performs_handlers:
  "performs handleLogout_p handleLogout" "performs handleUsersPage_p handleUsersPage"
  "performs handleGroupsPage_p handleGroupsPage" "performs (handleCreateUser_p idkey et) (handleCreateUser idkey et)"
  "performs (handleUpdateUser_p idkey et i) (handleUpdateUser idkey et i)"
  "performs (handleDeleteUser_p et i) (handleDeleteUser et i)" "performs (handleCreateGroup_p et) (handleCreateGroup et)"
  "performs (handleUpdateGroup_p et i) (handleUpdateGroup et i)" "performs (handleDeleteGroup_p et i) (handleDeleteGroup et i)"
  "performs (handleUpdateBaseDN_p et) (handleUpdateBaseDN et)"
  "performs (\<lambda>r current w. Done (Some (Redirect ''/users'' 303 w))) (\<lambda>r current w s. (Some (Redirect ''/users'' 303 w), s))"
  by (simp_all add: performs_def handleLogout_p_def handleLogout_def handleUsersPage_p_def handleUsersPage_def
      handleGroupsPage_p_def handleGroupsPage_def handleCreateUser_p_def handleCreateUser_def handleUpdateUser_p_def
      handleUpdateUser_def handleDeleteUser_p_def handleDeleteUser_def handleCreateGroup_p_def handleCreateGroup_def
      handleUpdateGroup_p_def handleUpdateGroup_def handleDeleteGroup_p_def handleDeleteGroup_def DeleteUser_def DeleteGroup_def
      handleUpdateBaseDN_p_def handleUpdateBaseDN_def run_panels run_view run_operations run_revoke_all Let_def
      split: option.split prod.split sum.split)

lemma run_login: "run_prog (handleLogin_p idkey cfg r w) s = handleLogin idkey cfg r w s"
  by (simp add: handleLogin_p_def handleLogin_def run_operations login_answer_def create_session_def Let_def
      split: option.split prod.split sum.split session_error.split)

lemma run_login_page: "run_prog (handleLoginPage_p r w) s = handleLoginPage r w s"
  by (simp add: handleLoginPage_p_def handleLoginPage_def run_currentUser split: option.split prod.split)

lemma run_if: "run_prog p s = a \<Longrightarrow> run_prog q s = b \<Longrightarrow> run_prog (if c then p else q) s = (if c then a else b)"
  by simp

lemma run_option:
  "(\<And>i. run_prog (f i) s = g i) \<Longrightarrow> run_prog p s = a \<Longrightarrow>
     run_prog (case x of Some i \<Rightarrow> f i | None \<Rightarrow> p) s = (case x of Some i \<Rightarrow> g i | None \<Rightarrow> a)"
  by (cases x) simp_all

lemma run_Done: "run_prog (Done x) s = (x, s)"
  by simp

lemma run_SecureMux: "run_prog (SecureMux_p idkey et cfg r) s = SecureMux idkey et cfg r s"
  unfolding SecureMux_p_def SecureMux_def Let_def
  by (rule run_if run_option run_Done run_login run_login_page | rule performs_handlers [THEN run_guard])+

end
