(* ===== verification/Interleaving.thy ===== *)
theory Interleaving
  imports Web_Programs Panic_Free
begin

text \<open>
  Interference between requests: what the actions of the handlers keep of the shared state, whatever others do in
  between, and the states that requests side by side reach.
\<close>

section \<open>Interference\<close>

text \<open>A program is safe when each of its actions keeps the invariant \<open>I\<close> of the shared state, whatever others
  have done in between as long as they keep it too, and its result satisfies \<open>Q\<close>.\<close>

inductive safe :: "(web \<Rightarrow> bool) \<Rightarrow> ('a \<Rightarrow> bool) \<Rightarrow> 'a prog \<Rightarrow> bool" for I Q where
  finished: "Q x \<Longrightarrow> safe I Q (Done x)"
| action: "(\<forall>s. I s \<longrightarrow> I (snd (f s)) \<and> safe I Q (fst (f s))) \<Longrightarrow> safe I Q (Act f)"

inductive_cases safe_ActE: "safe I Q (Act f)"

named_theorems safe_intros "safe programs"

lemma safe_Done [safe_intros]: "Q x \<Longrightarrow> safe I Q (Done x)"
  by (rule finished)

lemma safe_pbind: "safe I Q p \<Longrightarrow> (\<And>x. Q x \<Longrightarrow> safe I R (k x)) \<Longrightarrow> safe I R (pbind p k)"
proof (induction rule: safe.induct)
  case (action f)
  then show ?case unfolding pbind_Act by (intro safe.action) (auto split: prod.split)
qed simp

lemma safe_atomic: "(\<And>s. I s \<Longrightarrow> I (snd (f s)) \<and> Q (fst (f s))) \<Longrightarrow> safe I Q (atomic f)"
  unfolding atomic_def by (rule action) (auto intro: finished)

lemma safe_peek [safe_intros]: "safe I (\<lambda>_. True) (peek g)"
  unfolding peek_def by (rule safe_atomic) simp

lemma safe_modify: "(\<And>s. I s \<Longrightarrow> I (g s)) \<Longrightarrow> safe I (\<lambda>_. True) (modify g)"
  unfolding modify_def by (rule safe_atomic) simp

lemma safe_weaken: "safe I Q p \<Longrightarrow> (\<And>x. Q x \<Longrightarrow> R x) \<Longrightarrow> safe I R p"
  by (induction rule: safe.induct) (auto intro: finished action)

lemma safe_any: "safe I Q p \<Longrightarrow> safe I (\<lambda>_. True) p"
  by (rule safe_weaken) simp_all

text \<open>The result of a store operation: a value that satisfies \<open>Q\<close>, or an error, which is a panic only if
  \<open>IDKey\<close> panics without need. And the result of a handler, likewise.\<close>

definition sound :: "idkey \<Rightarrow> ('a \<Rightarrow> bool) \<Rightarrow> store_error + 'a \<Rightarrow> bool" where
  "sound idkey Q r = (case r of Inl e \<Rightarrow> panics_on_zero idkey \<longrightarrow> e \<noteq> AuthFailure Argon2Panic | Inr x \<Rightarrow> Q x)"

definition replies :: "idkey \<Rightarrow> response option \<Rightarrow> bool" where
  "replies idkey resp \<longleftrightarrow> (panics_on_zero idkey \<longrightarrow> resp \<noteq> None)"

lemma sound_simps [simp]: "sound idkey Q (Inr x) = Q x"
  "sound idkey Q (Inl e) \<longleftrightarrow> (panics_on_zero idkey \<longrightarrow> e \<noteq> AuthFailure Argon2Panic)"
  by (simp_all add: sound_def)

lemma replies_Some [safe_intros, simp]: "replies idkey (Some w)"
  by (simp add: replies_def)

lemma safe_ebind:
  "safe I (sound idkey Q) p \<Longrightarrow> (\<And>x. Q x \<Longrightarrow> safe I (sound idkey R) (k x)) \<Longrightarrow> safe I (sound idkey R) (ebind p k)"
  unfolding ebind_def by (erule safe_pbind) (auto split: sum.split intro: finished)

lemma safe_pbind_any [safe_intros]:
  "safe I (\<lambda>_. True) p \<Longrightarrow> (\<And>x. safe I Q (k x)) \<Longrightarrow> safe I Q (pbind p k)"
  by (rule safe_pbind)

lemma safe_cases [safe_intros]:
  "safe I Q p \<Longrightarrow> safe I Q p' \<Longrightarrow> safe I Q (if c then p else p')"
  "(\<And>x. safe I Q (f x)) \<Longrightarrow> safe I Q p \<Longrightarrow> safe I Q (case opt of Some x \<Rightarrow> f x | None \<Rightarrow> p)"
  "(\<And>e. safe I Q (g e)) \<Longrightarrow> (\<And>x. safe I Q (h x)) \<Longrightarrow> safe I Q (case sm of Inl e \<Rightarrow> g e | Inr x \<Rightarrow> h x)"
  "safe I Q p \<Longrightarrow> safe I Q p' \<Longrightarrow> safe I Q (case se of ErrSessionLimit \<Rightarrow> p | RandFailed \<Rightarrow> p')"
  "(\<And>a b. safe I Q (k a b)) \<Longrightarrow> safe I Q (case pr of (a, b) \<Rightarrow> k a b)"
  by (simp_all split: option.split sum.split prod.split session_error.split)

text \<open>What the handlers rely on: the invariant has consistent tables and a consistent session store, and it is
  kept by whatever keeps these two, by a change of the base DN in memory and by a record in the audit log.\<close>

locale shared_state =
  fixes I :: "web \<Rightarrow> bool"
  assumes tables: "I s \<Longrightarrow> db_inv (w_db (wb_world s))"
    and statement: "I s \<Longrightarrow> db_inv (w_db w) \<Longrightarrow> I (s\<lparr>wb_world := w\<rparr>)"
    and session_store: "I s \<Longrightarrow> session_inv (wb_sessions s)"
    and session_operation: "I s \<Longrightarrow> session_inv ss \<Longrightarrow> ss_timeout ss = ss_timeout (wb_sessions s) \<Longrightarrow>
        ss_max ss = ss_max (wb_sessions s) \<Longrightarrow> I (s\<lparr>wb_sessions := ss\<rparr>)"
    and set_base: "I s \<Longrightarrow> I (s\<lparr>wb_settings := snd (SetBaseDN (wb_settings s) dn)\<rparr>)"
    and logged: "I s \<Longrightarrow> I (audit_login s r u res)"
begin

lemma safe_stmt:
  assumes "keeps db_inv m Q" "panics_on_zero idkey \<Longrightarrow> no_panic m"
  shows "safe I (sound idkey Q) (stmt m)"
  unfolding stmt_def
proof (rule safe_atomic)
  fix s assume s: "I s"
  obtain r w where rw: "m (wb_world s) = (r, w)" by fastforce
  then have "db_inv (w_db w)" "\<And>x. r = Inr x \<Longrightarrow> Q x" using assms(1) tables [OF s] by (auto simp: keeps_def)
  moreover have "panics_on_zero idkey \<Longrightarrow> r \<noteq> Inl (AuthFailure Argon2Panic)" using assms(2) rw by (auto simp: no_panic_def)
  ultimately show "I (snd (run_store m s)) \<and> sound idkey Q (fst (run_store m s))"
    using statement [OF s] rw by (cases r) (auto simp: run_store_def)
qed

lemma revoked: "I s \<Longrightarrow> I (revoke u s)"
  unfolding revoke_def by (rule session_operation) (simp_all add: session_ops_inv session_store)

lemma safe_state_changes [safe_intros]:
  "safe I (\<lambda>_. True) (modify (revoke u))" "safe I (\<lambda>_. True) (modify (\<lambda>s. audit_login s r v res))"
  "safe I (\<lambda>_. True) (modify (\<lambda>s. s\<lparr>wb_sessions := session_Delete (wb_sessions s) sid\<rparr>))"
  by (rule safe_modify; simp add: revoked logged session_operation session_ops_inv session_store)+

lemma safe_lookup [safe_intros]:
  "safe I (\<lambda>_. True) (atomic (\<lambda>s. case session_Get (wb_sessions s) (wb_now s) (wb_now s) sid of (res, ss) \<Rightarrow> (res, s\<lparr>wb_sessions := ss\<rparr>)))"
proof (rule safe_atomic)
  fix s assume s: "I s"
  obtain res ss where g: "session_Get (wb_sessions s) (wb_now s) (wb_now s) sid = (res, ss)" by fastforce
  then have "session_inv ss" "ss_timeout ss = ss_timeout (wb_sessions s)" "ss_max ss = ss_max (wb_sessions s)"
    using session_ops_inv(3) [OF session_store [OF s], of "wb_now s" "wb_now s" sid]
      session_op_limits(5,6) [of "wb_sessions s" "wb_now s" "wb_now s" sid] by simp_all
  then show "I (snd (case session_Get (wb_sessions s) (wb_now s) (wb_now s) sid of (res, ss) \<Rightarrow> (res, s\<lparr>wb_sessions := ss\<rparr>))) \<and> True"
    using session_operation [OF s] g by simp
qed

lemma safe_create [safe_intros]: "safe I (\<lambda>_. True) (atomic (create_session user))"
proof (rule safe_atomic)
  fix s assume s: "I s"
  obtain tok w where t: "take_random (wb_world s) = (tok, w)" by fastforce
  obtain cr ss where c: "session_Create (wb_sessions s) (wb_now s) tok (wb_now s) (u_Username user) = (cr, ss)" by fastforce
  have "w_db w = w_db (wb_world s)" using t by (auto simp: take_random_def split: list.splits)
  then have "I (s\<lparr>wb_world := (if cr = Inl ErrSessionLimit then wb_world s else w)\<rparr>)"
    using statement [OF s] tables [OF s] by simp
  from session_operation [OF this, of ss]
  have "I (s\<lparr>wb_world := (if cr = Inl ErrSessionLimit then wb_world s else w), wb_sessions := ss\<rparr>)"
    using session_ops_inv(4) [OF session_store [OF s], of "wb_now s" tok "wb_now s" "u_Username user"] c
      session_op_limits(7,8) [of "wb_sessions s" "wb_now s" tok "wb_now s" "u_Username user"] by simp
  then show "I (snd (create_session user s)) \<and> True" by (simp add: create_session_def t c)
qed

lemma safe_set_base [safe_intros]:
  "safe I (\<lambda>_. True) (atomic (\<lambda>s. case SetBaseDN (wb_settings s) n of (res, settings) \<Rightarrow> (res, s\<lparr>wb_settings := settings\<rparr>)))"
  by (rule safe_atomic) (use set_base in \<open>auto simp: case_prod_beta\<close>)

text \<open>Statements and transactions.\<close>

lemma safe_queries:
  "safe I (sound idkey (\<lambda>r. loaded_user (scanned_user r))) (stmt (sql_user_by_id i))"
  "safe I (sound idkey (\<lambda>r. loaded_user (scanned_user r))) (stmt (sql_user_by_name n))"
  "safe I (sound idkey (\<lambda>_. True)) (stmt (userGroups j))" "safe I (sound idkey (\<lambda>_. True)) (stmt (groupMembers g))"
  "safe I (sound idkey (\<lambda>_. True)) (stmt (sql_group_by_id g))" "safe I (sound idkey (\<lambda>_. True)) (stmt sql_users)"
  "safe I (sound idkey (\<lambda>_. True)) (stmt sql_groups)"
  by (rule safe_stmt, rule keeps_user_row keeps_intros, rule calm_intros)+

lemma safe_changes:
  "safe I (sound idkey (\<lambda>_. True)) (stmt (sql_delete_user i))" "safe I (sound idkey (\<lambda>_. True)) (stmt (sql_delete_group g))"
  "safe I (sound idkey (\<lambda>_. True)) (stmt driver_point)" "safe I (sound idkey (\<lambda>_. True)) (stmt now_of)"
  by (rule safe_stmt, rule keeps_intros, rule calm_intros)+

lemma safe_hash: "safe I (sound idkey stored_hash) (stmt (hash_password idkey p))"
  by (rule safe_stmt, rule keeps_intros, erule calm_intros)

lemma safe_rows:
  "normalized_base_dn b \<Longrightarrow> safe I (sound idkey (\<lambda>_. True)) (stmt (sql_upsert_base_dn b))"
  "trimmed name \<Longrightarrow> safe I (sound idkey (\<lambda>_. True)) (stmt (sql_insert_group name descr))"
  "trimmed name \<Longrightarrow> safe I (sound idkey (\<lambda>_. True)) (stmt (sql_update_group g name descr))"
  by (rule safe_stmt, erule keeps_intros, rule calm_intros)+

lemma safe_create_user:
  assumes "trim_space (in_Username input) \<noteq> []" "stored_hash phc"
  shows "safe I (sound idkey (\<lambda>_. True)) (stmt (transaction
    (io_bind (sql_insert_user (trim_space (in_Username input)) phc
        (displayOrUsername (in_DisplayName input) (in_Username input)) (boolInt (in_Disabled input)) now now) (\<lambda>userID.
     io_bind driver_point (\<lambda>_. io_bind (assignGroupsTx userID (in_GroupNames input)) (\<lambda>_. io_return userID))))))"
proof (rule safe_stmt)
  have "trimmed (trim_space (in_Username input))" "trimmed (displayOrUsername (in_DisplayName input) (in_Username input))"
    using assms(1) by (simp_all add: trimmed_trim_space trimmed_display)
  then show "keeps db_inv (transaction (io_bind (sql_insert_user (trim_space (in_Username input)) phc
        (displayOrUsername (in_DisplayName input) (in_Username input)) (boolInt (in_Disabled input)) now now) (\<lambda>userID.
     io_bind driver_point (\<lambda>_. io_bind (assignGroupsTx userID (in_GroupNames input)) (\<lambda>_. io_return userID))))) (\<lambda>_. True)"
    unfolding assignGroupsTx_def
    by (intro keeps_transaction keeps_bind [OF keeps_insert_user] keeps_bind [OF keeps_driver_point] keeps_bind [OF keeps_assign]
        keeps_return assms(2) TrueI)
qed (intro calm_intros)

lemma safe_update_user:
  "safe I (sound idkey (\<lambda>_. True)) (stmt (transaction
       (io_bind (getUserTx i) (\<lambda>current.
        io_bind (if trim_space (in_Password input) \<noteq> [] then hash_password idkey (in_Password input)
                 else io_return (u_PasswordHash current)) (\<lambda>passwordHash.
        let trimmed = trim_space (in_DisplayName input);
            displayName = (if trimmed \<noteq> [] then trimmed else u_DisplayName current)
        in io_bind now_of (\<lambda>now.
           io_bind (sql_update_user i displayName passwordHash (boolInt (in_Disabled input)) now) (\<lambda>_.
           io_bind (sql_delete_user_groups i) (\<lambda>_.
           assignGroupsTx i (in_GroupNames input)))))))))"
  by (rule safe_stmt, rule keeps_transaction, rule keeps_update_body) (unfold Let_def, intro calm_intros)

text \<open>Operations.\<close>

lemma safe_scans:
  "safe I (sound idkey loaded_user) (scan_user_p (sql_user_by_id i))"
  "safe I (sound idkey loaded_user) (scan_user_p (sql_user_by_name n))"
  "safe I (sound idkey (\<lambda>_. True)) (scan_group_p (sql_group_by_id g))"
  unfolding scan_user_p_def scan_group_p_def
  by (rule safe_ebind, rule safe_queries, rule safe_ebind, rule safe_queries, rule safe_Done, simp add: loaded_user_def)+

lemma safe_lists:
  "safe I (sound idkey (\<lambda>_. True)) ListUsers_p" "safe I (sound idkey (\<lambda>_. True)) ListGroups_p"
proof -
  have "safe I (sound idkey (\<lambda>_. True)) (add_user_groups_p us)" for us
    by (induction us) (auto intro!: safe_Done safe_ebind [OF safe_queries(3)] safe_ebind)
  then show "safe I (sound idkey (\<lambda>_. True)) ListUsers_p"
    unfolding ListUsers_p_def by (rule safe_ebind [OF safe_queries(6)])
  have "safe I (sound idkey (\<lambda>_. True)) (add_group_members_p gs)" for gs
    by (induction gs) (auto intro!: safe_Done safe_ebind [OF safe_queries(4)] safe_ebind)
  then show "safe I (sound idkey (\<lambda>_. True)) ListGroups_p"
    unfolding ListGroups_p_def by (rule safe_ebind [OF safe_queries(7)])
qed

lemma safe_user_operations:
  "safe I (sound idkey loaded_user) (CreateUser_p idkey input)" "safe I (sound idkey loaded_user) (UpdateUser_p idkey i input)"
proof -
  show "safe I (sound idkey loaded_user) (UpdateUser_p idkey i input)"
    unfolding UpdateUser_p_def by (rule safe_ebind [OF safe_update_user], rule safe_scans)
  show "safe I (sound idkey loaded_user) (CreateUser_p idkey input)"
  proof (cases "trim_space (in_Username input) = [] \<or> trim_space (in_Password input) = []")
    case False
    then have name: "trim_space (in_Username input) \<noteq> []" by simp
    show ?thesis
      unfolding CreateUser_p_def if_not_P [OF False]
      by (rule safe_ebind [OF safe_hash], rule safe_ebind [OF safe_changes(4)],
          rule safe_ebind [OF safe_create_user [OF name]], assumption, rule safe_scans)
  qed (simp add: CreateUser_p_def safe_Done)
qed

lemma safe_group_operations:
  "safe I (sound idkey (\<lambda>_. True)) (CreateGroup_p g)" "safe I (sound idkey (\<lambda>_. True)) (UpdateGroup_p i g)"
  unfolding CreateGroup_p_def UpdateGroup_p_def
  by (auto intro!: safe_Done safe_ebind [OF safe_rows(2)] safe_ebind [OF safe_rows(3)] safe_ebind [OF safe_changes(3)]
      safe_scans trimmed_trim_space)

lemma safe_authenticate: "safe I (sound idkey loaded_user) (AuthenticateUser_p idkey n p)"
  unfolding AuthenticateUser_p_def
proof (rule safe_ebind [OF safe_scans(2)])
  fix u assume u: "loaded_user u"
  show "safe I (sound idkey loaded_user) (ebind (Done (case VerifyPassword idkey (u_PasswordHash u) p of
      Inl e \<Rightarrow> Inl (AuthFailure e) | Inr ok \<Rightarrow> Inr ok)) (\<lambda>ok. if \<not> ok then Done (Inl NoRows) else Done (Inr u)))"
  proof (rule safe_ebind [where Q = "\<lambda>_. True"], rule safe_Done)
    have "\<exists>b. VerifyPassword idkey (u_PasswordHash u) p = Inr b" if "panics_on_zero idkey"
      using VerifyPassword_stored [of "u_PasswordHash u" idkey p] u that unfolding panics_on_zero_def loaded_user_def by blast
    then show "sound idkey (\<lambda>_. True) (case VerifyPassword idkey (u_PasswordHash u) p of
        Inl e \<Rightarrow> Inl (AuthFailure e) | Inr ok \<Rightarrow> Inr ok)"
      by (auto split: sum.split)
  qed (use u in \<open>simp add: safe_Done\<close>)
qed

lemma safe_SetBaseDN: "safe I (sound idkey (\<lambda>_. True)) (SetBaseDN_p dn)"
  unfolding SetBaseDN_p_def
  by (rule safe_ebind [where Q = normalized_base_dn], rule safe_Done)
    (auto split: sum.split dest: NormalizeBaseDN_normalized intro: safe_rows(1))

text \<open>Where the result does not matter.\<close>

lemmas safe_operations [safe_intros] = safe_scans [THEN safe_any] safe_lists [THEN safe_any]
  safe_user_operations [THEN safe_any] safe_group_operations [THEN safe_any] safe_authenticate [THEN safe_any]
  safe_SetBaseDN [THEN safe_any] safe_changes(1,2) [THEN safe_any]

text \<open>Handlers.\<close>

lemma safe_nil [safe_intros]: "safe I (\<lambda>_. True) p \<Longrightarrow> safe I (\<lambda>_. True) (nil_p p)"
  unfolding nil_p_def by (intro safe_intros TrueI)

lemma safe_panels [safe_intros]:
  "safe I (replies idkey) (renderUsersPanel_p r u st w)" "safe I (replies idkey) (renderUsersPanelError_p r u m st w)"
  "safe I (replies idkey) (renderGroupsPanel_p r u st w)" "safe I (replies idkey) (renderGroupsPanelError_p r u m st w)"
  unfolding renderUsersPanel_p_def renderUsersPanelError_p_def renderGroupsPanel_p_def renderGroupsPanelError_p_def
  by (intro safe_intros)+

lemma safe_view [safe_intros]: "safe I (replies idkey) (renderPanelForView_p r u v m st w)"
  unfolding renderPanelForView_p_def by (intro safe_intros)

lemma safe_currentUser [safe_intros]: "safe I (\<lambda>_. True) (currentUser_p r)"
  unfolding currentUser_p_def by (intro safe_intros TrueI)

lemma safe_guard: "(\<And>u w. safe I (replies idkey) (p r u w)) \<Longrightarrow> safe I (replies idkey) (withAdminAuth_p cfg p r w)"
  unfolding withAdminAuth_p_def by (intro safe_intros)

lemma safe_revoke_all [safe_intros]: "safe I (\<lambda>_. True) (revoke_all_p ms)"
  by (induction ms) (auto intro!: safe_intros)

lemma safe_handlers [safe_intros]:
  "safe I (replies idkey) (handleLogout_p r u w)" "safe I (replies idkey) (handleUsersPage_p r u w)"
  "safe I (replies idkey) (handleGroupsPage_p r u w)" "safe I (replies idkey) (handleDeleteUser_p et i r u w)"
  "safe I (replies idkey) (handleCreateGroup_p et r u w)" "safe I (replies idkey) (handleUpdateGroup_p et i r u w)"
  "safe I (replies idkey) (handleDeleteGroup_p et i r u w)" "safe I (replies idkey) (handleUpdateBaseDN_p et r u w)"
  "safe I (replies idkey) (handleLoginPage_p r w)"
  unfolding handleLogout_p_def handleUsersPage_p_def handleGroupsPage_p_def handleDeleteUser_p_def handleCreateGroup_p_def
    handleUpdateGroup_p_def handleDeleteGroup_p_def handleUpdateBaseDN_p_def handleLoginPage_p_def Let_def
  by (intro safe_intros TrueI)+

lemma safe_outcome:
  assumes "safe I (sound idkey Q) p" "\<And>x. safe I (replies idkey) (h x)"
    and "\<And>e. safe I (replies idkey) (g e)"
  shows "safe I (replies idkey) (pbind p (\<lambda>r. case r of
    Inl e \<Rightarrow> if e = AuthFailure Argon2Panic then Done None else g e | Inr x \<Rightarrow> h x))"
  by (rule safe_pbind [OF assms(1)]) (use assms(2,3) in \<open>auto simp: replies_def intro: finished split: sum.split\<close>)

lemma safe_user_handlers [safe_intros]:
  "safe I (replies idkey) (handleCreateUser_p idkey et r u w)"
  "safe I (replies idkey) (handleUpdateUser_p idkey et i r u w)"
  unfolding handleCreateUser_p_def handleUpdateUser_p_def
  by (intro safe_cases safe_Done replies_Some safe_outcome [OF safe_user_operations(1)] safe_outcome [OF safe_user_operations(2)]
      safe_panels safe_pbind_any safe_state_changes)+

lemma safe_login [safe_intros]: "safe I (replies idkey) (handleLogin_p idkey cfg r w)"
  unfolding handleLogin_p_def login_answer_def Let_def
  by (rule safe_cases, rule safe_outcome [OF safe_authenticate]) (intro safe_intros)+

lemma safe_SecureMux: "safe I (replies idkey) (SecureMux_p idkey et cfg r)"
  unfolding SecureMux_p_def Let_def by (intro safe_intros safe_guard)

end

section \<open>Requests side by side\<close>

text \<open>The shared state and the handlers under way. An action of a handler is taken at any time; requests arrive
  at any time, and so do changes of what the environment supplies.\<close>

type_synonym busy = "web \<times> response option prog list"

inductive busy_step :: "idkey \<Rightarrow> error_texts \<Rightarrow> config \<Rightarrow> busy \<Rightarrow> busy \<Rightarrow> bool" for idkey et cfg where
  arrives: "busy_step idkey et cfg (s, ts) (s, ts @ [SecureMux_p idkey et cfg r])"
| acts: "\<lbrakk>i < length ts; ts ! i = Act f; f s = (p, s')\<rbrakk> \<Longrightarrow> busy_step idkey et cfg (s, ts) (s', ts[i := p])"
| environs: "busy_step idkey et cfg (s, ts)
    (s\<lparr>wb_world := (wb_world s)\<lparr>faults := fs, entropy := rnd, w_now := now\<rparr>\<rparr>, ts)"

abbreviation busy_reachable :: "idkey \<Rightarrow> error_texts \<Rightarrow> config \<Rightarrow> busy \<Rightarrow> busy \<Rightarrow> bool" where
  "busy_reachable idkey et cfg \<equiv> (busy_step idkey et cfg)\<^sup>*\<^sup>*"

context shared_state
begin

definition busy_inv :: "idkey \<Rightarrow> busy \<Rightarrow> bool" where
  "busy_inv idkey = (\<lambda>(s, ts). I s \<and> (\<forall>t\<in>set ts. safe I (replies idkey) t))"

lemma busy_inv_step: "busy_step idkey et cfg b b' \<Longrightarrow> busy_inv idkey b \<Longrightarrow> busy_inv idkey b'"
proof (induction rule: busy_step.induct)
  case (arrives s ts r)
  then show ?case by (auto simp: busy_inv_def safe_SecureMux)
next
  case (acts i ts f s p s')
  then have "safe I (replies idkey) (Act f)" "I s" by (auto simp: busy_inv_def dest!: nth_mem)
  then have "I s' \<and> safe I (replies idkey) p" using acts(3) by (auto elim!: safe_ActE)
  then show ?case using acts set_update_subset_insert [of ts i p] by (auto simp: busy_inv_def)
next
  case (environs s ts fs rnd now)
  then show ?case using statement tables by (simp add: busy_inv_def)
qed

lemma busy_reachable_inv:
  assumes "busy_reachable idkey et cfg (s, []) (s', ts)" "I s"
  shows "busy_inv idkey (s', ts)"
  using assms by (induction rule: rtranclp_induct) (auto simp: busy_inv_def dest: busy_inv_step)

lemma busy_shared: "busy_reachable idkey et cfg (s, []) (s', ts) \<Longrightarrow> I s \<Longrightarrow> I s'"
  using busy_reachable_inv by (fastforce simp: busy_inv_def)

lemma busy_replies:
  "busy_reachable idkey et cfg (s, []) (s', ts) \<Longrightarrow> I s \<Longrightarrow> panics_on_zero idkey \<Longrightarrow> Done None \<notin> set ts"
  using busy_reachable_inv [of idkey et cfg s s' ts] by (force simp: busy_inv_def replies_def elim: safe.cases)

end

end
