(* ===== verification/Races.thy ===== *)
theory Races
  imports Interleaving Web_Props
begin

text \<open>
  What holds of web requests that run side by side, and what does not: the invariants of the shared state hold
  under every interleaving, but two changes of the base DN can leave the database and the memory apart, and a
  login can survive the change of the password it was made with.
\<close>

definition shared_ok :: "web \<Rightarrow> web \<Rightarrow> bool" where
  "shared_ok s0 s \<longleftrightarrow> db_inv (w_db (wb_world s)) \<and> session_inv (wb_sessions s) \<and> settings_inv (wb_settings s) \<and>
     audit_extends (wb_audit s0) (wb_audit s) \<and> snd (books s) = snd (books s0)"

lemma audit_extends_trans: "audit_extends a b \<Longrightarrow> audit_extends b c \<Longrightarrow> audit_extends a c"
  by (auto simp: audit_extends_def)

interpretation shared: shared_state "shared_ok s0" for s0
proof unfold_locales
  fix s dn
  show "shared_ok s0 s \<Longrightarrow> shared_ok s0 (s\<lparr>wb_settings := snd (SetBaseDN (wb_settings s) dn)\<rparr>)"
    using settings.step_inv [of "wb_settings s" dn] by (simp add: shared_ok_def books_def)
next
  fix s r u res
  show "shared_ok s0 s \<Longrightarrow> shared_ok s0 (audit_login s r u res)"
    using audit_extends_trans [OF _ audit_extends_login] by (simp add: shared_ok_def books_def audit_login_def)
qed (simp_all add: shared_ok_def books_def)

section \<open>Schedules\<close>

fun act_at :: "busy \<Rightarrow> nat \<Rightarrow> busy" where
  "act_at (s, ts) i = (if i < length ts then
     (case ts ! i of Done x \<Rightarrow> (s, ts) | Act f \<Rightarrow> (case f s of (p, s') \<Rightarrow> (s', ts[i := p]))) else (s, ts))"

definition run_schedule :: "busy \<Rightarrow> nat list \<Rightarrow> busy" where
  "run_schedule = foldl act_at"

lemma act_at_step: "busy_step idkey et cfg b (act_at b i)"
proof -
  obtain s ts where b: "b = (s, ts)" by fastforce
  have stays: "busy_step idkey et cfg (s, ts) (s, ts)"
    using busy_step.environs [where s = s and ts = ts and fs = "faults (wb_world s)" and rnd = "entropy (wb_world s)"
        and now = "w_now (wb_world s)"] by simp
  show ?thesis
  proof (cases "i < length ts")
    case True
    then show ?thesis
      using busy_step.acts [OF True] stays by (cases "ts ! i") (auto simp: b split: prod.split)
  qed (simp add: b stays)
qed

lemma run_schedule_reachable: "busy_reachable idkey et cfg b (run_schedule b is)"
proof (induction "is" arbitrary: b)
  case (Cons i "is")
  have "busy_reachable idkey et cfg (act_at b i) (run_schedule (act_at b i) is)" by (rule Cons)
  then show ?case
    using act_at_step [of idkey et cfg b i] by (simp add: run_schedule_def converse_rtranclp_into_rtranclp)
qed (simp add: run_schedule_def)

lemma arrivals_reachable: "busy_reachable idkey et cfg (s, ts) (s, ts @ map (SecureMux_p idkey et cfg) rs)"
proof (induction rs arbitrary: ts)
  case (Cons r rs)
  have "busy_reachable idkey et cfg (s, ts @ [SecureMux_p idkey et cfg r])
      (s, (ts @ [SecureMux_p idkey et cfg r]) @ map (SecureMux_p idkey et cfg) rs)" by (rule Cons)
  then show ?case using busy_step.arrives [of idkey et cfg s ts r] by (simp add: converse_rtranclp_into_rtranclp)
qed simp

lemma run_alone: "run_prog p s = (x, s') \<Longrightarrow> busy_reachable idkey et cfg (s, ts @ [p]) (s', ts @ [Done x])"
proof (induction p arbitrary: s)
  case (Act f)
  obtain q s1 where f: "f s = (q, s1)" by fastforce
  then have "(q, s1) \<in> range f" by (metis rangeI)
  then have "busy_reachable idkey et cfg (s1, ts @ [q]) (s', ts @ [Done x])" using Act f by simp
  moreover have "busy_step idkey et cfg (s, ts @ [Act f]) (s1, (ts @ [Act f])[length ts := q])"
    by (rule busy_step.acts [where f = f and s = s]) (simp_all add: f)
  ultimately show ?case by (simp add: converse_rtranclp_into_rtranclp)
qed simp

section \<open>Fairness\<close>

text \<open>A handler is a finite tree of actions, so one that gets its turn again and again comes to its end.\<close>

definition ends :: "response option prog \<Rightarrow> bool" where
  "ends p \<longleftrightarrow> (case p of Done _ \<Rightarrow> True | Act _ \<Rightarrow> False)"

definition gets_turns :: "nat \<Rightarrow> (nat \<Rightarrow> busy) \<Rightarrow> bool" where
  "gets_turns i run \<longleftrightarrow> (\<forall>n. \<exists>m\<ge>n. act_at (run m) i = run (Suc m))"

lemma busy_step_thread:
  assumes "busy_step idkey et cfg (s, ts) (s', ts')" "i < length ts"
  shows "length ts \<le> length ts' \<and> (ts' ! i = ts ! i \<or> (\<exists>f. ts ! i = Act f \<and> ts' ! i = fst (f s)))"
  using assms by cases (auto simp: nth_append nth_list_update)

lemma act_at_thread: "i < length ts \<Longrightarrow> ts ! i = Act f \<Longrightarrow> snd (act_at (s, ts) i) ! i = fst (f s)"
  by (auto split: prod.split)

lemma thread_stays:
  assumes step: "\<And>n. busy_step idkey et cfg (run n) (run (Suc n))" and i: "i < length (snd (run k))" and "k \<le> n"
  shows "i < length (snd (run n))"
  using \<open>k \<le> n\<close>
proof (induction rule: dec_induct)
  case (step n)
  then show ?case
    using busy_step_thread [of idkey et cfg "fst (run n)" "snd (run n)" "fst (run (Suc n))" "snd (run (Suc n))" i]
      assms(1) [of n] by simp
qed (rule i)

lemma thread_ends:
  assumes step: "\<And>n. busy_step idkey et cfg (run n) (run (Suc n))" and turns: "gets_turns i run"
    and "i < length (snd (run n))"
  shows "\<exists>m. n \<le> m \<and> ends (snd (run m) ! i)"
proof -
  have "snd (run n) ! i = p \<Longrightarrow> i < length (snd (run n)) \<Longrightarrow> \<exists>m. n \<le> m \<and> ends (snd (run m) ! i)" for p
  proof (induction p arbitrary: n)
    case (Done x)
    then show ?case by (auto simp: ends_def)
  next
    case (Act f)
    let ?ended = "\<exists>m. n \<le> m \<and> ends (snd (run m) ! i)"
    have after: ?ended if "n \<le> m" "snd (run (Suc m)) ! i = fst (f s)" for m s
    proof -
      have "i < length (snd (run (Suc m)))" using thread_stays [OF step Act.prems(2), of "Suc m"] that(1) by simp
      then have "\<exists>m'. Suc m \<le> m' \<and> ends (snd (run m') ! i)"
        using Act.IH [of "f s" "fst (f s)" "Suc m"] that(2) by (simp add: fsts.simps)
      then show ?ended using that(1) by (meson Suc_leD le_trans)
    qed
    have "snd (run m) ! i = Act f \<or> ?ended" if "n \<le> m" for m
      using that
    proof (induction rule: dec_induct)
      case (step m)
      have m: "i < length (snd (run m))" using thread_stays [OF assms(1) Act.prems(2) step.hyps(1)] .
      have "busy_step idkey et cfg (fst (run m), snd (run m)) (fst (run (Suc m)), snd (run (Suc m)))"
        using assms(1) by simp
      from busy_step_thread [OF this m]
      have "snd (run (Suc m)) ! i = Act f \<or> snd (run (Suc m)) ! i = fst (f (fst (run m)))"
        if "snd (run m) ! i = Act f" using that by auto
      then show ?case using step.IH after [OF step.hyps(1)] by blast
    qed (use Act.prems in simp)
    moreover obtain m where m: "n \<le> m" "act_at (run m) i = run (Suc m)" using turns by (auto simp: gets_turns_def)
    moreover have "i < length (snd (run m))" by (rule thread_stays [OF step Act.prems(2) m(1)])
    ultimately have "?ended \<or> snd (run (Suc m)) ! i = fst (f (fst (run m)))"
      using act_at_thread [of i "snd (run m)" f "fst (run m)"] by (metis prod.collapse)
    then show ?ended using after [OF m(1)] by blast
  qed
  with assms(3) show ?thesis by blast
qed

section \<open>Two administrators\<close>

text \<open>Ann's session from two browsers: two changes of the base DN, and a login while the password is changed.\<close>

definition base_request :: "string \<Rightarrow> request" where
  "base_request dn = web_request ''PUT'' ''/settings/base-dn'' [(''nanoldap_session'', ''ab'')] [(''base_dn'', [dn])]"

definition password_request :: request where
  "password_request = web_request ''PUT'' ''/users/1'' [(''nanoldap_session'', ''ab'')]
     [(''password'', [''new'']), (''group'', [''admins''])]"

definition side_by_side :: "web \<Rightarrow> request list \<Rightarrow> nat list \<Rightarrow> busy" where
  "side_by_side s rs = run_schedule (s, map (SecureMux_p web_idkey (\<lambda>_. []) web_config) rs)"

definition answer_status :: "response option prog \<Rightarrow> int option" where
  "answer_status p = (case p of Done (Some w) \<Rightarrow> Some (rs_status w) | _ \<Rightarrow> None)"

definition base_race :: busy where
  "base_race = side_by_side web_demo_in [base_request ''dc=one'', base_request ''dc=two'']
     (replicate 5 0 @ replicate 30 1 @ replicate 30 0)"

definition password_race :: busy where
  "password_race = side_by_side (web_demo_in\<lparr>wb_world := (wb_world web_demo_in)\<lparr>entropy := [Some [1], Some [172]]\<rparr>\<rparr>)
     [login_request, password_request] (replicate 2 0 @ replicate 30 1 @ replicate 30 0)"

lemma side_by_side_reachable:
  "busy_reachable web_idkey (\<lambda>_. []) web_config (s, []) (side_by_side s rs sched)"
  using arrivals_reachable [of web_idkey "\<lambda>_. []" web_config s "[]" rs] run_schedule_reachable
  unfolding side_by_side_def by (fastforce intro: rtranclp_trans)

lemma base_race_end:
  "map answer_status (snd base_race) = [Some 200, Some 200]"
  "map_of (t_settings (w_db (wb_world (fst base_race)))) ''base_dn'' = Some ''dc=two''"
  "BaseDN (wb_settings (fst base_race)) = ''dc=one''"
  by code_simp+

text \<open>For evaluation, the parameters of Argon2 as literals.\<close>

lemma HashPassword_code [code]:
  "HashPassword idkey rnd password =
     (case rnd of None \<Rightarrow> Inl RandError
      | Some salt \<Rightarrow> (case idkey (bytes_of_string password) salt 1 65536 4 32 of
          None \<Rightarrow> Inl Argon2Panic
        | Some hash \<Rightarrow> Inr (''$argon2id$v=19$m=65536,t=1,p=4$'' @ b64_encode salt @ ''$'' @ b64_encode hash)))"
  by (simp add: HashPassword_def format_phc_eq argonTime_def argonMemory_def argonThreads_def argonKeyLen_def
      split: option.split)

lemma password_race_end:
  "map answer_status (snd password_race) = [Some 303, Some 200]"
  "map (map_prod id sess_Username) (sessions (wb_sessions (fst password_race))) = [(''ac'', ''ann'')]"
  "map_option (u_Username \<circ> fst) (fst (currentUser (web_request ''GET'' ''/users'' [(''nanoldap_session'', ''ac'')] [])
     (fst password_race))) = Some ''ann''"
  "fst (AuthenticateUser web_idkey ''ann'' [] (wb_world (fst password_race))) = Inl NoRows"
  by code_simp+

section \<open>Properties\<close>





text \<open>A change of the base DN and a login arrive together and take turns.\<close>

definition turns_run :: "nat \<Rightarrow> busy" where
  "turns_run n = (if n = 0 then (web_demo_in, [])
     else if n = 1 then (web_demo_in, [SecureMux_p web_idkey (\<lambda>_. []) web_config (base_request ''dc=one'')])
     else side_by_side web_demo_in [base_request ''dc=one'', login_request] (map (\<lambda>k. k mod 2) [0..<n - 2]))"

lemma turns_run_step: "busy_step web_idkey (\<lambda>_. []) web_config (turns_run n) (turns_run (Suc n))"
proof -
  consider "n = 0" | "n = 1" | k where "n = k + 2" by (cases n; cases "n - 1") auto
  then show ?thesis
  proof cases
    case 1
    then show ?thesis using busy_step.arrives [where ts = "[]"] by (fastforce simp: turns_run_def)
  next
    case 2
    then show ?thesis
      using busy_step.arrives [where ts = "[SecureMux_p web_idkey (\<lambda>_. []) web_config (base_request ''dc=one'')]"]
      by (fastforce simp: turns_run_def side_by_side_def run_schedule_def)
  next
    case (3 k)
    then have "turns_run (Suc n) = act_at (turns_run n) (k mod 2)"
      by (simp add: turns_run_def side_by_side_def run_schedule_def)
    then show ?thesis by (simp add: act_at_step)
  qed
qed

lemma turns_run_fair: "gets_turns 1 turns_run"
  unfolding gets_turns_def
proof
  fix n
  have "act_at (turns_run (2 * n + 3)) 1 = turns_run (Suc (2 * n + 3))"
    by (simp add: turns_run_def side_by_side_def run_schedule_def)
  then show "\<exists>m\<ge>n. act_at (turns_run m) 1 = turns_run (Suc m)" by (intro exI [of _ "2 * n + 3"]) simp
qed




end
