(* ===== verification/Audit_Text.thy ===== *)
theory Audit_Text
  imports Audit_Log Debug_Trace Text_Case
begin

text \<open>
  The bytes that the audit log writes: each record is the text that \<open>json.Marshal\<close> gives for a map from
  strings to strings, followed by a line break. A reader of JSON strings and objects, written from RFC 8259,
  gets back exactly the fields, with bytes that are not UTF-8 replaced by U+FFFD.
\<close>

section \<open>Strings\<close>

text \<open>One byte below 128 in \<open>appendString\<close> of \<open>encoding/json\<close>, with the HTML characters escaped.\<close>

definition json_escape :: "char \<Rightarrow> string" where
  "json_escape b =
     (if 32 \<le> (of_char b :: nat) \<and> b \<notin> {CHR 0x22, CHR 0x5C, CHR ''<'', CHR ''>'', CHR ''&''} then [b]
      else if b = CHR 0x5C \<or> b = CHR 0x22 then [CHR 0x5C, b]
      else if b = CHR 0x08 then [CHR 0x5C, CHR ''b'']
      else if b = CHR 0x0C then [CHR 0x5C, CHR ''f'']
      else if b = CHR 0x0A then [CHR 0x5C, CHR ''n'']
      else if b = CHR 0x0D then [CHR 0x5C, CHR ''r'']
      else if b = CHR 0x09 then [CHR 0x5C, CHR ''t'']
      else CHR 0x5C # ''u00'' @ [lower_hex (of_char b div 16), lower_hex (of_char b)])"

definition json_chunk :: "rune \<times> string \<Rightarrow> string" where
  "json_chunk = (\<lambda>(r, b).
     if (of_char (hd b) :: nat) < 128 then json_escape (hd b)
     else if r = rune_error \<and> length b = 1 then CHR 0x5C # ''ufffd''
     else if r = 8232 \<or> r = 8233 then CHR 0x5C # ''u202'' @ [lower_hex (nat r)]
     else b)"

definition json_string :: "string \<Rightarrow> string" where
  "json_string s = CHR 0x22 # concat (map json_chunk (segments s)) @ [CHR 0x22]"

text \<open>A string that is valid UTF-8 as it is, and any other with U+FFFD for each offending byte.\<close>

definition valid_text :: "string \<Rightarrow> string" where
  "valid_text s = concat (map encode_rune (runes s))"

section \<open>Reading strings\<close>

definition hex_value :: "char \<Rightarrow> nat option" where
  "hex_value c =
     (let n = of_char c in
      if 48 \<le> n \<and> n \<le> 57 then Some (n - 48) else if 97 \<le> n \<and> n \<le> 102 then Some (n - 87)
      else if 65 \<le> n \<and> n \<le> 70 then Some (n - 55) else None)"

definition hex4 :: "string \<Rightarrow> nat option" where
  "hex4 s = (let ds = map hex_value (take 4 s)
     in if length ds = 4 \<and> None \<notin> set ds then Some (foldl (\<lambda>v d. v * 16 + the d) 0 ds) else None)"

definition json_unescape :: "char \<Rightarrow> char option" where
  "json_unescape = map_of [(CHR 0x22, CHR 0x22), (CHR 0x5C, CHR 0x5C), (CHR ''/'', CHR ''/''), (CHR ''b'', CHR 0x08),
     (CHR ''f'', CHR 0x0C), (CHR ''n'', CHR 0x0A), (CHR ''r'', CHR 0x0D), (CHR ''t'', CHR 0x09)]"

definition prepend :: "string \<Rightarrow> (string \<times> string) option \<Rightarrow> (string \<times> string) option" where
  "prepend s = map_option (\<lambda>(v, r). (s @ v, r))"

text \<open>The rest of a string after its opening quote: the value, and what follows the closing quote.\<close>

function json_unquote :: "string \<Rightarrow> (string \<times> string) option" where
  "json_unquote [] = None"
| "json_unquote (c # cs) =
     (if c = CHR 0x22 then Some ([], cs)
      else if c = CHR 0x5C then
        (case cs of
           [] \<Rightarrow> None
         | e # rest \<Rightarrow>
             if e = CHR ''u'' then
               (case hex4 rest of None \<Rightarrow> None | Some n \<Rightarrow> prepend (encode_rune (int n)) (json_unquote (drop 4 rest)))
             else (case json_unescape e of None \<Rightarrow> None | Some d \<Rightarrow> prepend [d] (json_unquote rest)))
      else if (of_char c :: nat) < 32 then None
      else prepend [c] (json_unquote cs))"
  by pat_completeness auto
termination by (relation "measure length") auto

declare json_unquote.simps(2) [simp del]

lemma prepend_simps [simp]:
  "prepend s None = None" "prepend s (Some (v, r)) = Some (s @ v, r)" "prepend s (prepend t x) = prepend (s @ t) x"
  by (simp_all add: prepend_def split: option.split) (cases x; auto)

lemma json_unquote_close [simp]: "json_unquote (CHR 0x22 # cs) = Some ([], cs)"
  by (simp add: json_unquote.simps)

lemma json_unquote_plain:
  "32 \<le> (of_char c :: nat) \<Longrightarrow> c \<noteq> CHR 0x22 \<Longrightarrow> c \<noteq> CHR 0x5C \<Longrightarrow> json_unquote (c # cs) = prepend [c] (json_unquote cs)"
  by (simp add: json_unquote.simps)

lemma json_unquote_high:
  "\<forall>c\<in>set b. 128 \<le> (of_char c :: nat) \<Longrightarrow> json_unquote (b @ cs) = prepend b (json_unquote cs)"
proof (induction b)
  case Nil
  show ?case by (cases "json_unquote cs") auto
next
  case (Cons c b)
  then have "c \<noteq> CHR 0x22" "c \<noteq> CHR 0x5C" by auto
  then show ?case using Cons by (simp add: json_unquote_plain)
qed

lemma json_unquote_u:
  "length h = 4 \<Longrightarrow> hex4 h = Some n \<Longrightarrow>
     json_unquote (CHR 0x5C # CHR ''u'' # h @ cs) = prepend (encode_rune (int n)) (json_unquote cs)"
  by (auto simp: json_unquote.simps hex4_def Let_def split: if_splits)

lemma json_unquote_simple:
  "json_unescape e = Some d \<Longrightarrow> json_unquote (CHR 0x5C # e # cs) = prepend [d] (json_unquote cs)"
  by (auto simp: json_unquote.simps json_unescape_def)

lemma hex_value_lower_hex [simp]: "hex_value (lower_hex n) = Some (n mod 16)"
proof -
  have "list_all (\<lambda>k. hex_value (lower_hex k) = Some k) [0..<16]" by code_simp
  then have "hex_value (lower_hex (n mod 16)) = Some (n mod 16)" by (simp add: list_all_iff)
  then show ?thesis by (simp add: lower_hex_def)
qed

lemma hex_value_0: "hex_value (CHR ''0'') = Some 0" "hex_value (CHR ''2'') = Some 2"
  by code_simp+

lemma json_unquote_escape:
  assumes "(of_char b :: nat) < 128"
  shows "json_unquote (json_escape b @ cs) = prepend [b] (json_unquote cs)"
proof -
  let ?h = "[CHR ''0'', CHR ''0'', lower_hex (of_char b div 16), lower_hex (of_char b)]"
  have "(of_char b :: nat) div 16 mod 16 = of_char b div 16" using assms by simp
  then have "(of_char b :: nat) div 16 mod 16 * 16 + of_char b mod 16 = of_char b" by (simp only: div_mult_mod_eq)
  then have "hex4 ?h = Some (of_char b)" by (simp add: hex4_def hex_value_0)
  from json_unquote_u [OF _ this, of cs]
  have u: "json_unquote (CHR 0x5C # ''u00'' @ [lower_hex (of_char b div 16), lower_hex (of_char b)] @ cs) = prepend [b] (json_unquote cs)"
    using assms by (simp add: encode_rune_ascii)
  note simple = json_unquote_simple [of _ _ cs, unfolded json_unescape_def]
  consider "32 \<le> (of_char b :: nat) \<and> b \<notin> {CHR 0x22, CHR 0x5C, CHR ''<'', CHR ''>'', CHR ''&''}"
    | "b = CHR 0x5C \<or> b = CHR 0x22" | "b = CHR 0x08" | "b = CHR 0x0C" | "b = CHR 0x0A" | "b = CHR 0x0D" | "b = CHR 0x09"
    | "json_escape b = CHR 0x5C # ''u00'' @ [lower_hex (of_char b div 16), lower_hex (of_char b)]"
    unfolding json_escape_def by argo
  then show ?thesis
  proof cases
    case 1
    then show ?thesis by (simp add: json_escape_def json_unquote_plain)
  next
    case 8
    then show ?thesis using u by simp
  qed (auto simp: json_escape_def simple)
qed

section \<open>Whole strings\<close>

text \<open>Decoding and encoding again gives the bytes that were read, unless they were not UTF-8.\<close>

lemma div_mod_cont:
  "128 \<le> b \<Longrightarrow> b \<le> (191 :: int) \<Longrightarrow> (x * 64 + (b - 128)) div 64 = x"
  "128 \<le> b \<Longrightarrow> b \<le> 191 \<Longrightarrow> (x * 64 + (b - 128)) mod 64 = b - 128"
  by simp_all

lemma cont_div_mod:
  assumes "cont_byte b" "r = x * 64 + (b - 128)"
  shows "r div 64 = x" "r mod 64 = b - 128"
  using assms unfolding assms(2) cont_byte_def by (blast intro: div_mod_cont)+

lemma encode_decode:
  assumes "decode_rune bs = (r, k)" "bs \<noteq> []" "\<not> (r = rune_error \<and> k = 1)" "\<forall>b\<in>set bs. 0 \<le> b"
  shows "encode_rune_bytes r = take k bs"
proof -
  obtain b0 bs' where bs: "bs = b0 # bs'" using assms(2) by (cases bs) auto
  have valid: "valid_rune r" using decode_rune_valid [OF assms(4)] assms(1) by simp
  consider "b0 < 128" "r = b0" "k = 1"
    | b1 t where "194 \<le> b0" "b0 \<le> 223" "bs' = b1 # t" "cont_byte b1" "r = (b0 - 192) * 64 + (b1 - 128)" "k = 2"
    | b1 b2 t where "224 \<le> b0" "b0 \<le> 239" "bs' = b1 # b2 # t" "(if b0 = 224 then 160 else 128) \<le> b1"
        "b1 \<le> (if b0 = 237 then 159 else 191)" "cont_byte b2" "r = (b0 - 224) * 4096 + (b1 - 128) * 64 + (b2 - 128)" "k = 3"
    | b1 b2 b3 t where "240 \<le> b0" "b0 \<le> 244" "bs' = b1 # b2 # b3 # t" "(if b0 = 240 then 144 else 128) \<le> b1"
        "b1 \<le> (if b0 = 244 then 143 else 191)" "cont_byte b2" "cont_byte b3"
        "r = (b0 - 240) * 262144 + (b1 - 128) * 4096 + (b2 - 128) * 64 + (b3 - 128)" "k = 4"
    using assms(1,3) unfolding bs decode_rune.simps by (auto split: if_splits list.splits)
  then show ?thesis
  proof cases
    case 1
    then show ?thesis using assms(4) by (simp add: bs encode_rune_bytes_def)
  next
    case 2
    then have "128 \<le> r" "r < 2048" by (simp_all add: cont_byte_def)
    then show ?thesis using 2 cont_div_mod [OF 2(4,5)] by (simp add: bs encode_rune_bytes_def)
  next
    case 3
    have r: "r = ((b0 - 224) * 64 + (b1 - 128)) * 64 + (b2 - 128)" using 3(7) by simp
    have b1: "cont_byte b1" using 3(4,5) by (simp add: cont_byte_def split: if_splits)
    have "2048 \<le> r" "r < 65536" using 3 b1 by (auto simp: cont_byte_def split: if_splits)
    then have enc: "encode_rune_bytes r = [224 + r div 64 div 64, 128 + r div 64 mod 64, 128 + r mod 64]"
      using valid by (simp add: encode_rune_bytes_def div_64_div_64)
    show ?thesis
      unfolding enc cont_div_mod [OF 3(6) r] cont_div_mod [OF b1 refl, of "b0 - 224"] bs 3(3) \<open>k = 3\<close>
      by (simp add: numeral_eq_Suc)
  next
    case 4
    have r: "r = (((b0 - 240) * 64 + (b1 - 128)) * 64 + (b2 - 128)) * 64 + (b3 - 128)" using 4(8) by simp
    have b1: "cont_byte b1" using 4(4,5) by (simp add: cont_byte_def split: if_splits)
    have "65536 \<le> r" using 4 b1 by (auto simp: cont_byte_def split: if_splits)
    then have enc: "encode_rune_bytes r = [240 + r div 64 div 64 div 64, 128 + r div 64 div 64 mod 64, 128 + r div 64 mod 64,
        128 + r mod 64]"
      using valid by (simp add: encode_rune_bytes_def div_64_div_64)
    show ?thesis
      unfolding enc cont_div_mod [OF 4(7) r] cont_div_mod [OF 4(6) refl, of "(b0 - 240) * 64 + (b1 - 128)"]
        cont_div_mod [OF b1 refl, of "b0 - 240"] bs 4(3) \<open>k = 4\<close>
      by (simp add: numeral_eq_Suc)
  qed
qed

text \<open>A segment is an ASCII character, one offending byte, or the encoding of a larger rune.\<close>

lemma segment_cases:
  assumes "decode_rune (byte_vals (c # cs)) = (r, k)" "1 \<le> k"
  obtains (ascii) "(of_char c :: nat) < 128" "r = int (of_char c)" "k = 1"
  | (bad) "\<not> (of_char c :: nat) < 128" "r = rune_error" "k = 1"
  | (wide) "\<not> (of_char c :: nat) < 128" "c # take (k - 1) cs = encode_rune r" "\<forall>x\<in>set (encode_rune r). 128 \<le> (of_char x :: nat)"
      "\<not> (r = rune_error \<and> length (encode_rune r) = 1)"
proof (cases "(of_char c :: nat) < 128")
  case True
  then have "r = int (of_char c)" "k = 1" using assms(1) by (simp_all add: decode_rune_ascii)
  then show ?thesis using ascii True by simp
next
  case high: False
  show ?thesis
  proof (cases "r = rune_error \<and> k = 1")
    case True
    then show ?thesis using bad high by simp
  next
    case False
    have bytes: "byte_vals (c # take (k - 1) cs) = take k (byte_vals (c # cs))"
      using assms(2) by (cases k) (simp_all add: byte_vals_take)
    have "\<forall>b\<in>set (byte_vals (c # cs)). 0 \<le> b" using byte_vals_range [of _ "c # cs"] by blast
    note nonneg = this
    have enc: "encode_rune_bytes r = byte_vals (c # take (k - 1) cs)"
      unfolding bytes by (rule encode_decode [OF assms(1) _ False nonneg]) simp
    then have same: "c # take (k - 1) cs = encode_rune r"
      by (simp add: encode_rune_def byte_vals_def comp_def)
    have pos: "0 \<le> r" using decode_rune_valid [OF nonneg] assms(1) by (simp add: valid_rune_def)
    have "128 \<le> r"
    proof (rule ccontr)
      assume small: "\<not> 128 \<le> r"
      then have "c # take (k - 1) cs = [char_of (nat r)]" using pos same by (simp add: encode_rune_ascii)
      then have "(of_char c :: nat) < 128" using small pos by (simp add: of_char_of take_bit_nat_def)
      then show False using high by simp
    qed
    then have all: "\<forall>b\<in>set (byte_vals (encode_rune r)). 128 \<le> b"
      using encode_rune_high [of r] by (simp add: byte_vals_encode)
    have "k \<le> length (c # cs)" using decode_rune_size [of "byte_vals (c # cs)"] assms(1) by simp
    then have "length (encode_rune r) = k" unfolding same [symmetric] using assms(2) by simp
    then show ?thesis using all False by (intro wide [OF high same]) (auto simp: byte_vals_def)
  qed
qed

lemma json_chunk_wide:
  assumes "\<forall>x\<in>set (encode_rune r). 128 \<le> (of_char x :: nat)" "\<not> (r = rune_error \<and> length (encode_rune r) = 1)"
  shows "json_chunk (r, encode_rune r) =
    (if r = 8232 \<or> r = 8233 then CHR 0x5C # ''u202'' @ [lower_hex (nat r)] else encode_rune r)"
proof -
  have "encode_rune r \<noteq> []" by (simp add: encode_rune_def)
  then have "\<not> (of_char (hd (encode_rune r)) :: nat) < 128" using assms(1) by (simp add: not_less)
  then show ?thesis unfolding json_chunk_def prod.case using assms(2) by argo
qed

lemma json_unquote_chunk:
  assumes "decode_rune (byte_vals (c # cs)) = (r, k)" "1 \<le> k"
  shows "json_unquote (json_chunk (r, c # take (k - 1) cs) @ rest) = prepend (encode_rune r) (json_unquote rest)"
  using assms
proof (cases rule: segment_cases)
  case ascii
  then show ?thesis by (simp add: json_chunk_def json_unquote_escape encode_rune_ascii)
next
  case bad
  have "hex4 [CHR ''f'', CHR ''f'', CHR ''f'', CHR ''d''] = Some 65533" by (simp add: hex4_def hex_value_def)
  from json_unquote_u [OF _ this, of rest] show ?thesis using bad by (simp add: json_chunk_def rune_error_def)
next
  case wide
  show ?thesis
  proof (cases "r = 8232 \<or> r = 8233")
    case True
    then have "hex4 [CHR ''2'', CHR ''0'', CHR ''2'', lower_hex (nat r)] = Some (nat r)" by (auto simp: hex4_def hex_value_0)
    from json_unquote_u [OF _ this, of rest] show ?thesis
      unfolding wide(2) json_chunk_wide [OF wide(3,4)] using True by auto
  next
    case False
    then show ?thesis unfolding wide(2) json_chunk_wide [OF wide(3,4)] using json_unquote_high [OF wide(3)] by simp
  qed
qed

lemma json_unquote_string: "json_unquote (concat (map json_chunk (segments s)) @ CHR 0x22 # rest) = Some (valid_text s, rest)"
proof (induction s rule: segments_induct)
  case (Cons c cs r k)
  show ?case
    unfolding segments_Cons [OF Cons(1)] valid_text_def runes_def
    using json_unquote_chunk [OF Cons(1,2)] Cons(4) by (simp add: valid_text_def runes_def)
qed (simp add: valid_text_def runes_def)

lemma valid_text_ascii: "is_ascii s \<Longrightarrow> valid_text s = s"
  by (simp add: valid_text_def runes_def segments_ascii comp_def)
    (induction s, simp_all add: is_ascii_def encode_rune_ascii)

text \<open>Nothing below a space is ever written inside a string.\<close>

lemma json_escape_visible: "one_line (json_escape b)"
  by (simp add: json_escape_def)

lemma json_chunk_visible:
  assumes "decode_rune (byte_vals (c # cs)) = (r, k)" "1 \<le> k"
  shows "one_line (json_chunk (r, c # take (k - 1) cs))"
  using assms
proof (cases rule: segment_cases)
  case wide
  then show ?thesis unfolding wide(2) json_chunk_wide [OF wide(3,4)]
    by (force simp: one_line_def list_all_iff)
qed (simp_all add: json_chunk_def json_escape_visible)

lemma json_string_visible: "one_line (json_string s)"
proof -
  have "one_line (concat (map json_chunk (segments s)))"
  proof (induction s rule: segments_induct)
    case (Cons c cs r k)
    then show ?case unfolding segments_Cons [OF Cons(1)] using json_chunk_visible [OF Cons(1,2)] by simp
  qed simp
  then show ?thesis by (simp add: json_string_def)
qed

section \<open>Objects\<close>

definition json_pair :: "string \<times> string \<Rightarrow> string" where
  "json_pair = (\<lambda>(k, v). json_string k @ CHR '':'' # json_string v)"

text \<open>\<open>json.Marshal\<close> of a map: the keys in order.\<close>

definition json_object :: "(string \<times> string) list \<Rightarrow> string" where
  "json_object m = CHR ''{'' # join_with '','' (map json_pair (sort_key fst m)) @ ''}''"

lemma json_unquote_shorter: "json_unquote s = Some (v, rest) \<Longrightarrow> length rest < length s"
proof (induction s arbitrary: v rest rule: json_unquote.induct)
  case (2 c cs)
  have sub: "length rest < length (c # cs)"
    if "prepend p (json_unquote t) = Some (v, rest)" "length t \<le> length cs"
      "\<And>v r. json_unquote t = Some (v, r) \<Longrightarrow> length r < length t" for p t
    using that by (cases "json_unquote t") fastforce+
  consider "c = CHR 0x22" | e t where "c = CHR 0x5C" "cs = e # t" "e = CHR ''u''"
    | e t where "c = CHR 0x5C" "cs = e # t" "e \<noteq> CHR ''u''" | "c \<noteq> CHR 0x22" "c \<noteq> CHR 0x5C" "\<not> (of_char c :: nat) < 32"
    using 2(4) by (cases cs) (fastforce simp: json_unquote.simps split: if_splits)+
  then show ?case
  proof cases
    case 1
    then show ?thesis using 2(4) by simp
  next
    case (2 e t)
    then obtain n where "hex4 t = Some n" "prepend (encode_rune (int n)) (json_unquote (drop 4 t)) = Some (v, rest)"
      using \<open>json_unquote (c # cs) = Some (v, rest)\<close> by (auto simp: json_unquote.simps split: option.splits)
    moreover from this have "length r < length (drop 4 t)" if "json_unquote (drop 4 t) = Some (v, r)" for v r
      using "2.IH"(1) [OF _ _ _ _ _ that] 2 by auto
    ultimately show ?thesis using 2 by (intro sub [of "encode_rune (int n)" "drop 4 t"]) simp_all
  next
    case (3 e t)
    then obtain d where "json_unescape e = Some d" "prepend [d] (json_unquote t) = Some (v, rest)"
      using \<open>json_unquote (c # cs) = Some (v, rest)\<close> by (auto simp: json_unquote.simps split: option.splits)
    then show ?thesis using 3 by (intro sub [of "[d]" t]) (auto intro: "2.IH")
  next
    case 4
    then show ?thesis using \<open>json_unquote (c # cs) = Some (v, rest)\<close>
      by (intro sub [of "[c]" cs]) (auto simp: json_unquote_plain intro: "2.IH")
  qed
qed simp

text \<open>A reader of objects whose members are strings, after the opening brace.\<close>

definition read_string :: "string \<Rightarrow> (string \<times> string) option" where
  "read_string s = (case s of c # cs \<Rightarrow> if c = CHR 0x22 then json_unquote cs else None | [] \<Rightarrow> None)"

lemma read_string_shorter: "read_string s = Some (v, rest) \<Longrightarrow> length rest < length s"
  by (auto simp: read_string_def split: list.splits if_splits dest: json_unquote_shorter)

definition read_pair :: "string \<Rightarrow> ((string \<times> string) \<times> string) option" where
  "read_pair s = (case read_string s of
       Some (k, c # cs) \<Rightarrow>
         if c = CHR '':'' then (case read_string cs of Some (v, rest) \<Rightarrow> Some ((k, v), rest) | None \<Rightarrow> None) else None
     | _ \<Rightarrow> None)"

lemma read_pair_shorter: "read_pair s = Some (kv, rest) \<Longrightarrow> length rest < length s"
  by (auto simp: read_pair_def split: option.splits list.splits if_splits dest!: read_string_shorter)

function read_members :: "string \<Rightarrow> (string \<times> string) list option" where
  "read_members s =
     (case read_pair s of
        Some (kv, c # rest) \<Rightarrow>
          if c = CHR '','' then map_option (Cons kv) (read_members rest)
          else if c = CHR ''}'' \<and> rest = [] then Some [kv] else None
      | _ \<Rightarrow> None)"
  by pat_completeness auto
termination by (relation "measure length") (auto dest: read_pair_shorter)

declare read_members.simps [simp del]

definition read_object :: "string \<Rightarrow> (string \<times> string) list option" where
  "read_object s = (if s = ''{}'' then Some [] else if take 1 s = ''{'' then read_members (drop 1 s) else None)"

lemma read_string_json [simp]: "read_string (json_string s @ rest) = Some (valid_text s, rest)"
  by (simp add: read_string_def json_string_def json_unquote_string)

lemma read_pair_json [simp]: "read_pair (json_pair (k, v) @ rest) = Some ((valid_text k, valid_text v), rest)"
  by (simp add: read_pair_def json_pair_def)

lemma read_members_json:
  "ps \<noteq> [] \<Longrightarrow> read_members (join_with '','' (map json_pair ps) @ ''}'') = Some (map (map_prod valid_text valid_text) ps)"
proof (induction ps)
  case (Cons p ps)
  obtain k v where p: "p = (k, v)" by (cases p)
  show ?case
  proof (cases ps)
    case Nil
    then show ?thesis by (subst read_members.simps) (simp add: p)
  next
    case (Cons q qs)
    then have "join_with '','' (map json_pair (p # ps)) @ ''}'' = json_pair (k, v) @ CHR '','' # join_with '','' (map json_pair ps) @ ''}''"
      by (simp add: p)
    moreover have "read_members (join_with '','' (map json_pair ps) @ ''}'') = Some (map (map_prod valid_text valid_text) ps)"
      using Cons.IH Cons by simp
    ultimately show ?thesis by (subst read_members.simps) (simp add: p)
  qed
qed simp

lemma read_object_json: "read_object (json_object m) = Some (map (map_prod valid_text valid_text) (sort_key fst m))"
proof (cases "sort_key fst m")
  case Nil
  then show ?thesis by (simp add: json_object_def read_object_def)
next
  case (Cons p ps)
  obtain k v where p: "p = (k, v)" by (cases p)
  have "json_object m \<noteq> ''{}''" by (cases ps) (simp_all add: json_object_def Cons p json_pair_def json_string_def)
  then show ?thesis
    using read_members_json [of "sort_key fst m"] Cons by (simp add: read_object_def json_object_def)
qed

lemma json_object_visible: "one_line (json_object m)"
  by (auto simp: json_object_def json_pair_def json_string_visible intro!: one_line_join)

section \<open>Time stamps\<close>

text \<open>\<open>time.Now().UTC().Format(time.RFC3339Nano)\<close> for a time in nanoseconds since the beginning of 1970. The
  date is counted in years that begin in March and in cycles of 400 years.\<close>

fun dec_digits :: "nat \<Rightarrow> int \<Rightarrow> string" where
  "dec_digits 0 n = []"
| "dec_digits (Suc k) n = dec_digits k (n div 10) @ [digit_char (nat (n mod 10))]"

definition civil_date :: "int \<Rightarrow> int \<times> int \<times> int" where
  "civil_date days =
     (let z = days + 719468; era = z div 146097; doe = z mod 146097;
          yoe = (doe - doe div 1460 + doe div 36524 - doe div 146096) div 365;
          doy = doe - (365 * yoe + yoe div 4 - yoe div 100);
          mp = (5 * doy + 2) div 153;
          m = (if mp < 10 then mp + 3 else mp - 9)
      in (yoe + era * 400 + (if m \<le> 2 then 1 else 0), m, doy - (153 * mp + 2) div 5 + 1))"

definition year_text :: "int \<Rightarrow> string" where
  "year_text y = (if y < 0 then ''-'' else []) @ (if \<bar>y\<bar> < 10000 then dec_digits 4 \<bar>y\<bar> else decimal (nat \<bar>y\<bar>))"

definition fraction_text :: "int \<Rightarrow> string" where
  "fraction_text ns = (let ds = rev (dropWhile (\<lambda>c. c = CHR ''0'') (rev (dec_digits 9 ns)))
     in if ds = [] then [] else CHR ''.'' # ds)"

definition format_time :: "time \<Rightarrow> string" where
  "format_time t =
     (let sec = t div 1000000000; day = sec mod 86400; (y, m, d) = civil_date (sec div 86400)
      in year_text y @ ''-'' @ dec_digits 2 m @ ''-'' @ dec_digits 2 d @ ''T'' @
         dec_digits 2 (day div 3600) @ '':'' @ dec_digits 2 (day div 60 mod 60) @ '':'' @ dec_digits 2 (day mod 60) @
         fraction_text (t mod 1000000000) @ ''Z'')"

lemma format_time_examples:
  "format_time 0 = ''1970-01-01T00:00:00Z''"
  "format_time 951782400000000000 = ''2000-02-29T00:00:00Z''"
  "format_time 1709251199999999999 = ''2024-02-29T23:59:59.999999999Z''"
  "format_time 1767225600120000000 = ''2026-01-01T00:00:00.12Z''"
  "format_time (-1) = ''1969-12-31T23:59:59.999999999Z''"
  by code_simp+

lemma decimal_ascii: "is_ascii (decimal n)"
proof (induction n rule: decimal.induct)
  case (1 n)
  then show ?case by (subst decimal.simps) (auto simp: is_ascii_def digit_char_def of_char_of take_bit_nat_def)
qed

lemma ascii_append [simp]: "is_ascii (s @ t) \<longleftrightarrow> is_ascii s \<and> is_ascii t"
  by (simp add: is_ascii_def)

lemma ascii_Cons [simp]: "is_ascii (c # s) \<longleftrightarrow> (of_char c :: nat) < 128 \<and> is_ascii s" "is_ascii []"
  by (simp_all add: is_ascii_def)

lemma dec_digits_ascii [simp]: "is_ascii (dec_digits k n)"
proof (induction k n rule: dec_digits.induct)
  case (2 k n)
  have "nat (n mod 10) < 10" by simp
  then have "(of_char (digit_char (nat (n mod 10))) :: nat) < 128" by (simp add: digit_char_def of_char_of take_bit_nat_def)
  then show ?case using 2 by simp
qed simp

lemma fraction_ascii [simp]: "is_ascii (fraction_text n)"
proof -
  have "is_ascii (rev (dropWhile P (rev s)))" if "is_ascii s" for P s
    using that set_dropWhileD by (fastforce simp: is_ascii_def list_all_iff)
  then show ?thesis by (simp add: fraction_text_def Let_def)
qed

lemma format_time_ascii: "is_ascii (format_time t)"
  by (simp add: format_time_def Let_def year_text_def decimal_ascii split: prod.split)

section \<open>The log\<close>

definition field_text :: "field_value \<Rightarrow> string" where
  "field_text v = (case v of TimeValue t \<Rightarrow> format_time t | TextValue s \<Rightarrow> s)"

text \<open>\<open>append(payload, '\n')\<close>.\<close>

definition audit_line :: "audit_record \<Rightarrow> string" where
  "audit_line r = json_object (map (\<lambda>(k, v). (k, field_text v)) r) @ [CHR 0x0A]"

definition audit_text :: "audit_logger option \<Rightarrow> string" where
  "audit_text l = concat (map audit_line (records_of l))"

text \<open>The file itself when writes may fail: \<open>Event\<close> ignores the error of \<open>Write\<close>, so a write that was cut
  short after some bytes is followed by the next line.\<close>

fun audit_file :: "nat option list \<Rightarrow> audit_record list \<Rightarrow> string" where
  "audit_file outcomes [] = []"
| "audit_file [] (r # rs) = audit_line r @ audit_file [] rs"
| "audit_file (out # outcomes) (r # rs) =
     (case out of None \<Rightarrow> audit_line r | Some n \<Rightarrow> take n (audit_line r)) @ audit_file outcomes rs"

lemma audit_file_complete:
  "list_all (\<lambda>out. out = None) outcomes \<Longrightarrow> audit_file outcomes (records_of l) = audit_text l"
proof -
  have "list_all (\<lambda>out. out = None) outcomes \<Longrightarrow> audit_file outcomes rs = concat (map audit_line rs)" for rs
    by (induction outcomes rs rule: audit_file.induct) simp_all
  then show "list_all (\<lambda>out. out = None) outcomes \<Longrightarrow> audit_file outcomes (records_of l) = audit_text l"
    by (simp add: audit_text_def)
qed

text \<open>What a reader of the log sees: the lines, each read as an object.\<close>

definition read_log :: "string \<Rightarrow> (string \<times> string) list option list" where
  "read_log s = map read_object (butlast (split_on (CHR 0x0A) s))"

lemma audit_line_split: "split_on (CHR 0x0A) (audit_line r @ s) = butlast (audit_line r) # split_on (CHR 0x0A) s"
proof -
  have "CHR 0x0A \<notin> set (json_object m)" for m
    using json_object_visible [of m] by (auto simp: one_line_def list_all_iff)
  then show ?thesis by (simp add: audit_line_def split_on_append)
qed

lemma read_log_line: "read_log (audit_line r @ s)
    = Some (map (map_prod valid_text valid_text) (sort_key fst (map (\<lambda>(k, v). (k, field_text v)) r))) # read_log s"
proof -
  have "butlast (audit_line r) = json_object (map (\<lambda>(k, v). (k, field_text v)) r)" by (simp add: audit_line_def)
  then show ?thesis by (simp add: read_log_def audit_line_split read_object_json)
qed

lemma read_log_lines: "read_log (concat (map audit_line rs))
    = map (\<lambda>r. Some (map (map_prod valid_text valid_text) (sort_key fst (map (\<lambda>(k, v). (k, field_text v)) r)))) rs"
  by (induction rs) (simp_all add: read_log_line, simp add: read_log_def)

lemma sorted_login_fields:
  "sort_key fst (map (\<lambda>(k, v). (k, field_text v)) (login_record kind now ip u res))
    = [(''event'', kind), (''result'', res), (''source_ip'', ip), (''time'', format_time now), (''username'', u)]"
  by (simp add: login_record_def field_text_def)

lemma valid_text_names:
  "valid_text ''event'' = ''event''" "valid_text ''result'' = ''result''" "valid_text ''source_ip'' = ''source_ip''"
  "valid_text ''time'' = ''time''" "valid_text ''username'' = ''username''" "valid_text ''web_login'' = ''web_login''"
  "valid_text ''ldap_bind'' = ''ldap_bind''" "valid_text (format_time t) = format_time t"
  by (simp_all add: valid_text_ascii format_time_ascii)

section \<open>Property\<close>

text \<open>C37: the audit log cannot be forged through a user name, an address or a result: logging a web login or an
  LDAP bind appends bytes only, and whoever reads the log line by line as JSON then finds the entries there
  were before and one more, with exactly the event, time, address, user name and result that were logged
  (bytes that are not UTF-8 as U+FFFD).\<close>

theorem audit_log_reads_back:
  "let logged = (\<lambda>kind. [(''event'', kind), (''result'', valid_text res), (''source_ip'', valid_text ip),
        (''time'', format_time now), (''username'', valid_text u)]);
      web = audit_text (WebLogin (Some l) now ip u res); ldap = audit_text (LDAPBind (Some l) now ip u res)
   in take (length (audit_text (Some l))) web = audit_text (Some l) \<and>
      read_log web = read_log (audit_text (Some l)) @ [Some (logged ''web_login'')] \<and>
      take (length (audit_text (Some l))) ldap = audit_text (Some l) \<and>
      read_log ldap = read_log (audit_text (Some l)) @ [Some (logged ''ldap_bind'')]"
  unfolding Let_def audit_text_def WebLogin_record LDAPBind_record records_append read_log_lines
  by (simp add: records_of_def sorted_login_fields valid_text_names read_log_lines)

end
