(* ===== verification/Main_Run.thy ===== *)
theory Main_Run
  imports App
begin

text \<open>
  \<open>cmd/nanoldap/main.go\<close> with everything it does in order: what it prints on standard error, which listeners
  it serves with which certificate, what it closes, and its exit code. \<open>run_program\<close> of theory \<open>App\<close> is its
  abstraction to the way a run ends.
\<close>

section \<open>What \<open>run\<close> does\<close>

record 'c tls_config =
  tc_MinVersion :: nat
  tc_Certificate :: 'c

datatype 'c effect =
    Print string
  | Serving service string "'c tls_config option"
  | CloseListener service
  | ShutDown service
  | StoreClose
  | AuditClose "string list"

datatype main_error = NoListenersEnabled | NewFailed app_error | ListenError service | ServiceError service | PanicInNew

text \<open>The outcomes of the calls to the system: of \<open>net.Listen\<close>, which gives the address it bound, of reading
  the files again for LDAPS, and the service that fails later on, if the run is not ended by a signal.\<close>

record 'k main_env =
  me_cert :: "'k cert_env"
  me_audit_open :: bool
  me_listen :: "service \<Rightarrow> string \<Rightarrow> string option"
  me_ldaps :: "'k cert_env"
  me_failing :: "service option"
  me_error_text :: "main_error \<Rightarrow> string"

text \<open>TLS 1.2 is version 0x0303.\<close>

definition tls12 :: "'c \<Rightarrow> 'c tls_config" where
  "tls12 cert = \<lparr>tc_MinVersion = 771, tc_Certificate = cert\<rparr>"

text \<open>\<open>ldapserver.TLSListener\<close> (the listener is named by its service).\<close>

definition TLSListener :: "('k, 'c) crypto \<Rightarrow> 'k cert_env \<Rightarrow> config \<Rightarrow> files \<Rightarrow> 'c tls_config option" where
  "TLSListener cr cenv cfg fs = map_option tls12 (LoadX509KeyPair cr cenv (CertFile cfg) (KeyFile cfg) fs)"

definition listening :: "string \<Rightarrow> string \<Rightarrow> 'c effect" where
  "listening name addr = Print (name @ '' listening on '' @ addr @ [CHR 0x0A])"

definition startHTTPServer :: "'k main_env \<Rightarrow> service \<Rightarrow> string \<Rightarrow> 'c tls_config option \<Rightarrow> 'c effect list \<times> bool" where
  "startHTTPServer env s addr tls =
     (case me_listen env s addr of None \<Rightarrow> ([], False) | Some _ \<Rightarrow> ([Serving s addr tls], True))"

definition startLDAPServer :: "service \<Rightarrow> string \<Rightarrow> 'c tls_config option \<Rightarrow> 'c effect list" where
  "startLDAPServer s addr tls = [Serving s addr tls]"

text \<open>One block \<open>if cfg.<Service>Port > 0 { ... }\<close>: what it does, and whether it goes on without an error.\<close>

definition start_service ::
  "('k, 'c) crypto \<Rightarrow> 'k main_env \<Rightarrow> config \<Rightarrow> 'c \<Rightarrow> files \<Rightarrow> service \<Rightarrow> 'c effect list \<times> bool" where
  "start_service cr env cfg cert fs s =
     (let addr = Addr cfg (service_port cfg s) in
      case s of
        HTTP \<Rightarrow>
          (case startHTTPServer env HTTP addr None of
             (es, ok) \<Rightarrow> if \<not> ok then (es, False) else (es @ [listening ''HTTP'' addr], True))
      | HTTPS \<Rightarrow>
          (case startHTTPServer env HTTPS addr (Some (tls12 cert)) of
             (es, ok) \<Rightarrow> if \<not> ok then (es, False) else (es @ [listening ''HTTPS'' addr], True))
      | LDAP \<Rightarrow>
          (case me_listen env LDAP addr of
             None \<Rightarrow> ([], False)
           | Some bound \<Rightarrow> (startLDAPServer LDAP addr None @ [listening ''LDAP'' bound], True))
      | LDAPS \<Rightarrow>
          (case me_listen env LDAPS addr of
             None \<Rightarrow> ([], False)
           | Some bound \<Rightarrow>
               (case TLSListener cr (me_ldaps env) cfg fs of
                  None \<Rightarrow> ([CloseListener LDAPS], False)
                | Some tls \<Rightarrow> (startLDAPServer LDAPS addr (Some tls) @ [listening ''LDAPS'' bound], True))))"

text \<open>The blocks one after the other: what they do, the services in \<open>shutdowns\<close>, and the service whose block
  returned an error.\<close>

fun start_blocks ::
  "('k, 'c) crypto \<Rightarrow> 'k main_env \<Rightarrow> config \<Rightarrow> 'c \<Rightarrow> files \<Rightarrow> service list \<Rightarrow> 'c effect list \<times> service list \<times> service option" where
  "start_blocks cr env cfg cert fs [] = ([], [], None)"
| "start_blocks cr env cfg cert fs (s # ss) =
     (if service_port cfg s > 0 then
        (case start_service cr env cfg cert fs s of
           (es, False) \<Rightarrow> (es, [], Some s)
         | (es, True) \<Rightarrow>
             (case start_blocks cr env cfg cert fs ss of (es', shutdowns, e) \<Rightarrow> (es @ es', s # shutdowns, e)))
      else start_blocks cr env cfg cert fs ss)"

text \<open>\<open>Logger.Close\<close>: the files it closes; a nil logger and standard output are left alone.\<close>

definition audit_Close :: "string \<Rightarrow> audit_logger option \<Rightarrow> string list" where
  "audit_Close destination l =
     (case l of None \<Rightarrow> [] | Some _ \<Rightarrow> if destination = [] \<or> destination = ''stdout'' then [] else [destination])"

text \<open>\<open>App.Close\<close>.\<close>

definition App_Close :: "config \<Rightarrow> audit_logger option \<Rightarrow> 'c effect list" where
  "App_Close cfg auditLog = [StoreClose, AuditClose (audit_Close (AuditLog cfg) auditLog)]"

text \<open>\<open>New\<close> closes the store again when a step after \<open>store.Open\<close> fails.\<close>

definition New_closes :: "(string \<times> 'c) option \<Rightarrow> world \<Rightarrow> 'c effect list" where
  "New_closes pair w = (if pair \<noteq> None \<and> is_ok (fst (Open_store w)) then [StoreClose] else [])"

definition run ::
  "('k, 'c) crypto \<Rightarrow> idkey \<Rightarrow> 'k main_env \<Rightarrow> config \<Rightarrow> files \<Rightarrow> world \<Rightarrow> 'c effect list \<times> main_error option" where
  "run cr idkey env cfg fs w =
     (if \<not> hasEnabledListener cfg then ([], Some NoListenersEnabled)
      else
        let (pair, fs) = EnsurePair cr (me_cert env) (CertFile cfg) (KeyFile cfg) fs
        in case App_New idkey pair (me_audit_open env) cfg w of
             (Inl Panicked, _) \<Rightarrow> ([], Some PanicInNew)
           | (Inl e, _) \<Rightarrow> (New_closes pair w, Some (NewFailed e))
           | (Inr instance, _) \<Rightarrow>
               (case start_blocks cr env cfg (ap_tlsCert instance) fs [HTTP, HTTPS, LDAP, LDAPS] of
                  (es, shutdowns, Some s) \<Rightarrow> (es @ App_Close cfg (ap_audit instance), Some (ListenError s))
                | (es, shutdowns, None) \<Rightarrow>
                    (es @ map ShutDown (shutdownAll shutdowns) @ App_Close cfg (ap_audit instance), map_option ServiceError (me_failing env))))"

text \<open>\<open>main\<close>: an error of \<open>run\<close> is printed, and the exit code is 1. A panic ends the process with code 2.\<close>

definition main ::
  "('k, 'c) crypto \<Rightarrow> idkey \<Rightarrow> 'k main_env \<Rightarrow> config \<Rightarrow> files \<Rightarrow> world \<Rightarrow> 'c effect list \<times> nat" where
  "main cr idkey env cfg fs w =
     (case run cr idkey env cfg fs w of
        (es, Some PanicInNew) \<Rightarrow> (es, 2)
      | (es, Some err) \<Rightarrow> (es @ [Print (''nanoldap: '' @ me_error_text env err @ [CHR 0x0A])], 1)
      | (es, None) \<Rightarrow> (es, 0))"

section \<open>The abstraction to the end of a run\<close>

definition env_listens :: "('k, 'c) crypto \<Rightarrow> 'k main_env \<Rightarrow> config \<Rightarrow> files \<Rightarrow> service \<Rightarrow> string \<Rightarrow> bool" where
  "env_listens cr env cfg fs s addr \<longleftrightarrow> me_listen env s addr \<noteq> None \<and>
     (s = LDAPS \<longrightarrow> TLSListener cr (me_ldaps env) cfg fs \<noteq> None)"

fun served :: "'c effect list \<Rightarrow> service list" where
  "served [] = []"
| "served (Serving s addr tls # es) = s # served es"
| "served (_ # es) = served es"

fun shut_down :: "'c effect list \<Rightarrow> service list" where
  "shut_down [] = []"
| "shut_down (ShutDown s # es) = s # shut_down es"
| "shut_down (_ # es) = shut_down es"

lemma served_append [simp]: "served (es @ es') = served es @ served es'"
  by (induction es rule: served.induct) simp_all

lemma shut_down_append [simp]: "shut_down (es @ es') = shut_down es @ shut_down es'"
  by (induction es rule: shut_down.induct) simp_all

lemma shut_down_map [simp]: "shut_down (map ShutDown ss) = ss" "served (map ShutDown ss) = []"
  by (induction ss) simp_all

lemma start_service_result:
  "start_service cr env cfg cert fs s = (es, ok) \<Longrightarrow>
     ok = env_listens cr env cfg fs s (Addr cfg (service_port cfg s)) \<and> served es = (if ok then [s] else []) \<and> shut_down es = []"
  by (auto simp: start_service_def startHTTPServer_def startLDAPServer_def env_listens_def Let_def listening_def split: option.splits service.splits)

lemma start_blocks_refine:
  assumes "start_blocks cr env cfg cert fs ss = (es, shutdowns, e)"
  shows "start_services cfg (env_listens cr env cfg fs) started ss = (started @ shutdowns, e) \<and> served es = shutdowns \<and>
    shut_down es = []"
  using assms
proof (induction ss arbitrary: es shutdowns started)
  case (Cons s ss)
  obtain es1 ok where one: "start_service cr env cfg cert fs s = (es1, ok)" by fastforce
  obtain es2 sh2 e2 where rest: "start_blocks cr env cfg cert fs ss = (es2, sh2, e2)" by (cases "start_blocks cr env cfg cert fs ss") auto
  note r = start_service_result [OF one]
  show ?case
  proof (cases "service_port cfg s > 0 \<and> ok")
    case True
    then show ?thesis
      using Cons.prems Cons.IH [of es2 sh2 "started @ [s]"] one rest r by (auto split: bool.splits)
  next
    case False
    then show ?thesis using Cons.prems Cons.IH [of es shutdowns started] one r by (auto split: bool.splits)
  qed
qed simp

text \<open>The services that are served are the first of the enabled ones, up to one that cannot be started.\<close>

lemma start_blocks_prefix:
  assumes "start_blocks cr env cfg cert fs [HTTP, HTTPS, LDAP, LDAPS] = (es, shutdowns, e)"
  shows "served es = shutdowns" "shut_down es = []" "\<exists>rest. enabled_services cfg = shutdowns @ rest"
    "e = None \<Longrightarrow> shutdowns = enabled_services cfg"
proof -
  let ?P = "can_listen cfg (env_listens cr env cfg fs)"
  note r = start_blocks_refine [OF assms, of "[]", unfolded start_services_run, folded enabled_services_def]
  then show "served es = shutdowns" "shut_down es = []" by simp_all
  have sh: "shutdowns = takeWhile ?P (enabled_services cfg)" using r by simp
  then show "\<exists>rest. enabled_services cfg = shutdowns @ rest" by (metis takeWhile_dropWhile_id)
  show "shutdowns = enabled_services cfg" if "e = None"
  proof -
    have "dropWhile ?P (enabled_services cfg) = []" using r that by (cases "dropWhile ?P (enabled_services cfg)") simp_all
    then show ?thesis unfolding sh by (metis append_Nil2 takeWhile_dropWhile_id)
  qed
qed

section \<open>Certificates\<close>

definition right_tls :: "config \<Rightarrow> 'c \<Rightarrow> 'c effect \<Rightarrow> bool" where
  "right_tls cfg c e = (case e of
     Serving s addr tls \<Rightarrow> addr = Addr cfg (service_port cfg s) \<and> tls = (if s \<in> {HTTPS, LDAPS} then Some (tls12 c) else None)
   | _ \<Rightarrow> True)"

lemma TLSListener_same:
  assumes "pair_on_disk cr (CertFile cfg) (KeyFile cfg) fs p" "TLSListener cr cenv cfg fs = Some t"
  shows "t = tls12 (snd p)"
  using assms by (auto simp: TLSListener_def LoadX509KeyPair_def ReadFile_def pair_on_disk_def split: option.splits if_splits)

lemma start_service_tls:
  assumes "pair_on_disk cr (CertFile cfg) (KeyFile cfg) fs p" "start_service cr env cfg (snd p) fs s = (es, ok)"
  shows "list_all (right_tls cfg (snd p)) es"
  using assms(2) TLSListener_same [OF assms(1)]
  by (auto simp: start_service_def startHTTPServer_def startLDAPServer_def right_tls_def listening_def Let_def split: option.splits service.splits)

lemma start_blocks_tls:
  assumes "pair_on_disk cr (CertFile cfg) (KeyFile cfg) fs p" "start_blocks cr env cfg (snd p) fs ss = (es, sh, e)"
  shows "list_all (right_tls cfg (snd p)) es"
  using assms(2)
proof (induction ss arbitrary: es sh)
  case (Cons s ss)
  then show ?case
    using start_service_tls [OF assms(1), of env s]
    by (auto split: if_splits prod.splits bool.splits)
qed simp

lemma App_New_tls: "App_New idkey (Some (pem, c)) open_ok cfg w = (Inr a, w') \<Longrightarrow> ap_tlsCert a = c"
  by (auto simp: App_New_def split: prod.splits sum.splits option.splits)

text \<open>The end of a run that got past \<open>New\<close>.\<close>

definition closing :: "config \<Rightarrow> 'c effect list" where
  "closing cfg = [StoreClose, AuditClose (if AuditLog cfg \<in> {[], ''stdout''} then [] else [AuditLog cfg])]"

lemma App_New_closing: "App_New idkey pair open_ok cfg w = (Inr a, w') \<Longrightarrow> App_Close cfg (ap_audit a) = closing cfg"
  by (erule App_New_Inr) (simp add: App_Close_def audit_Close_def closing_def)

text \<open>The ways through \<open>run\<close>.\<close>

lemma run_cases:
  assumes "run cr idkey env cfg fs w = (es, err)"
  obtains (early) "es = [] \<or> es = [StoreClose]" "err = Some NoListenersEnabled \<or> (\<exists>e. err = Some (NewFailed e))"
  | (panicked) "es = []" "err = Some PanicInNew"
  | (listen) c pem fs' es' sh s where "EnsurePair cr (me_cert env) (CertFile cfg) (KeyFile cfg) fs = (Some (pem, c), fs')"
      "start_blocks cr env cfg c fs' [HTTP, HTTPS, LDAP, LDAPS] = (es', sh, Some s)"
      "es = es' @ closing cfg" "err = Some (ListenError s)"
  | (stopped) c pem fs' es' sh where "EnsurePair cr (me_cert env) (CertFile cfg) (KeyFile cfg) fs = (Some (pem, c), fs')"
      "start_blocks cr env cfg c fs' [HTTP, HTTPS, LDAP, LDAPS] = (es', sh, None)"
      "es = es' @ map ShutDown (rev sh) @ closing cfg" "err = map_option ServiceError (me_failing env)"
proof (cases "hasEnabledListener cfg")
  case False
  then show ?thesis using early assms by (simp add: run_def)
next
  case True
  obtain pair fs' where pair: "EnsurePair cr (me_cert env) (CertFile cfg) (KeyFile cfg) fs = (pair, fs')" by fastforce
  obtain r w' where app: "App_New idkey pair (me_audit_open env) cfg w = (r, w')" by fastforce
  note run = assms [unfolded run_def Let_def pair prod.case app]
  show ?thesis
  proof (cases r)
    case (Inl e)
    then have "es = [] \<and> err = Some PanicInNew \<or> es = New_closes pair w \<and> err = Some (NewFailed e)"
      using run True by (auto split: app_error.splits)
    then show ?thesis using early panicked by (auto simp: New_closes_def split: if_splits)
  next
    case (Inr a)
    then obtain pem c where p: "pair = Some (pem, c)" using app by (cases pair) (auto simp: App_New_def)
    have cert: "ap_tlsCert a = c" using App_New_tls [OF app [unfolded p Inr]] .
    obtain es' sh e where blocks: "start_blocks cr env cfg c fs' [HTTP, HTTPS, LDAP, LDAPS] = (es', sh, e)"
      by (metis prod_cases3)
    note run' = run [unfolded Inr sum.case cert blocks prod.case App_New_closing [OF app [unfolded Inr]]]
    show ?thesis
    proof (cases e)
      case None
      then show ?thesis using stopped [OF pair [unfolded p]] blocks run' True by (simp add: shutdownAll_rev)
    next
      case (Some s)
      then show ?thesis using listen [OF pair [unfolded p]] blocks run' True by simp
    qed
  qed
qed

text \<open>What a run has done when it returns.\<close>

definition run_done :: "config \<Rightarrow> 'c effect list \<Rightarrow> main_error option \<Rightarrow> bool" where
  "run_done cfg es err \<longleftrightarrow> (\<exists>c. list_all (right_tls cfg c) es) \<and> (\<exists>rest. enabled_services cfg = served es @ rest) \<and>
     (if err = None \<or> (\<exists>s. err = Some (ServiceError s)) then
        served es = enabled_services cfg \<and> served es \<noteq> [] \<and> shut_down es = rev (served es) \<and> (\<exists>es'. es = es' @ closing cfg)
      else if err = Some PanicInNew then es = []
      else shut_down es = [] \<and> (served es = [] \<or> (\<exists>es'. es = es' @ closing cfg)))"

lemma run_is_done:
  assumes "run cr idkey env cfg fs w = (es, err)" "CertFile cfg \<noteq> KeyFile cfg"
  shows "run_done cfg es err"
  using assms(1)
proof (cases rule: run_cases)
  case early
  then show ?thesis by (auto simp: run_done_def right_tls_def)
next
  case panicked
  then show ?thesis by (simp add: run_done_def)
next
  case (listen c pem fs' es' sh s)
  note disk = EnsurePair_on_disk [OF listen(1) assms(2)]
  have "list_all (right_tls cfg c) es'" by (rule start_blocks_tls [OF disk, unfolded snd_conv, OF listen(2)])
  then have "list_all (right_tls cfg c) es" using listen(3) by (simp add: closing_def right_tls_def)
  then show ?thesis using start_blocks_prefix [OF listen(2)] listen(3,4) by (auto simp: run_done_def closing_def)
next
  case (stopped c pem fs' es' sh)
  note disk = EnsurePair_on_disk [OF stopped(1) assms(2)]
  have "list_all (right_tls cfg c) es'" by (rule start_blocks_tls [OF disk, unfolded snd_conv, OF stopped(2)])
  then have "list_all (right_tls cfg c) es" using stopped(3) by (auto simp: closing_def right_tls_def list_all_iff)
  moreover have "enabled_services cfg \<noteq> []"
    using assms(1) stopped(4) hasEnabledListener_iff [of cfg] by (cases "me_failing env") (auto simp: run_def)
  ultimately show ?thesis
    using start_blocks_prefix [OF stopped(2)] stopped(3,4) by (cases "me_failing env") (auto simp: run_done_def closing_def)
qed

section \<open>Property\<close>


definition main_demo_env :: "string main_env" where
  "main_demo_env = \<lparr>me_cert = sample_env ''k1'', me_audit_open = True, me_listen = (\<lambda>s addr. Some addr), me_ldaps = sample_env ''k2'',
     me_failing = None, me_error_text = (\<lambda>_. ''failed'')\<rparr>"

definition main_demo_config :: config where
  "main_demo_config = (env_config (\<lambda>_. []))\<lparr>HTTPSPort := 443, LDAPSPort := 636\<rparr>"


end
